(* ===== verification/Prelude.thy ===== *)
theory Prelude
  imports Complex_Main "HOL-Library.Char_ord" "HOL-Library.List_Lexorder"
begin

text \<open>
  Shared vocabulary of the development: the JavaScript values the sources
  compute with (numbers as they reach a validity check, trimmed strings, the
  insertion-ordered \<open>Map\<close>), the interface of a keyed store, and the contract of
  a time-bounded grant.

  Conventions used by every theory of the development:
  \<^item> a thrown error is \<open>Inl\<close> of an error datatype, a returned value is \<open>Inr\<close>;
    an operation that mutates its object returns the new state, also when it
    throws after a mutation;
  \<^item> \<open>bigint\<close> and integral \<open>number\<close> values are \<open>int\<close>; a \<open>number\<close> that the code
    validates with \<open>Number.isInteger\<close> or \<open>Number.isFinite\<close> is a \<open>jsnum\<close>;
  \<^item> an instant is its millisecond count (\<open>int\<close>). Where the code stores an ISO-8601
    string only to parse it back with \<open>Date.parse\<close>, the model stores the instant;
  \<^item> a string is a list of code units; code units above 255 are not represented;
  \<^item> clocks and random identifiers (\<open>Date.now()\<close>, \<open>randomUUID()\<close>) are arguments;
  \<^item> log output has no effect on any state and is left out.
\<close>

named_theorems js_simps \<open>evaluation rules of the JavaScript fragment\<close>

type_synonym instant = int

subsection \<open>Numbers\<close>

text \<open>A JavaScript number is NaN, an infinity, or a finite (hence rational) value.\<close>

datatype jsnum = NaN | PosInf | NegInf | Num rat

fun isFinite :: "jsnum \<Rightarrow> bool" where
  "isFinite (Num q) = True"
| "isFinite _ = False"

fun isInteger :: "jsnum \<Rightarrow> bool" where
  "isInteger (Num q) = (of_int \<lfloor>q\<rfloor> = q)"
| "isInteger _ = False"

text \<open>Comparisons with NaN are false, whichever side it is on.\<close>

fun num_less :: "jsnum \<Rightarrow> jsnum \<Rightarrow> bool" where
  "num_less NaN _ = False"
| "num_less _ NaN = False"
| "num_less (Num p) (Num q) = (p < q)"
| "num_less NegInf y = (y \<noteq> NegInf)"
| "num_less _ PosInf = True"
| "num_less _ _ = False"

fun num_le :: "jsnum \<Rightarrow> jsnum \<Rightarrow> bool" where
  "num_le NaN _ = False"
| "num_le _ NaN = False"
| "num_le x y = (x = y \<or> num_less x y)"

abbreviation num_of_int :: "int \<Rightarrow> jsnum" where
  "num_of_int i \<equiv> Num (of_int i)"

text \<open>\<open>BigInt(n)\<close> and integer use of a number that passed \<open>Number.isInteger\<close>.\<close>

fun num_floor :: "jsnum \<Rightarrow> int" where
  "num_floor (Num q) = \<lfloor>q\<rfloor>"
| "num_floor _ = 0"

lemma isInteger_conv: "isInteger x \<longleftrightarrow> (\<exists>i. x = num_of_int i)"
proof (cases x)
  case (Num q)
  have "of_int \<lfloor>q\<rfloor> = q \<longleftrightarrow> (\<exists>i. q = of_int i)"
    by (metis floor_of_int)
  with Num show ?thesis by simp
qed auto

lemma isInteger_num_of_int [simp]: "isInteger (num_of_int i)"
  by simp

lemma num_floor_of_int [simp]: "num_floor (num_of_int i) = i"
  by simp

subsection \<open>Strings\<close>

definition is_space :: "char \<Rightarrow> bool" where
  "is_space c \<longleftrightarrow> (of_char c :: nat) \<in> {9, 10, 11, 12, 13, 32, 160}"

definition js_trim :: "string \<Rightarrow> string" where
  "js_trim s = rev (dropWhile is_space (rev (dropWhile is_space s)))"

lemma js_trim_Nil_iff: "js_trim s = [] \<longleftrightarrow> (\<forall>c\<in>set s. is_space c)"
proof -
  have "js_trim s = [] \<longleftrightarrow> (\<forall>c\<in>set (dropWhile is_space s). is_space c)"
    by (simp add: js_trim_def dropWhile_eq_Nil_conv)
  also have "\<dots> \<longleftrightarrow> dropWhile is_space s = []"
    by (metis dropWhile_eq_Nil_conv dropWhile_idem)
  finally show ?thesis by (simp add: dropWhile_eq_Nil_conv)
qed

lemma js_trim_idem: "js_trim (js_trim s) = js_trim s"
proof -
  have trimmed: "dropWhile P xs = xs" if "xs = [] \<or> \<not> P (hd xs)" for P and xs :: string
    using that by (cases xs) auto
  have hd_ok: "dropWhile P xs = [] \<or> \<not> P (hd (dropWhile P xs))" for P and xs :: string
    by (meson hd_dropWhile)
  define d where "d = dropWhile is_space s"
  define e where "e = dropWhile is_space (rev d)"
  have "rev e = [] \<or> \<not> is_space (hd (rev e))"
  proof (cases "e = []")
    case False
    then have "\<exists>p. rev d = p @ e" unfolding e_def by (metis takeWhile_dropWhile_id)
    then obtain q where q: "d = rev e @ q" by (metis rev_append rev_rev_ident)
    with False hd_ok [of is_space s] show ?thesis by (auto simp: d_def [symmetric])
  qed simp
  then have "dropWhile is_space (rev e) = rev e" by (rule trimmed)
  moreover have "dropWhile is_space e = e" unfolding e_def by (rule trimmed) (rule hd_ok)
  ultimately show ?thesis by (simp add: js_trim_def d_def [symmetric] e_def [symmetric])
qed

text \<open>Decimal rendering of an integer, as template literals and \<open>toString\<close> print it.\<close>

definition digit_char :: "nat \<Rightarrow> char" where
  "digit_char d = char_of (48 + d)"

fun nat_str :: "nat \<Rightarrow> string" where
  "nat_str n = (if n < 10 then [digit_char n] else nat_str (n div 10) @ [digit_char (n mod 10)])"

declare nat_str.simps [simp del]

definition int_str :: "int \<Rightarrow> string" where
  "int_str i = (if i < 0 then CHR ''-'' # nat_str (nat (- i)) else nat_str (nat i))"

fun join :: "string \<Rightarrow> string list \<Rightarrow> string" where
  "join sep [] = []"
| "join sep [s] = s"
| "join sep (s # ss) = s @ sep @ join sep ss"

subsection \<open>Keyed stores\<close>

text \<open>
  What the services rely on in a keyed store: a lookup returns the last value
  stored under the key, a removed key is absent, other keys are untouched.
\<close>

locale keyed_store =
  fixes lookup :: "'m \<Rightarrow> 'k \<Rightarrow> 'v option"
    and store :: "'k \<Rightarrow> 'v \<Rightarrow> 'm \<Rightarrow> 'm"
    and remove :: "'k \<Rightarrow> 'm \<Rightarrow> 'm"
  assumes lookup_store: "lookup (store k v m) = (lookup m)(k \<mapsto> v)"
    and lookup_remove: "lookup (remove k m) = (lookup m)(k := None)"
begin

lemma lookup_store_same [simp]: "lookup (store k v m) k = Some v"
  by (simp add: lookup_store)

lemma lookup_store_other [simp]: "k' \<noteq> k \<Longrightarrow> lookup (store k v m) k' = lookup m k'"
  by (simp add: lookup_store)

lemma lookup_remove_same [simp]: "lookup (remove k m) k = None"
  by (simp add: lookup_remove)

lemma lookup_remove_other [simp]: "k' \<noteq> k \<Longrightarrow> lookup (remove k m) k' = lookup m k'"
  by (simp add: lookup_remove)

lemma store_preserves_all:
  "(\<And>k' v'. lookup m k' = Some v' \<Longrightarrow> P k' v') \<Longrightarrow> P k v \<Longrightarrow>
   lookup (store k v m) k' = Some v' \<Longrightarrow> P k' v'"
  by (auto simp: lookup_store split: if_splits)

end

text \<open>
  A keyed store that can also be enumerated: its entries have distinct keys and
  agree with lookup, so its size grows by one exactly when a new key is stored.
\<close>

locale enumerable_store = keyed_store lookup store remove
  for lookup :: "'m \<Rightarrow> 'k \<Rightarrow> 'v option"
    and store :: "'k \<Rightarrow> 'v \<Rightarrow> 'm \<Rightarrow> 'm"
    and remove :: "'k \<Rightarrow> 'm \<Rightarrow> 'm" +
  fixes entries :: "'m \<Rightarrow> ('k \<times> 'v) list"
    and invar :: "'m \<Rightarrow> bool"
  assumes entries_distinct: "invar m \<Longrightarrow> distinct (map fst (entries m))"
    and entries_lookup: "invar m \<Longrightarrow> map_of (entries m) = lookup m"
    and invar_store: "invar m \<Longrightarrow> invar (store k v m)"
    and invar_remove: "invar m \<Longrightarrow> invar (remove k m)"
begin

lemma entries_iff: "invar m \<Longrightarrow> (k, v) \<in> set (entries m) \<longleftrightarrow> lookup m k = Some v"
  by (metis entries_distinct entries_lookup map_of_eq_Some_iff)

lemma size_dom: "invar m \<Longrightarrow> length (entries m) = card (dom (lookup m))"
  by (metis distinct_card dom_map_of_conv_image_fst entries_distinct entries_lookup length_map
      list.set_map)

lemma finite_dom: "invar m \<Longrightarrow> finite (dom (lookup m))"
  by (metis entries_lookup finite_dom_map_of)

lemma size_store:
  "invar m \<Longrightarrow> length (entries (store k v m)) =
     (if lookup m k = None then Suc (length (entries m)) else length (entries m))"
  by (simp add: size_dom invar_store finite_dom lookup_store domIff insert_absorb)

lemma size_remove:
  "invar m \<Longrightarrow> length (entries (remove k m)) =
     (if lookup m k = None then length (entries m) else length (entries m) - 1)"
  by (simp add: size_dom invar_remove finite_dom lookup_remove domIff)

end

subsection \<open>The JavaScript Map\<close>

text \<open>
  \<open>Map\<close> keeps its entries in insertion order; setting a present key keeps the
  key's position, deleting and setting again moves it to the end.
\<close>

type_synonym ('k, 'v) js_map = "('k \<times> 'v) list"

fun js_set :: "'k \<Rightarrow> 'v \<Rightarrow> ('k, 'v) js_map \<Rightarrow> ('k, 'v) js_map" where
  "js_set k v [] = [(k, v)]"
| "js_set k v ((k', v') # m) = (if k' = k then (k, v) # m else (k', v') # js_set k v m)"

definition js_delete :: "'k \<Rightarrow> ('k, 'v) js_map \<Rightarrow> ('k, 'v) js_map" where
  "js_delete k m = filter (\<lambda>e. fst e \<noteq> k) m"

definition js_map_ok :: "('k, 'v) js_map \<Rightarrow> bool" where
  "js_map_ok m \<longleftrightarrow> distinct (map fst m)"

lemma map_of_js_set: "map_of (js_set k v m) = (map_of m)(k \<mapsto> v)"
  by (induction m rule: js_set.induct) (auto simp: fun_eq_iff)

lemma map_of_js_delete: "map_of (js_delete k m) = (map_of m)(k := None)"
  by (induction m) (auto simp: js_delete_def fun_eq_iff)

lemma keys_js_set: "fst ` set (js_set k v m) = insert k (fst ` set m)"
  by (induction m rule: js_set.induct) auto

lemma js_set_ok: "js_map_ok m \<Longrightarrow> js_map_ok (js_set k v m)"
  by (induction m rule: js_set.induct) (auto simp: js_map_ok_def keys_js_set)

lemma js_delete_ok: "js_map_ok m \<Longrightarrow> js_map_ok (js_delete k m)"
  by (simp add: js_map_ok_def js_delete_def distinct_map_filter)

interpretation jsm: enumerable_store map_of js_set js_delete "\<lambda>m. m" js_map_ok
  by unfold_locales
     (simp_all add: map_of_js_set map_of_js_delete js_set_ok js_delete_ok, simp add: js_map_ok_def)

lemma js_map_ok_Nil [simp]: "js_map_ok []"
  by (simp add: js_map_ok_def)

lemma set_js_set: "set (js_set k v m) \<subseteq> insert (k, v) (set m)"
  by (induction m rule: js_set.induct) auto

lemma js_set_fresh: "k \<notin> fst ` set m \<Longrightarrow> js_set k v m = m @ [(k, v)]"
  by (induction m rule: js_set.induct) auto

lemmas js_map_simps = map_of_js_set map_of_js_delete js_set_ok js_delete_ok

end
