(* ===== verification/Bond_State_Machine.thy ===== *)
theory Bond_State_Machine
  imports Prelude
begin

text \<open>
  The three lifecycle machines of \<open>api/src/bonds/bond.state-machine.ts\<close>: bonds,
  carbon-credit coupons and secondary-market settlements. Each is a transition
  table (state to an ordered list of event/successor pairs, the order
  \<open>Object.keys\<close> reports) with a set of terminal states, and a \<open>transition\<close>
  operation that either returns the successor or throws
  \<open>InvalidStateTransitionException\<close>. The bond machine also records a history.

  The contract the three tables share is the locale \<open>transition_table\<close>; the
  facts about runs are proved there once and reach the machines through the
  interpretations.
\<close>

section \<open>States, events and tables\<close>

datatype BondState = DRAFT | ISSUED | ACTIVE | SUSPENDED | DEFAULTED | RESTRUCTURED
  | MATURED | CANCELLED | LIQUIDATED

datatype BondEvent = PUBLISH | CANCEL | FUND | SUSPEND | RESUME | MISS_PAYMENT
  | CURE_DEFAULT | RESTRUCTURE | LIQUIDATE | REPAY_FULL

text \<open>The enum members are strings; an error message prints them.\<close>

fun BondState_str :: "BondState \<Rightarrow> string" where
  "BondState_str DRAFT = ''DRAFT''"
| "BondState_str ISSUED = ''ISSUED''"
| "BondState_str ACTIVE = ''ACTIVE''"
| "BondState_str SUSPENDED = ''SUSPENDED''"
| "BondState_str DEFAULTED = ''DEFAULTED''"
| "BondState_str RESTRUCTURED = ''RESTRUCTURED''"
| "BondState_str MATURED = ''MATURED''"
| "BondState_str CANCELLED = ''CANCELLED''"
| "BondState_str LIQUIDATED = ''LIQUIDATED''"

fun BondEvent_str :: "BondEvent \<Rightarrow> string" where
  "BondEvent_str PUBLISH = ''PUBLISH''"
| "BondEvent_str CANCEL = ''CANCEL''"
| "BondEvent_str FUND = ''FUND''"
| "BondEvent_str SUSPEND = ''SUSPEND''"
| "BondEvent_str RESUME = ''RESUME''"
| "BondEvent_str MISS_PAYMENT = ''MISS_PAYMENT''"
| "BondEvent_str CURE_DEFAULT = ''CURE_DEFAULT''"
| "BondEvent_str RESTRUCTURE = ''RESTRUCTURE''"
| "BondEvent_str LIQUIDATE = ''LIQUIDATE''"
| "BondEvent_str REPAY_FULL = ''REPAY_FULL''"

record InvalidStateTransitionException =
  ex_fromState :: string
  ex_event :: string
  ex_allowedEvents :: "string list"
  ex_isTerminal :: bool

definition exception_message :: "InvalidStateTransitionException \<Rightarrow> string" where
  "exception_message x =
     (let terminalNote = (if ex_isTerminal x then '' State is terminal.'' else '''');
          allowedMsg = (if length (ex_allowedEvents x) \<noteq> 0
                        then '' Allowed events: ['' @ join '', '' (ex_allowedEvents x) @ ''].''
                        else '' No outgoing transitions permitted.'')
      in ''Invalid state transition from '' @ ex_fromState x @ '' via event '' @ ex_event x @ ''.''
         @ terminalNote @ allowedMsg)"

fun bond_transitions :: "BondState \<Rightarrow> (BondEvent \<times> BondState) list" where
  "bond_transitions DRAFT = [(PUBLISH, ISSUED), (CANCEL, CANCELLED)]"
| "bond_transitions ISSUED = [(FUND, ACTIVE), (CANCEL, CANCELLED)]"
| "bond_transitions ACTIVE =
     [(SUSPEND, SUSPENDED), (MISS_PAYMENT, DEFAULTED), (REPAY_FULL, MATURED)]"
| "bond_transitions SUSPENDED = [(RESUME, ACTIVE), (MISS_PAYMENT, DEFAULTED)]"
| "bond_transitions DEFAULTED =
     [(CURE_DEFAULT, ACTIVE), (RESTRUCTURE, RESTRUCTURED), (LIQUIDATE, LIQUIDATED)]"
| "bond_transitions RESTRUCTURED =
     [(RESUME, ACTIVE), (REPAY_FULL, MATURED), (MISS_PAYMENT, DEFAULTED)]"
| "bond_transitions MATURED = []"
| "bond_transitions CANCELLED = []"
| "bond_transitions LIQUIDATED = []"

definition bond_terminal :: "BondState \<Rightarrow> bool" where
  "bond_terminal s \<longleftrightarrow> s \<in> set [MATURED, CANCELLED, LIQUIDATED]"

record TransitionRecord =
  tr_timestamp :: instant
  tr_from :: BondState
  tr_to :: BondState
  tr_event :: BondEvent
  tr_actor :: "string option"
  tr_reason :: "string option"

type_synonym history = "TransitionRecord list"

section \<open>The bond machine's operations\<close>

definition bond_getAllowedEvents :: "BondState \<Rightarrow> BondEvent list" where
  "bond_getAllowedEvents s = map fst (bond_transitions s)"

definition bond_canTransition :: "BondState \<Rightarrow> BondEvent \<Rightarrow> bool" where
  "bond_canTransition s e \<longleftrightarrow> map_of (bond_transitions s) e \<noteq> None"

text \<open>
  \<open>transition\<close>: on an event the table does not list, the exception and an
  unchanged history; otherwise the successor and one more history record.
\<close>

definition bond_transition ::
  "history \<Rightarrow> instant \<Rightarrow> BondState \<Rightarrow> BondEvent \<Rightarrow> string option \<Rightarrow> string option \<Rightarrow>
   (InvalidStateTransitionException + BondState) \<times> history" where
  "bond_transition h now currentState ev actor reason =
     (case map_of (bond_transitions currentState) ev of
        None \<Rightarrow>
          (Inl \<lparr>ex_fromState = BondState_str currentState, ex_event = BondEvent_str ev,
                ex_allowedEvents = map (BondEvent_str \<circ> fst) (bond_transitions currentState),
                ex_isTerminal = bond_terminal currentState\<rparr>, h)
      | Some nextState \<Rightarrow>
          (Inr nextState,
           h @ [\<lparr>tr_timestamp = now, tr_from = currentState, tr_to = nextState, tr_event = ev,
                 tr_actor = actor, tr_reason = reason\<rparr>]))"

definition bond_getHistory :: "history \<Rightarrow> TransitionRecord list" where
  "bond_getHistory h = h"

definition bond_clearHistory :: "history \<Rightarrow> history" where
  "bond_clearHistory h = []"

section \<open>The coupon and settlement machines\<close>

datatype CouponState = SCHEDULED | ORACLE_VERIFYING | VERIFIED | DISTRIBUTING | DISTRIBUTED
  | CHALLENGED | RECONCILED | FAILED

datatype CouponEvent = TRIGGER_VERIFICATION | CONFIRM_ORACLE | START_DISTRIBUTION
  | COMPLETE_DISTRIBUTION | CHALLENGE | RESOLVE_CHALLENGE | FAIL | RETRY

fun CouponState_str :: "CouponState \<Rightarrow> string" where
  "CouponState_str SCHEDULED = ''SCHEDULED''"
| "CouponState_str ORACLE_VERIFYING = ''ORACLE_VERIFYING''"
| "CouponState_str VERIFIED = ''VERIFIED''"
| "CouponState_str DISTRIBUTING = ''DISTRIBUTING''"
| "CouponState_str DISTRIBUTED = ''DISTRIBUTED''"
| "CouponState_str CHALLENGED = ''CHALLENGED''"
| "CouponState_str RECONCILED = ''RECONCILED''"
| "CouponState_str FAILED = ''FAILED''"

fun CouponEvent_str :: "CouponEvent \<Rightarrow> string" where
  "CouponEvent_str TRIGGER_VERIFICATION = ''TRIGGER_VERIFICATION''"
| "CouponEvent_str CONFIRM_ORACLE = ''CONFIRM_ORACLE''"
| "CouponEvent_str START_DISTRIBUTION = ''START_DISTRIBUTION''"
| "CouponEvent_str COMPLETE_DISTRIBUTION = ''COMPLETE_DISTRIBUTION''"
| "CouponEvent_str CHALLENGE = ''CHALLENGE''"
| "CouponEvent_str RESOLVE_CHALLENGE = ''RESOLVE_CHALLENGE''"
| "CouponEvent_str FAIL = ''FAIL''"
| "CouponEvent_str RETRY = ''RETRY''"

fun coupon_transitions :: "CouponState \<Rightarrow> (CouponEvent \<times> CouponState) list" where
  "coupon_transitions SCHEDULED = [(TRIGGER_VERIFICATION, ORACLE_VERIFYING), (FAIL, FAILED)]"
| "coupon_transitions ORACLE_VERIFYING =
     [(CONFIRM_ORACLE, VERIFIED), (CHALLENGE, CHALLENGED), (FAIL, FAILED)]"
| "coupon_transitions VERIFIED = [(START_DISTRIBUTION, DISTRIBUTING), (CHALLENGE, CHALLENGED)]"
| "coupon_transitions DISTRIBUTING = [(COMPLETE_DISTRIBUTION, DISTRIBUTED), (FAIL, FAILED)]"
| "coupon_transitions CHALLENGED = [(RESOLVE_CHALLENGE, RECONCILED), (FAIL, FAILED)]"
| "coupon_transitions RECONCILED = [(START_DISTRIBUTION, DISTRIBUTING)]"
| "coupon_transitions FAILED = [(RETRY, SCHEDULED)]"
| "coupon_transitions DISTRIBUTED = []"

definition coupon_terminal :: "CouponState \<Rightarrow> bool" where
  "coupon_terminal s \<longleftrightarrow> s \<in> set [DISTRIBUTED]"

definition coupon_transition ::
  "CouponState \<Rightarrow> CouponEvent \<Rightarrow> InvalidStateTransitionException + CouponState" where
  "coupon_transition currentState ev =
     (case map_of (coupon_transitions currentState) ev of
        None \<Rightarrow> Inl \<lparr>ex_fromState = CouponState_str currentState, ex_event = CouponEvent_str ev,
                     ex_allowedEvents = map (CouponEvent_str \<circ> fst) (coupon_transitions currentState),
                     ex_isTerminal = coupon_terminal currentState\<rparr>
      | Some next \<Rightarrow> Inr next)"

datatype SettlementState = PROPOSED | ESCROW_LOCKED | SETTLING | SETTLED | DISPUTED | REVERSED

datatype SettlementEvent = LOCK_ESCROW | CANCEL_ORDER | EXECUTE_SETTLEMENT | CONFIRM_RECEIPT
  | DISPUTE | RESOLVE_ROLLBACK

fun SettlementState_str :: "SettlementState \<Rightarrow> string" where
  "SettlementState_str PROPOSED = ''PROPOSED''"
| "SettlementState_str ESCROW_LOCKED = ''ESCROW_LOCKED''"
| "SettlementState_str SETTLING = ''SETTLING''"
| "SettlementState_str SETTLED = ''SETTLED''"
| "SettlementState_str DISPUTED = ''DISPUTED''"
| "SettlementState_str REVERSED = ''REVERSED''"

fun SettlementEvent_str :: "SettlementEvent \<Rightarrow> string" where
  "SettlementEvent_str LOCK_ESCROW = ''LOCK_ESCROW''"
| "SettlementEvent_str CANCEL_ORDER = ''CANCEL_ORDER''"
| "SettlementEvent_str EXECUTE_SETTLEMENT = ''EXECUTE_SETTLEMENT''"
| "SettlementEvent_str CONFIRM_RECEIPT = ''CONFIRM_RECEIPT''"
| "SettlementEvent_str DISPUTE = ''DISPUTE''"
| "SettlementEvent_str RESOLVE_ROLLBACK = ''RESOLVE_ROLLBACK''"

fun settlement_transitions :: "SettlementState \<Rightarrow> (SettlementEvent \<times> SettlementState) list" where
  "settlement_transitions PROPOSED = [(LOCK_ESCROW, ESCROW_LOCKED), (CANCEL_ORDER, REVERSED)]"
| "settlement_transitions ESCROW_LOCKED =
     [(EXECUTE_SETTLEMENT, SETTLING), (CANCEL_ORDER, REVERSED)]"
| "settlement_transitions SETTLING = [(CONFIRM_RECEIPT, SETTLED), (DISPUTE, DISPUTED)]"
| "settlement_transitions DISPUTED = [(RESOLVE_ROLLBACK, REVERSED), (CONFIRM_RECEIPT, SETTLED)]"
| "settlement_transitions SETTLED = []"
| "settlement_transitions REVERSED = []"

definition settlement_terminal :: "SettlementState \<Rightarrow> bool" where
  "settlement_terminal s \<longleftrightarrow> s \<in> set [SETTLED, REVERSED]"

definition settlement_transition ::
  "SettlementState \<Rightarrow> SettlementEvent \<Rightarrow> InvalidStateTransitionException + SettlementState" where
  "settlement_transition currentState ev =
     (case map_of (settlement_transitions currentState) ev of
        None \<Rightarrow> Inl \<lparr>ex_fromState = SettlementState_str currentState, ex_event = SettlementEvent_str ev,
                     ex_allowedEvents = map (SettlementEvent_str \<circ> fst) (settlement_transitions currentState),
                     ex_isTerminal = settlement_terminal currentState\<rparr>
      | Some next \<Rightarrow> Inr next)"

section \<open>Runs\<close>

text \<open>A caller that feeds each returned state into the next call, until one throws.\<close>

fun run :: "('s \<Rightarrow> 'e \<Rightarrow> 'x + 's) \<Rightarrow> 's \<Rightarrow> 'e list \<Rightarrow> 'x + 's" where
  "run step s [] = Inr s"
| "run step s (e # es) = (case step s e of Inl x \<Rightarrow> Inl x | Inr s' \<Rightarrow> run step s' es)"

record bond_call =
  bc_now :: instant
  bc_event :: BondEvent
  bc_actor :: "string option"
  bc_reason :: "string option"

fun bond_run :: "history \<Rightarrow> BondState \<Rightarrow> bond_call list \<Rightarrow>
    (InvalidStateTransitionException + BondState) \<times> history" where
  "bond_run h s [] = (Inr s, h)"
| "bond_run h s (c # cs) =
     (case bond_transition h (bc_now c) s (bc_event c) (bc_actor c) (bc_reason c) of
        (Inl x, h') \<Rightarrow> (Inl x, h')
      | (Inr s', h') \<Rightarrow> bond_run h' s' cs)"

text \<open>A history that is a path of the transition table from \<open>s\<close> to \<open>t\<close>.\<close>

fun bond_path :: "BondState \<Rightarrow> TransitionRecord list \<Rightarrow> BondState \<Rightarrow> bool" where
  "bond_path s [] t \<longleftrightarrow> s = t"
| "bond_path s (r # rs) t \<longleftrightarrow>
     tr_from r = s \<and> (tr_event r, tr_to r) \<in> set (bond_transitions s) \<and> bond_path (tr_to r) rs t"

lemma run_append:
  "run step s (xs @ ys) = (case run step s xs of Inl x \<Rightarrow> Inl x | Inr t \<Rightarrow> run step t ys)"
  by (induction xs arbitrary: s) (auto split: sum.splits)

section \<open>The contract of a lifecycle machine\<close>

locale lifecycle_machine =
  fixes step :: "'s \<Rightarrow> 'e \<Rightarrow> 'x + 's"
    and table :: "'s \<Rightarrow> ('e \<times> 's) list"
    and terminal :: "'s \<Rightarrow> bool"
  assumes step_table: "step s e = Inr t \<longleftrightarrow> (e, t) \<in> set (table s)"
    and terminal_iff: "terminal s \<longleftrightarrow> table s = []"
begin

text \<open>Exactly the terminal states reject every event.\<close>

lemma terminal_stuck: "terminal s \<longleftrightarrow> (\<forall>e. \<exists>x. step s e = Inl x)"
proof
  assume "terminal s"
  then show "\<forall>e. \<exists>x. step s e = Inl x"
    by (metis terminal_iff step_table empty_iff empty_set obj_sumE)
next
  assume stuck: "\<forall>e. \<exists>x. step s e = Inl x"
  have "(e, t) \<notin> set (table s)" for e t
    using stuck step_table [of s e t] by (metis sum.distinct(1))
  then have "table s = []" by (cases "table s") auto
  then show "terminal s" by (simp add: terminal_iff)
qed

lemma terminal_run: "terminal s \<Longrightarrow> run step s es = Inr t \<longleftrightarrow> es = [] \<and> t = s"
proof (cases es)
  case (Cons e es')
  assume "terminal s"
  then obtain x where "step s e = Inl x" by (auto simp: terminal_stuck)
  with Cons show ?thesis by simp
qed auto

text \<open>
  Cut lemma: if every edge that leaves the region \<open>R\<close> carries an event of \<open>E\<close>,
  a run that starts inside \<open>R\<close> and ends outside has such an event.
\<close>

lemma run_crosses_cut:
  assumes cut: "\<And>u e v. u \<in> R \<Longrightarrow> (e, v) \<in> set (table u) \<Longrightarrow> v \<notin> R \<Longrightarrow> e \<in> E"
  shows "s \<in> R \<Longrightarrow> run step s es = Inr t \<Longrightarrow> t \<notin> R \<Longrightarrow> \<exists>e\<in>set es. e \<in> E"
proof (induction es arbitrary: s)
  case (Cons e es)
  then obtain v where v: "step s e = Inr v" "run step v es = Inr t"
    by (auto split: sum.splits)
  with step_table have edge: "(e, v) \<in> set (table s)" by blast
  show ?case
  proof (cases "v \<in> R")
    case True
    with Cons.IH v Cons.prems show ?thesis by auto
  next
    case False
    with cut edge Cons.prems show ?thesis by auto
  qed
qed auto

lemma run_invariant:
  assumes keep: "\<And>u e v. P u \<Longrightarrow> (e, v) \<in> set (table u) \<Longrightarrow> P v"
  shows "P s \<Longrightarrow> run step s es = Inr t \<Longrightarrow> P t"
  by (induction es arbitrary: s) (auto split: sum.splits dest: keep simp: step_table)

text \<open>An event that always leads to one terminal state decides the outcome of the run.\<close>

lemma run_final_event:
  assumes "run step s es = Inr t" "e \<in> set es"
    and "\<And>a b. (e, b) \<in> set (table a) \<Longrightarrow> b = v" "terminal v"
  shows "t = v"
proof -
  obtain p q where "es = p @ e # q" using assms(2) by (meson split_list)
  with assms(1) obtain a b where "step a e = Inr b" "run step b q = Inr t"
    by (auto simp: run_append split: sum.splits)
  then show ?thesis using assms(3,4) step_table terminal_run by metis
qed

end

text \<open>A machine whose every step lowers a rank: its runs are bounded by the rank.\<close>

locale ranked_machine = lifecycle_machine step table terminal
  for step :: "'s \<Rightarrow> 'e \<Rightarrow> 'x + 's"
    and table :: "'s \<Rightarrow> ('e \<times> 's) list"
    and terminal :: "'s \<Rightarrow> bool" +
  fixes rank :: "'s \<Rightarrow> nat"
  assumes rank_decreases: "(e, t) \<in> set (table s) \<Longrightarrow> rank t < rank s"
begin

lemma run_length: "run step s es = Inr t \<Longrightarrow> length es + rank t \<le> rank s"
proof (induction es arbitrary: s)
  case (Cons e es)
  then obtain v where v: "step s e = Inr v" "run step v es = Inr t"
    by (auto split: sum.splits)
  then have "rank v < rank s" using step_table rank_decreases by blast
  with Cons.IH [OF v(2)] show ?case by simp
qed auto

end

section \<open>The three machines meet the contract\<close>

text \<open>The bond machine without its history: what \<open>transition\<close> returns or throws.\<close>

definition bond_next ::
  "BondState \<Rightarrow> BondEvent \<Rightarrow> InvalidStateTransitionException + BondState" where
  "bond_next s e = fst (bond_transition [] 0 s e None None)"

fun settlement_rank :: "SettlementState \<Rightarrow> nat" where
  "settlement_rank PROPOSED = 4"
| "settlement_rank ESCROW_LOCKED = 3"
| "settlement_rank SETTLING = 2"
| "settlement_rank DISPUTED = 1"
| "settlement_rank SETTLED = 0"
| "settlement_rank REVERSED = 0"

interpretation bond: lifecycle_machine bond_next bond_transitions bond_terminal
proof
  fix s e t
  show "(bond_next s e = Inr t) = ((e, t) \<in> set (bond_transitions s))"
    by (cases s; cases e) (auto simp: bond_next_def bond_transition_def)
  show "bond_terminal s = (bond_transitions s = [])"
    by (cases s) (auto simp: bond_terminal_def)
qed

interpretation coupon: lifecycle_machine coupon_transition coupon_transitions coupon_terminal
proof
  fix s e t
  show "(coupon_transition s e = Inr t) = ((e, t) \<in> set (coupon_transitions s))"
    by (cases s; cases e) (auto simp: coupon_transition_def)
  show "coupon_terminal s = (coupon_transitions s = [])"
    by (cases s) (auto simp: coupon_terminal_def)
qed

interpretation settlement:
  ranked_machine settlement_transition settlement_transitions settlement_terminal settlement_rank
proof
  fix s e t
  show "(settlement_transition s e = Inr t) = ((e, t) \<in> set (settlement_transitions s))"
    by (cases s; cases e) (auto simp: settlement_transition_def)
  show "settlement_terminal s = (settlement_transitions s = [])"
    by (cases s) (auto simp: settlement_terminal_def)
  show "(e, t) \<in> set (settlement_transitions s) \<Longrightarrow> settlement_rank t < settlement_rank s"
    by (cases s) auto
qed

section \<open>Properties\<close>

lemma bond_transition_fst:
  "fst (bond_transition h now s e a r) = bond_next s e"
  by (simp add: bond_next_def bond_transition_def split: option.splits)

lemma bond_run_fst: "fst (bond_run h s cs) = run bond_next s (map bc_event cs)"
proof (induction cs arbitrary: h s)
  case (Cons c cs)
  have "bond_next s (bc_event c) =
      fst (bond_transition h (bc_now c) s (bc_event c) (bc_actor c) (bc_reason c))"
    by (simp add: bond_transition_fst)
  then show ?case using Cons.IH by (auto split: prod.splits sum.splits)
qed simp

text \<open>The edges of the three tables, one by one.\<close>

lemma bond_edges:
  "(e, v) \<in> set (bond_transitions u) \<Longrightarrow> (u, e, v) \<in>
     {(DRAFT, PUBLISH, ISSUED), (DRAFT, CANCEL, CANCELLED), (ISSUED, FUND, ACTIVE),
      (ISSUED, CANCEL, CANCELLED), (ACTIVE, SUSPEND, SUSPENDED), (ACTIVE, MISS_PAYMENT, DEFAULTED),
      (ACTIVE, REPAY_FULL, MATURED), (SUSPENDED, RESUME, ACTIVE),
      (SUSPENDED, MISS_PAYMENT, DEFAULTED), (DEFAULTED, CURE_DEFAULT, ACTIVE),
      (DEFAULTED, RESTRUCTURE, RESTRUCTURED), (DEFAULTED, LIQUIDATE, LIQUIDATED),
      (RESTRUCTURED, RESUME, ACTIVE), (RESTRUCTURED, REPAY_FULL, MATURED),
      (RESTRUCTURED, MISS_PAYMENT, DEFAULTED)}"
  by (cases u) auto

lemma coupon_edges:
  "(e, v) \<in> set (coupon_transitions u) \<Longrightarrow> (u, e, v) \<in>
     {(SCHEDULED, TRIGGER_VERIFICATION, ORACLE_VERIFYING), (SCHEDULED, FAIL, FAILED),
      (ORACLE_VERIFYING, CONFIRM_ORACLE, VERIFIED), (ORACLE_VERIFYING, CHALLENGE, CHALLENGED),
      (ORACLE_VERIFYING, FAIL, FAILED), (VERIFIED, START_DISTRIBUTION, DISTRIBUTING),
      (VERIFIED, CHALLENGE, CHALLENGED), (DISTRIBUTING, COMPLETE_DISTRIBUTION, DISTRIBUTED),
      (DISTRIBUTING, FAIL, FAILED), (CHALLENGED, RESOLVE_CHALLENGE, RECONCILED),
      (CHALLENGED, FAIL, FAILED), (RECONCILED, START_DISTRIBUTION, DISTRIBUTING),
      (FAILED, RETRY, SCHEDULED)}"
  by (cases u) auto

lemma settlement_edges:
  "(e, v) \<in> set (settlement_transitions u) \<Longrightarrow> (u, e, v) \<in>
     {(PROPOSED, LOCK_ESCROW, ESCROW_LOCKED), (PROPOSED, CANCEL_ORDER, REVERSED),
      (ESCROW_LOCKED, EXECUTE_SETTLEMENT, SETTLING), (ESCROW_LOCKED, CANCEL_ORDER, REVERSED),
      (SETTLING, CONFIRM_RECEIPT, SETTLED), (SETTLING, DISPUTE, DISPUTED),
      (DISPUTED, RESOLVE_ROLLBACK, REVERSED), (DISPUTED, CONFIRM_RECEIPT, SETTLED)}"
  by (cases u) auto

definition lifecycle_calls :: "BondEvent list \<Rightarrow> bond_call list" where
  "lifecycle_calls = map (\<lambda>e. \<lparr>bc_now = 0, bc_event = e, bc_actor = None, bc_reason = None\<rparr>)"

lemma bond_run_lifecycle_calls: "fst (bond_run h s (lifecycle_calls es)) = run bond_next s es"
  by (simp add: bond_run_fst lifecycle_calls_def comp_def)

text \<open>
  The bond machine's history is a faithful audit trail. A sequence of calls
  that threads the state appends records that form a path of the transition
  table from the start state; they carry the calls' events, times, actors and
  reasons in order; a run that returns has one record per call and ends in the
  last record's state; a run that throws keeps the records of the calls before
  the refused one, whose event the table does not list there, and the exception
  names the state it was refused in.
\<close>

theorem bond_history_is_path:
  "\<exists>recs t. snd (bond_run h s cs) = h @ recs \<and> bond_path s recs t \<and>
     map (\<lambda>r. (tr_timestamp r, tr_event r, tr_actor r, tr_reason r)) recs =
     map (\<lambda>c. (bc_now c, bc_event c, bc_actor c, bc_reason c)) (take (length recs) cs) \<and>
     (case fst (bond_run h s cs) of
        Inr u \<Rightarrow> u = t \<and> length recs = length cs
      | Inl x \<Rightarrow> length recs < length cs \<and>
          bc_event (cs ! length recs) \<notin> set (bond_getAllowedEvents t) \<and>
          ex_fromState x = BondState_str t \<and>
          ex_allowedEvents x = map BondEvent_str (bond_getAllowedEvents t))"
proof (induction cs arbitrary: h s)
  case Nil
  show ?case by (intro exI [of _ "[]"] exI [of _ s]) simp
next
  case (Cons c cs)
  show ?case
  proof (cases "map_of (bond_transitions s) (bc_event c)")
    case None
    then have "bc_event c \<notin> set (bond_getAllowedEvents s)"
      by (simp add: bond_getAllowedEvents_def map_of_eq_None_iff)
    with None show ?thesis
      by (intro exI [of _ "[]"] exI [of _ s])
         (simp add: bond_transition_def bond_getAllowedEvents_def)
  next
    case (Some s')
    let ?r = "\<lparr>tr_timestamp = bc_now c, tr_from = s, tr_to = s', tr_event = bc_event c,
               tr_actor = bc_actor c, tr_reason = bc_reason c\<rparr>"
    have step: "bond_run h s (c # cs) = bond_run (h @ [?r]) s' cs"
      using Some by (simp add: bond_transition_def)
    have edge: "(bc_event c, s') \<in> set (bond_transitions s)"
      using Some by (rule map_of_SomeD)
    from Cons.IH [of "h @ [?r]" s'] obtain recs t where
      ih: "snd (bond_run (h @ [?r]) s' cs) = (h @ [?r]) @ recs" "bond_path s' recs t"
          "map (\<lambda>r. (tr_timestamp r, tr_event r, tr_actor r, tr_reason r)) recs =
           map (\<lambda>c. (bc_now c, bc_event c, bc_actor c, bc_reason c)) (take (length recs) cs)"
          "case fst (bond_run (h @ [?r]) s' cs) of
             Inr u \<Rightarrow> u = t \<and> length recs = length cs
           | Inl x \<Rightarrow> length recs < length cs \<and>
               bc_event (cs ! length recs) \<notin> set (bond_getAllowedEvents t) \<and>
               ex_fromState x = BondState_str t \<and>
               ex_allowedEvents x = map BondEvent_str (bond_getAllowedEvents t)"
      by blast
    show ?thesis unfolding step
      by (intro exI [of _ "?r # recs"] exI [of _ t])
         (use ih edge in \<open>simp split: sum.splits\<close>)
  qed
qed

text \<open>
  Funding gate. A bond that started as a draft and has left the pre-funding
  states was published and funded; it can never be cancelled afterwards; and it
  is liquidated only after a missed payment and an explicit liquidation.
\<close>

theorem bond_funding_gate:
  assumes "fst (bond_run h DRAFT cs) = Inr t" and "t \<notin> {DRAFT, ISSUED, CANCELLED}"
  shows "PUBLISH \<in> set (map bc_event cs) \<and> FUND \<in> set (map bc_event cs) \<and>
    (t = LIQUIDATED \<longrightarrow> {MISS_PAYMENT, LIQUIDATE} \<subseteq> set (map bc_event cs)) \<and>
    (\<forall>h' cs'. fst (bond_run h' t cs') \<noteq> Inr CANCELLED)"
proof -
  let ?es = "map bc_event cs"
  have r: "run bond_next DRAFT ?es = Inr t"
    using assms(1) by (simp add: bond_run_fst)
  have "\<exists>e\<in>set ?es. e \<in> {PUBLISH}"
    by (rule bond.run_crosses_cut [where R = "{DRAFT, CANCELLED}", OF _ _ r])
       (use assms(2) in \<open>auto dest!: bond_edges\<close>)
  moreover have "\<exists>e\<in>set ?es. e \<in> {FUND}"
    by (rule bond.run_crosses_cut [where R = "{DRAFT, ISSUED, CANCELLED}", OF _ _ r])
       (use assms(2) in \<open>auto dest!: bond_edges\<close>)
  moreover have "\<exists>e\<in>set ?es. e \<in> {MISS_PAYMENT}" if "t = LIQUIDATED"
    by (rule bond.run_crosses_cut [where R = "- {DEFAULTED, RESTRUCTURED, LIQUIDATED}", OF _ _ r])
       (use that in \<open>auto dest!: bond_edges\<close>)
  moreover have "\<exists>e\<in>set ?es. e \<in> {LIQUIDATE}" if "t = LIQUIDATED"
    by (rule bond.run_crosses_cut [where R = "- {LIQUIDATED}", OF _ _ r])
       (use that in \<open>auto dest!: bond_edges\<close>)
  moreover have "u \<notin> {DRAFT, ISSUED, CANCELLED}" if "run bond_next t es' = Inr u" for es' u
    by (rule bond.run_invariant [where P = "\<lambda>v. v \<notin> {DRAFT, ISSUED, CANCELLED}", OF _ assms(2) that])
       (auto dest!: bond_edges)
  ultimately show ?thesis by (auto simp: bond_run_fst)
qed

theorem bond_funding_gate_witness:
  "fst (bond_run [] DRAFT (lifecycle_calls [PUBLISH, FUND, MISS_PAYMENT, LIQUIDATE])) = Inr LIQUIDATED \<and>
   (\<forall>h' cs'. fst (bond_run h' LIQUIDATED cs') \<noteq> Inr CANCELLED)"
proof -
  have r: "fst (bond_run [] DRAFT (lifecycle_calls [PUBLISH, FUND, MISS_PAYMENT, LIQUIDATE])) =
      Inr LIQUIDATED"
    by (simp add: lifecycle_calls_def bond_transition_def)
  show ?thesis using r bond_funding_gate [OF r] by simp
qed

text \<open>
  No dead ends. Maturity is reachable from every state but the cancelled and
  liquidated ones, so default and suspension are always recoverable; and the
  terminal states are exactly those in which every event is refused.
\<close>

theorem bond_maturity_reachable:
  "(\<exists>cs. fst (bond_run h s cs) = Inr MATURED) = (s \<notin> {CANCELLED, LIQUIDATED}) \<and>
   bond_terminal s = (\<forall>e. \<exists>x. fst (bond_transition h now s e actor reason) = Inl x)"
proof
  let ?es = "case s of DRAFT \<Rightarrow> [PUBLISH, FUND, REPAY_FULL] | ISSUED \<Rightarrow> [FUND, REPAY_FULL]
    | SUSPENDED \<Rightarrow> [RESUME, REPAY_FULL] | DEFAULTED \<Rightarrow> [CURE_DEFAULT, REPAY_FULL]
    | MATURED \<Rightarrow> [] | _ \<Rightarrow> [REPAY_FULL]"
  have "run bond_next s ?es = Inr MATURED" if "s \<notin> {CANCELLED, LIQUIDATED}"
    using that by (cases s) (simp_all add: bond_next_def bond_transition_def)
  moreover have "run bond_next s es \<noteq> Inr MATURED" if "s \<in> {CANCELLED, LIQUIDATED}" for es
    using that bond.terminal_run [of s es MATURED] by (auto simp: bond_terminal_def)
  ultimately show "(\<exists>cs. fst (bond_run h s cs) = Inr MATURED) = (s \<notin> {CANCELLED, LIQUIDATED})"
    by (metis bond_run_fst bond_run_lifecycle_calls)
  show "bond_terminal s = (\<forall>e. \<exists>x. fst (bond_transition h now s e actor reason) = Inl x)"
    by (simp add: bond_transition_fst bond.terminal_stuck)
qed

text \<open>
  Coupon distribution is gated by verification, attempt by attempt. In a run
  of a scheduled coupon that ends distributing or distributed, the part since the
  start or since any retry contains an oracle confirmation or a resolved
  challenge, and a distribution start: a retry never inherits the verification
  of an earlier attempt.
\<close>

theorem coupon_verified_before_distribution:
  assumes "run coupon_transition SCHEDULED (p @ q) = Inr t"
    and "t = DISTRIBUTING \<or> t = DISTRIBUTED"
    and "p = [] \<or> last p = RETRY"
  shows "START_DISTRIBUTION \<in> set q \<and>
    (CONFIRM_ORACLE \<in> set q \<or> RESOLVE_CHALLENGE \<in> set q)"
proof -
  obtain u where u: "run coupon_transition SCHEDULED p = Inr u" "run coupon_transition u q = Inr t"
    using assms(1) by (auto simp: run_append split: sum.splits)
  have "u = SCHEDULED"
  proof (cases p rule: rev_cases)
    case Nil
    with u show ?thesis by simp
  next
    case (snoc p' e)
    with assms(3) u obtain v where "coupon_transition v RETRY = Inr u"
      by (auto simp: run_append split: sum.splits)
    then show ?thesis using coupon.step_table coupon_edges by fastforce
  qed
  with u have r: "run coupon_transition SCHEDULED q = Inr t" by simp
  have "\<exists>e\<in>set q. e \<in> {START_DISTRIBUTION}"
    by (rule coupon.run_crosses_cut [where R = "- {DISTRIBUTING, DISTRIBUTED}", OF _ _ r])
       (use assms(2) in \<open>auto dest!: coupon_edges\<close>)
  moreover have "\<exists>e\<in>set q. e \<in> {CONFIRM_ORACLE, RESOLVE_CHALLENGE}"
    by (rule coupon.run_crosses_cut
          [where R = "{SCHEDULED, ORACLE_VERIFYING, CHALLENGED, FAILED}", OF _ _ r])
       (use assms(2) in \<open>auto dest!: coupon_edges\<close>)
  ultimately show ?thesis by auto
qed

theorem coupon_verified_before_distribution_witness:
  "run coupon_transition SCHEDULED
     ([TRIGGER_VERIFICATION, FAIL, RETRY] @
      [TRIGGER_VERIFICATION, CHALLENGE, RESOLVE_CHALLENGE, START_DISTRIBUTION]) = Inr DISTRIBUTING \<and>
   START_DISTRIBUTION \<in> set [TRIGGER_VERIFICATION, CHALLENGE, RESOLVE_CHALLENGE, START_DISTRIBUTION]"
proof -
  have r: "run coupon_transition SCHEDULED
     ([TRIGGER_VERIFICATION, FAIL, RETRY] @
      [TRIGGER_VERIFICATION, CHALLENGE, RESOLVE_CHALLENGE, START_DISTRIBUTION]) = Inr DISTRIBUTING"
    by (simp add: coupon_transition_def)
  show ?thesis using r coupon_verified_before_distribution [OF r] by simp
qed

text \<open>
  A settlement is short, and settles or reverses but never both. From a
  proposal at most four events are accepted; a settled one locked escrow, was
  executed and its receipt confirmed, and was neither cancelled nor rolled back;
  a reversed one was cancelled or rolled back and its receipt never confirmed.
\<close>

theorem settlement_outcome:
  assumes r: "run settlement_transition PROPOSED es = Inr t"
  shows "length es \<le> 4 \<and>
    (t = SETTLED \<longrightarrow> {LOCK_ESCROW, EXECUTE_SETTLEMENT, CONFIRM_RECEIPT} \<subseteq> set es \<and>
       CANCEL_ORDER \<notin> set es \<and> RESOLVE_ROLLBACK \<notin> set es) \<and>
    (t = REVERSED \<longrightarrow> (CANCEL_ORDER \<in> set es \<or> RESOLVE_ROLLBACK \<in> set es) \<and>
       CONFIRM_RECEIPT \<notin> set es)"
proof -
  note cut = settlement.run_crosses_cut [OF _ _ r]
  have "{LOCK_ESCROW, EXECUTE_SETTLEMENT, CONFIRM_RECEIPT} \<subseteq> set es" if "t = SETTLED"
  proof -
    have "\<exists>e\<in>set es. e \<in> {LOCK_ESCROW}"
      by (rule cut [where R = "{PROPOSED, REVERSED}"]) (use that in \<open>auto dest!: settlement_edges\<close>)
    moreover have "\<exists>e\<in>set es. e \<in> {EXECUTE_SETTLEMENT}"
      by (rule cut [where R = "{PROPOSED, ESCROW_LOCKED, REVERSED}"])
         (use that in \<open>auto dest!: settlement_edges\<close>)
    moreover have "\<exists>e\<in>set es. e \<in> {CONFIRM_RECEIPT}"
      by (rule cut [where R = "- {SETTLED}"]) (use that in \<open>auto dest!: settlement_edges\<close>)
    ultimately show ?thesis by auto
  qed
  moreover have "\<exists>e\<in>set es. e \<in> {CANCEL_ORDER, RESOLVE_ROLLBACK}" if "t = REVERSED"
    by (rule cut [where R = "- {REVERSED}"]) (use that in \<open>auto dest!: settlement_edges\<close>)
  moreover have "CANCEL_ORDER \<in> set es \<Longrightarrow> t = REVERSED" "RESOLVE_ROLLBACK \<in> set es \<Longrightarrow> t = REVERSED"
    "CONFIRM_RECEIPT \<in> set es \<Longrightarrow> t = SETTLED"
    using settlement.run_final_event [OF r, of CANCEL_ORDER REVERSED]
      settlement.run_final_event [OF r, of RESOLVE_ROLLBACK REVERSED]
      settlement.run_final_event [OF r, of CONFIRM_RECEIPT SETTLED]
    by (auto dest!: settlement_edges simp: settlement_terminal_def)
  moreover have "length es \<le> 4"
    using settlement.run_length [OF r] by simp
  ultimately show ?thesis by auto
qed

theorem settlement_outcome_witness:
  "run settlement_transition PROPOSED [LOCK_ESCROW, EXECUTE_SETTLEMENT, DISPUTE, RESOLVE_ROLLBACK] =
     Inr REVERSED \<and>
   CONFIRM_RECEIPT \<notin> set [LOCK_ESCROW, EXECUTE_SETTLEMENT, DISPUTE, RESOLVE_ROLLBACK]"
proof -
  have r: "run settlement_transition PROPOSED
      [LOCK_ESCROW, EXECUTE_SETTLEMENT, DISPUTE, RESOLVE_ROLLBACK] = Inr REVERSED"
    by (simp add: settlement_transition_def)
  show ?thesis using r settlement_outcome [OF r] by simp
qed

end
