(* ===== verification/Canonical_Json.thy ===== *)
theory Canonical_Json
  imports Prelude
begin

text \<open>
  Canonical JSON of \<open>api/src/audit/audit.canonical.ts\<close>: \<open>canonicalize\<close> sorts the
  keys of every object, \<open>stableStringify\<close> prints the result with
  \<open>JSON.stringify\<close>. Every hash of the event ledger is taken over such a string,
  so what the string determines is what the ledger protects.

  A JSON object is the list of its own properties in enumeration order; numbers
  are integral. Three JavaScript details are part of the model because they
  decide what is hashed: array-index keys are enumerated first, in numeric order;
  assigning the key \<open>__proto__\<close> sets the prototype and creates no own property;
  \<open>JSON.stringify\<close> escapes quotes, backslashes and control characters.
\<close>

section \<open>JSON values and their printing\<close>

datatype JsonValue = JNull | JBool bool | JNum int | JStr string
  | JArr "JsonValue list" | JObj "(string \<times> JsonValue) list"

definition hex_digit :: "nat \<Rightarrow> char" where
  "hex_digit d = (if d < 10 then char_of (48 + d) else char_of (87 + d))"

definition json_escape :: "char \<Rightarrow> string" where
  "json_escape c =
     (let n = (of_char c :: nat) in
      if n = 34 \<or> n = 92 then [CHR 0x5C, c]
      else if n = 8 then [CHR 0x5C, CHR ''b'']
      else if n = 9 then [CHR 0x5C, CHR ''t'']
      else if n = 10 then [CHR 0x5C, CHR ''n'']
      else if n = 12 then [CHR 0x5C, CHR ''f'']
      else if n = 13 then [CHR 0x5C, CHR ''r'']
      else if n < 32 then [CHR 0x5C, CHR ''u'', CHR ''0'', CHR ''0'',
                           hex_digit (n div 16), hex_digit (n mod 16)]
      else [c])"

definition json_string :: "string \<Rightarrow> string" where
  "json_string s = CHR 0x22 # concat (map json_escape s) @ [CHR 0x22]"

definition json_member :: "string \<times> string \<Rightarrow> string" where
  "json_member m = json_string (fst m) @ '':'' @ snd m"

primrec json_stringify :: "JsonValue \<Rightarrow> string" where
  "json_stringify JNull = ''null''"
| "json_stringify (JBool b) = (if b then ''true'' else ''false'')"
| "json_stringify (JNum i) = int_str i"
| "json_stringify (JStr s) = json_string s"
| "json_stringify (JArr xs) = ''['' @ join '','' (map json_stringify xs) @ '']''"
| "json_stringify (JObj kvs) =
     ''{'' @ join '','' (map json_member (map (map_prod id json_stringify) kvs)) @ ''}''"

section \<open>Canonical form\<close>

definition is_digit_char :: "char \<Rightarrow> bool" where
  "is_digit_char c \<longleftrightarrow> 48 \<le> (of_char c :: nat) \<and> (of_char c :: nat) \<le> 57"

definition digits_val :: "string \<Rightarrow> nat" where
  "digits_val s = foldl (\<lambda>acc c. 10 * acc + (of_char c - 48)) 0 s"

text \<open>An array-index key: the canonical numeral of an integer below \<open>2^32 - 1\<close>.\<close>

definition is_index_key :: "string \<Rightarrow> bool" where
  "is_index_key s \<longleftrightarrow> s \<noteq> [] \<and> list_all is_digit_char s \<and>
     (s = ''0'' \<or> hd s \<noteq> CHR ''0'') \<and> digits_val s < 4294967295"

definition own_order :: "(string \<times> 'v) list \<Rightarrow> (string \<times> 'v) list" where
  "own_order kvs = sort_key (digits_val \<circ> fst) (filter (is_index_key \<circ> fst) kvs)
     @ filter (Not \<circ> is_index_key \<circ> fst) kvs"

text \<open>
  The object built by assigning the sorted keys one after the other.
\<close>

definition proto_key :: string where
  "proto_key = ''__proto__''"

definition canonical_entries :: "(string \<times> 'v) list \<Rightarrow> (string \<times> 'v) list" where
  "canonical_entries kvs = own_order (filter (\<lambda>m. fst m \<noteq> proto_key) (sort_key fst kvs))"

primrec canonicalize :: "JsonValue \<Rightarrow> JsonValue" where
  "canonicalize JNull = JNull"
| "canonicalize (JBool b) = JBool b"
| "canonicalize (JNum i) = JNum i"
| "canonicalize (JStr s) = JStr s"
| "canonicalize (JArr xs) = JArr (map canonicalize xs)"
| "canonicalize (JObj kvs) = JObj (canonical_entries (map (map_prod id canonicalize) kvs))"

definition stableStringify :: "JsonValue \<Rightarrow> string" where
  "stableStringify v = json_stringify (canonicalize v)"

text \<open>The own properties of an object have distinct keys.\<close>

primrec json_ok :: "JsonValue \<Rightarrow> bool" where
  "json_ok JNull = True"
| "json_ok (JBool b) = True"
| "json_ok (JNum i) = True"
| "json_ok (JStr s) = True"
| "json_ok (JArr xs) = list_all id (map json_ok xs)"
| "json_ok (JObj kvs) =
     (distinct (map fst kvs) \<and> list_all snd (map (map_prod id json_ok) kvs))"

text \<open>No object of the value has a property named \<open>__proto__\<close>.\<close>

primrec proto_free :: "JsonValue \<Rightarrow> bool" where
  "proto_free JNull = True"
| "proto_free (JBool b) = True"
| "proto_free (JNum i) = True"
| "proto_free (JStr s) = True"
| "proto_free (JArr xs) = list_all id (map proto_free xs)"
| "proto_free (JObj kvs) =
     list_all (\<lambda>m. fst m \<noteq> proto_key \<and> snd m) (map (map_prod id proto_free) kvs)"

text \<open>
  What a JSON value means: an object is the finite map from its keys to the
  meanings of its properties, whatever their order.
\<close>

datatype json_meaning = MNull | MBool bool | MNum int | MStr string
  | MArr "json_meaning list" | MObj "string \<Rightarrow> json_meaning option"

primrec meaning :: "JsonValue \<Rightarrow> json_meaning" where
  "meaning JNull = MNull"
| "meaning (JBool b) = MBool b"
| "meaning (JNum i) = MNum i"
| "meaning (JStr s) = MStr s"
| "meaning (JArr xs) = MArr (map meaning xs)"
| "meaning (JObj kvs) = MObj (map_of (map (map_prod id meaning) kvs))"

section \<open>Printing is injective\<close>

text \<open>Decimal numerals.\<close>

lemma digit_char_is_digit: "d < 10 \<Longrightarrow> is_digit_char (digit_char d)"
  by (simp add: is_digit_char_def digit_char_def)

lemma digit_char_val: "d < 10 \<Longrightarrow> of_char (digit_char d) - 48 = d"
  by (simp add: digit_char_def)

lemma digits_val_snoc: "digits_val (s @ [c]) = 10 * digits_val s + (of_char c - 48)"
  by (simp add: digits_val_def)

lemma nat_str_digits: "list_all is_digit_char (nat_str n)"
proof (induction n rule: nat_str.induct)
  case (1 n)
  then show ?case
    by (subst nat_str.simps) (auto simp: digit_char_is_digit)
qed

lemma nat_str_val [simp]: "digits_val (nat_str n) = n"
proof (induction n rule: nat_str.induct)
  case (1 n)
  show ?case
  proof (cases "n < 10")
    case True
    then show ?thesis
      by (subst nat_str.simps) (simp add: digits_val_def digit_char_val)
  next
    case False
    with 1 have "digits_val (nat_str (n div 10)) = n div 10" by simp
    with False show ?thesis
      by (subst nat_str.simps) (simp add: digits_val_snoc digit_char_val)
  qed
qed

lemma nat_str_nonempty: "nat_str n \<noteq> []"
  by (subst nat_str.simps) simp

lemma nat_str_hd: "is_digit_char (hd (nat_str n))"
  using nat_str_digits [of n] nat_str_nonempty [of n] by (cases "nat_str n") auto

text \<open>A rest of input that cannot continue a numeral.\<close>

definition no_digit_next :: "string \<Rightarrow> bool" where
  "no_digit_next r \<longleftrightarrow> r = [] \<or> \<not> is_digit_char (hd r)"

lemma takeWhile_digits:
  assumes "list_all is_digit_char s" "no_digit_next r"
  shows "takeWhile is_digit_char (s @ r) = s"
  using assms by (induction s) (cases r, auto simp: no_digit_next_def)

lemma nat_str_decode:
  assumes "nat_str m @ r = nat_str n @ r'" "no_digit_next r" "no_digit_next r'"
  shows "m = n \<and> r = r'"
proof -
  have "nat_str m = nat_str n"
    using assms takeWhile_digits nat_str_digits by metis
  then have "m = n" by (metis nat_str_val)
  with assms(1) show ?thesis by simp
qed

lemma int_str_decode:
  assumes "int_str i @ r = int_str j @ r'" "no_digit_next r" "no_digit_next r'"
  shows "i = j \<and> r = r'"
proof -
  have minus: "nat_str n @ q \<noteq> CHR ''-'' # q'" for n q q'
    using nat_str_hd [of n] nat_str_nonempty [of n]
    by (cases "nat_str n") (auto simp: is_digit_char_def)
  show ?thesis
    using assms(1) minus minus [symmetric]
    by (auto simp: int_str_def dest!: nat_str_decode [OF _ assms(2,3)] split: if_splits)
qed

text \<open>String literals: an escape sequence is decoded in one way only.\<close>

definition hex_val :: "char \<Rightarrow> nat" where
  "hex_val c = (let n = of_char c in if n < 58 then n - 48 else n - 87)"

lemma hex_val_digit: "d < 16 \<Longrightarrow> hex_val (hex_digit d) = d"
  by (auto simp: hex_val_def hex_digit_def Let_def)

definition unescape :: "char \<Rightarrow> char" where
  "unescape c = (if c = CHR ''b'' then CHR 0x08 else if c = CHR ''t'' then CHR 0x09
     else if c = CHR ''n'' then CHR 0x0A else if c = CHR ''f'' then CHR 0x0C
     else if c = CHR ''r'' then CHR 0x0D else c)"

fun decode_char :: "string \<Rightarrow> (char \<times> string) option" where
  "decode_char [] = None"
| "decode_char (c # r) =
     (if c \<noteq> CHR 0x5C then Some (c, r)
      else case r of
        [] \<Rightarrow> None
      | e # r1 \<Rightarrow>
          if e = CHR ''u''
          then Some (char_of (16 * hex_val (r1 ! 2) + hex_val (r1 ! 3)), drop 4 r1)
          else Some (unescape e, r1))"

lemma char_eq_iff_code: "c = d \<longleftrightarrow> (of_char c :: nat) = of_char d"
  by simp

lemma decode_escape: "decode_char (json_escape c @ r) = Some (c, r)"
proof -
  define n where "n = (of_char c :: nat)"
  have c: "c = char_of n" by (simp add: n_def)
  consider "c \<in> {CHR 0x22, CHR 0x5C, CHR 0x08, CHR 0x09, CHR 0x0A, CHR 0x0C, CHR 0x0D}"
    | (control) "n < 32" "n \<notin> {8, 9, 10, 12, 13}" | (plain) "32 \<le> n" "n \<noteq> 34" "n \<noteq> 92"
    by (force simp: char_eq_iff_code n_def)
  then show ?thesis
  proof cases
    case control
    then have "16 * (n div 16) + n mod 16 = n" "n div 16 < 16" by auto
    with control show ?thesis
      by (simp add: json_escape_def n_def [symmetric] hex_val_digit) (simp add: c)
  next
    case plain
    then have "c \<noteq> CHR 0x5C" by (auto simp: char_eq_iff_code n_def)
    with plain show ?thesis by (simp add: json_escape_def n_def [symmetric])
  qed (auto simp: json_escape_def unescape_def)
qed

lemma escape_nonempty: "json_escape c \<noteq> []"
  by (simp add: json_escape_def Let_def)

lemma escape_not_quote: "hd (json_escape c @ r) \<noteq> CHR 0x22"
  by (auto simp: json_escape_def Let_def char_eq_iff_code)

lemma escaped_decode:
  "concat (map json_escape s) @ CHR 0x22 # r = concat (map json_escape s') @ CHR 0x22 # r' \<Longrightarrow>
   s = s' \<and> r = r'"
proof (induction s arbitrary: s')
  case Nil
  show ?case
  proof (cases s')
    case (Cons c t)
    with Nil escape_not_quote [of c "concat (map json_escape t) @ CHR 0x22 # r'"] show ?thesis
      by (metis append.assoc append_Nil concat.simps list.sel(1) list.simps(8,9))
  qed (use Nil in simp)
next
  case (Cons c t)
  show ?case
  proof (cases s')
    case Nil
    with Cons.prems escape_not_quote [of c "concat (map json_escape t) @ CHR 0x22 # r"] show ?thesis
      by (metis append.assoc append_Nil concat.simps list.sel(1) list.simps(8,9))
  next
    case (Cons d t')
    have "decode_char (json_escape c @ concat (map json_escape t) @ CHR 0x22 # r) =
        decode_char (json_escape d @ concat (map json_escape t') @ CHR 0x22 # r')"
      using Cons.prems Cons by simp
    then have "c = d \<and> concat (map json_escape t) @ CHR 0x22 # r =
        concat (map json_escape t') @ CHR 0x22 # r'"
      by (simp only: decode_escape option.inject prod.inject)
    with Cons.IH Cons show ?thesis by blast
  qed
qed

lemma json_string_decode: "json_string s @ r = json_string s' @ r' \<Longrightarrow> s = s' \<and> r = r'"
  using escaped_decode [of s r s' r'] by (simp add: json_string_def)

text \<open>
  Comma-separated items up to a closing bracket, for items that are decoded in
  one way wherever they are followed by a comma or the bracket.
\<close>

definition item_end :: "string \<Rightarrow> bool" where
  "item_end r \<longleftrightarrow> r = [] \<or> hd r \<in> {CHR '','', CHR '']'', CHR ''}''}"

definition decodable :: "('a \<Rightarrow> string) \<Rightarrow> 'a \<Rightarrow> bool" where
  "decodable f x \<longleftrightarrow>
     (\<forall>y r r'. f x @ r = f y @ r' \<longrightarrow> item_end r \<longrightarrow> item_end r' \<longrightarrow> x = y \<and> r = r')"

lemma decodableD:
  "decodable f x \<Longrightarrow> f x @ r = f y @ r' \<Longrightarrow> item_end r \<Longrightarrow> item_end r' \<Longrightarrow> x = y \<and> r = r'"
  unfolding decodable_def by blast

lemma join_Cons: "join sep (s # ss) = s @ (if ss = [] then [] else sep @ join sep ss)"
  by (cases ss) auto

lemma join_decode:
  assumes close: "c = CHR '']'' \<or> c = CHR ''}''"
    and hd_ok: "\<And>x. f x \<noteq> [] \<and> hd (f x) \<noteq> c"
  shows "\<forall>x\<in>set xs. decodable f x \<Longrightarrow>
    join '','' (map f xs) @ c # r = join '','' (map f ys) @ c # r' \<Longrightarrow> xs = ys \<and> r = r'"
proof (induction xs arbitrary: ys)
  case Nil
  have "f y @ q \<noteq> c # r" for y q using hd_ok [of y] by (cases "f y") auto
  with Nil show ?case by (cases ys) (auto simp: join_Cons dest: sym)
next
  case (Cons x xs)
  show ?case
  proof (cases ys)
    case Nil
    have "f x @ q \<noteq> c # r'" for q using hd_ok [of x] by (cases "f x") auto
    with Nil Cons.prems show ?thesis by (auto simp: join_Cons)
  next
    case (Cons y ys')
    define tail where "tail zs q = (if zs = [] then c # q else CHR '','' # join '','' (map f zs) @ c # q)"
      for zs and q :: string
    have eq: "f x @ tail xs r = f y @ tail ys' r'"
      using Cons.prems(2) Cons by (simp add: join_Cons tail_def split: if_splits)
    have ends: "item_end (tail zs q)" for zs q
      using close by (auto simp: item_end_def tail_def)
    from Cons.prems(1) have "decodable f x" by simp
    from decodableD [OF this eq ends ends] have xy: "x = y" "tail xs r = tail ys' r'" by auto
    have "xs = ys' \<and> r = r'"
    proof (cases "xs = [] \<or> ys' = []")
      case True
      with xy(2) close show ?thesis by (auto simp: tail_def split: if_splits)
    next
      case False
      with xy(2) have "join '','' (map f xs) @ c # r = join '','' (map f ys') @ c # r'"
        by (simp add: tail_def)
      with Cons.IH Cons.prems(1) show ?thesis by simp
    qed
    with xy Cons show ?thesis by simp
  qed
qed

text \<open>The first character of a printed value tells its kind.\<close>

lemma int_str_shape:
  "int_str i \<noteq> [] \<and> (hd (int_str i) = CHR ''-'' \<or> is_digit_char (hd (int_str i)))"
  using nat_str_nonempty nat_str_hd by (auto simp: int_str_def)

fun kind_of :: "JsonValue \<Rightarrow> nat" where
  "kind_of JNull = 0"
| "kind_of (JBool b) = (if b then 1 else 2)"
| "kind_of (JNum i) = 3"
| "kind_of (JStr s) = 4"
| "kind_of (JArr xs) = 5"
| "kind_of (JObj kvs) = 6"

definition kind_char :: "char \<Rightarrow> nat" where
  "kind_char c = (if c = CHR ''n'' then 0 else if c = CHR ''t'' then 1 else if c = CHR ''f'' then 2
     else if c = CHR 0x22 then 4 else if c = CHR ''['' then 5 else if c = CHR ''{'' then 6 else 3)"

lemma stringify_shape: "json_stringify v \<noteq> [] \<and> kind_char (hd (json_stringify v)) = kind_of v"
proof (cases v)
  case (JNum i)
  have "kind_char (hd (int_str i)) = 3"
    using int_str_shape [of i] by (auto simp: kind_char_def is_digit_char_def)
  with JNum int_str_shape [of i] show ?thesis by simp
qed (auto simp: json_string_def kind_char_def)

lemma stringify_kind: "json_stringify v @ r = json_stringify w @ r' \<Longrightarrow> kind_of v = kind_of w"
  by (metis stringify_shape hd_append2)

lemma item_end_no_digit: "item_end r \<Longrightarrow> no_digit_next r"
  by (auto simp: item_end_def no_digit_next_def is_digit_char_def)

lemma stringify_hd_open: "hd (json_stringify v) \<noteq> CHR '']'' \<and> hd (json_stringify v) \<noteq> CHR ''}''"
proof (cases v)
  case (JNum i)
  then show ?thesis using int_str_shape [of i] by (auto simp: is_digit_char_def)
qed (auto simp: json_string_def)

definition print_member :: "string \<times> JsonValue \<Rightarrow> string" where
  "print_member m = json_member (map_prod id json_stringify m)"

lemma print_member_decodable:
  assumes "decodable json_stringify (snd m)"
  shows "decodable print_member m"
  unfolding decodable_def
proof (intro allI impI)
  fix m' r r'
  assume eq: "print_member m @ r = print_member m' @ r'" and ends: "item_end r" "item_end r'"
  then have "json_string (fst m) @ CHR '':'' # json_stringify (snd m) @ r =
      json_string (fst m') @ CHR '':'' # json_stringify (snd m') @ r'"
    by (simp add: print_member_def json_member_def)
  then have "fst m = fst m'" "json_stringify (snd m) @ r = json_stringify (snd m') @ r'"
    by (auto dest: json_string_decode)
  with decodableD [OF assms this(2) ends] show "m = m' \<and> r = r'"
    by (auto intro: prod_eqI)
qed

lemma stringify_JObj:
  "json_stringify (JObj kvs) = ''{'' @ join '','' (map print_member kvs) @ ''}''"
  by (simp add: print_member_def [abs_def] comp_def)

lemma decodable_by_kind:
  assumes "\<And>w r r'. kind_of v = kind_of w \<Longrightarrow> json_stringify v @ r = json_stringify w @ r' \<Longrightarrow>
    item_end r \<Longrightarrow> item_end r' \<Longrightarrow> v = w \<and> r = r'"
  shows "decodable json_stringify v"
  unfolding decodable_def using assms stringify_kind by blast

lemma stringify_decodable: "decodable json_stringify v"
proof (induction v)
  case JNull
  show ?case by (rule decodable_by_kind, case_tac w) (auto split: if_splits)
next
  case (JBool b)
  show ?case by (rule decodable_by_kind, case_tac w) (auto split: if_splits)
next
  case (JNum i)
  show ?case
    by (rule decodable_by_kind, case_tac w)
       (auto split: if_splits dest!: int_str_decode simp: item_end_no_digit)
next
  case (JStr s)
  show ?case
    by (rule decodable_by_kind, case_tac w) (auto split: if_splits dest!: json_string_decode)
next
  case (JArr xs)
  show ?case
  proof (rule decodable_by_kind)
    fix w r r' assume k: "kind_of (JArr xs) = kind_of w"
      and eq: "json_stringify (JArr xs) @ r = json_stringify w @ r'"
    from k obtain ys where w: "w = JArr ys" by (cases w) (auto split: if_splits)
    have "xs = ys \<and> r = r'"
      by (rule join_decode [of "CHR '']''" json_stringify])
         (use eq w JArr stringify_shape stringify_hd_open in auto)
    with w show "JArr xs = w \<and> r = r'" by simp
  qed
next
  case (JObj kvs)
  then have members: "\<forall>m\<in>set kvs. decodable print_member m"
    by (auto intro!: print_member_decodable simp: snds.simps)
  have hd_ok: "print_member m \<noteq> [] \<and> hd (print_member m) \<noteq> CHR ''}''" for m
    by (simp add: print_member_def json_member_def json_string_def)
  show ?case
  proof (rule decodable_by_kind)
    fix w r r' assume k: "kind_of (JObj kvs) = kind_of w"
      and eq: "json_stringify (JObj kvs) @ r = json_stringify w @ r'"
    from k obtain kvs' where w: "w = JObj kvs'" by (cases w) (auto split: if_splits)
    have "kvs = kvs' \<and> r = r'"
      by (rule join_decode [of "CHR ''}''" print_member])
         (use eq w members hd_ok in \<open>auto simp: stringify_JObj simp del: json_stringify.simps\<close>)
    with w show "JObj kvs = w \<and> r = r'" by simp
  qed
qed

lemma json_stringify_inject: "json_stringify v = json_stringify w \<longleftrightarrow> v = w"
  using decodableD [OF stringify_decodable, of v "[]" w "[]"] by (auto simp: item_end_def)

lemma stableStringify_eq_iff:
  "stableStringify v = stableStringify w \<longleftrightarrow> canonicalize v = canonicalize w"
  by (simp add: stableStringify_def json_stringify_inject)

section \<open>The canonical form is determined by the meaning\<close>

lemma sort_key_map: "(\<And>x. f (g x) = h x) \<Longrightarrow> sort_key f (map g xs) = map g (sort_key h xs)"
proof (induction xs)
  case (Cons x xs)
  have "insort_key f (g x) (map g ys) = map g (insort_key h x ys)" for ys
    using Cons.prems by (induction ys) auto
  with Cons show ?case by simp
qed simp

lemma sort_members_map:
  "sort_key (\<lambda>m. g (fst m)) (map (map_prod id f) kvs) =
   map (map_prod id f) (sort_key (\<lambda>m. g (fst m)) kvs)"
  by (rule sort_key_map) simp

lemma own_order_map: "own_order (map (map_prod id f) kvs) = map (map_prod id f) (own_order kvs)"
  by (simp add: own_order_def filter_map comp_def sort_members_map)

lemma canonical_entries_map:
  "canonical_entries (map (map_prod id f) kvs) = map (map_prod id f) (canonical_entries kvs)"
  using sort_members_map [of "\<lambda>k. k" f kvs]
  by (simp add: canonical_entries_def filter_map comp_def own_order_map)

text \<open>Members printed or mapped value by value keep their keys.\<close>

lemma map_of_map_members: "map_of (map (map_prod id f) kvs) k = map_option f (map_of kvs k)"
  by (induction kvs) auto

lemma members_cong:
  assumes "fst ` set xs \<subseteq> fst ` set ys"
    and "\<And>m m'. m \<in> set xs \<Longrightarrow> m' \<in> set ys \<Longrightarrow> fst m = fst m' \<Longrightarrow> f (snd m) = f (snd m')"
  shows "set (map (map_prod id f) xs) \<subseteq> set (map (map_prod id f) ys)"
proof
  fix e assume "e \<in> set (map (map_prod id f) xs)"
  then obtain m where m: "m \<in> set xs" "e = (fst m, f (snd m))"
    by (auto simp: map_prod_def split_beta)
  then obtain m' where m': "m' \<in> set ys" "fst m' = fst m" using assms(1) by force
  with m assms(2) have "e = map_prod id f m'" by (cases m') auto
  with m'(1) show "e \<in> set (map (map_prod id f) ys)" by auto
qed

lemma set_own_order [simp]: "set (own_order kvs) = set kvs"
  by (auto simp: own_order_def)

lemma set_canonical_entries:
  "set (canonical_entries kvs) = {m \<in> set kvs. fst m \<noteq> proto_key}"
  by (simp add: canonical_entries_def)

lemma distinct_sort_key: "distinct (map fst (sort_key f kvs)) \<longleftrightarrow> distinct (map fst kvs)"
  by (metis (no_types, lifting) card_distinct distinct_card length_map length_sort set_map set_sort)

lemma distinct_own_order: "distinct (map fst kvs) \<Longrightarrow> distinct (map fst (own_order kvs))"
  by (auto simp: own_order_def distinct_sort_key distinct_map_filter)

lemma distinct_canonical_entries:
  "distinct (map fst kvs) \<Longrightarrow> distinct (map fst (canonical_entries kvs))"
  by (simp add: canonical_entries_def distinct_own_order distinct_map_filter distinct_sort_key)

lemma canonical_entries_cong:
  assumes "distinct (map fst xs)" "distinct (map fst ys)" "set xs = set ys"
  shows "canonical_entries xs = canonical_entries ys"
proof -
  have "sort_key fst xs = sort_key fst ys"
    by (rule map_sorted_distinct_set_unique [where f = fst])
       (use assms in \<open>auto simp: distinct_sort_key distinct_map\<close>)
  then show ?thesis by (simp add: canonical_entries_def)
qed

lemma canonicalize_JObj:
  "canonicalize (JObj kvs) = JObj (map (map_prod id canonicalize) (canonical_entries kvs))"
  by (simp add: canonical_entries_map)

lemma map_of_canonical_entries:
  assumes "distinct (map fst kvs)" "proto_key \<notin> fst ` set kvs"
  shows "map_of (canonical_entries kvs) = map_of kvs"
proof -
  have "set (canonical_entries kvs) = set kvs"
    using assms(2) by (auto simp: set_canonical_entries rev_image_eqI)
  then show ?thesis
    using assms(1) distinct_canonical_entries map_of_inject_set by blast
qed

lemma keys_map_prod [simp]: "map fst (map (map_prod id f) kvs) = map fst kvs"
  by simp

lemma json_ok_JObj:
  "json_ok (JObj kvs) \<longleftrightarrow> distinct (map fst kvs) \<and> (\<forall>m\<in>set kvs. json_ok (snd m))"
  by (auto simp: list_all_iff)

lemma proto_free_JObj:
  "proto_free (JObj kvs) \<longleftrightarrow> proto_key \<notin> fst ` set kvs \<and> (\<forall>m\<in>set kvs. proto_free (snd m))"
  by (auto simp: list_all_iff image_iff)

lemma meaning_canonicalize:
  "json_ok v \<Longrightarrow> proto_free v \<Longrightarrow> meaning (canonicalize v) = meaning v"
proof (induction v)
  case (JArr xs)
  then show ?case by (auto simp: list_all_iff)
next
  case (JObj kvs)
  have ok: "distinct (map fst kvs)" "proto_key \<notin> fst ` set kvs"
    using JObj.prems by (auto simp: json_ok_JObj proto_free_JObj simp del: json_ok.simps proto_free.simps)
  have ih: "meaning (canonicalize (snd m)) = meaning (snd m)" if "m \<in> set kvs" for m
    using JObj that by (auto simp: json_ok_JObj proto_free_JObj snds.simps simp del: json_ok.simps proto_free.simps)
  have "map (map_prod id meaning) (map (map_prod id canonicalize) (canonical_entries kvs)) =
      map (map_prod id meaning) (canonical_entries kvs)"
    using ih by (auto simp: set_canonical_entries map_prod_def split_beta)
  also have "\<dots> = canonical_entries (map (map_prod id meaning) kvs)"
    by (simp add: canonical_entries_map)
  finally show ?case
    using ok by (simp add: canonicalize_JObj map_of_canonical_entries image_image
        del: canonicalize.simps)
qed auto

lemma canonicalize_by_meaning:
  "json_ok v \<Longrightarrow> json_ok w \<Longrightarrow> meaning v = meaning w \<Longrightarrow> canonicalize v = canonicalize w"
proof (induction v arbitrary: w)
  case (JArr xs)
  from JArr.prems(3) obtain ys where w: "w = JArr ys" "map meaning xs = map meaning ys"
    by (cases w) auto
  have "map canonicalize xs = map canonicalize ys"
  proof (rule nth_equalityI)
    show len: "length (map canonicalize xs) = length (map canonicalize ys)"
      using w(2) by (metis length_map)
    fix i assume i: "i < length (map canonicalize xs)"
    then have "meaning (xs ! i) = meaning (ys ! i)"
      using w(2) len by (metis length_map nth_map)
    with i len JArr.IH [of "xs ! i" "ys ! i"] JArr.prems w
    show "map canonicalize xs ! i = map canonicalize ys ! i" by (simp add: list_all_iff)
  qed
  with w show ?case by simp
next
  case (JObj kvs)
  from JObj.prems(3) obtain kvs' where w: "w = JObj kvs'"
    and eq: "map_of (map (map_prod id meaning) kvs) = map_of (map (map_prod id meaning) kvs')"
    by (cases w) auto
  note ok = JObj.prems(1) [unfolded json_ok_JObj] JObj.prems(2) [unfolded w json_ok_JObj]
  have sets: "set (map (map_prod id meaning) kvs) = set (map (map_prod id meaning) kvs')"
    using eq ok by (subst (asm) map_of_inject_set) auto
  have match: "canonicalize (snd m) = canonicalize (snd m')"
    if m: "m \<in> set kvs" "m' \<in> set kvs'" "fst m = fst m'" for m m'
  proof -
    have "map_of kvs (fst m) = Some (snd m)" "map_of kvs' (fst m) = Some (snd m')"
      using ok m by (cases m; cases m'; auto intro: map_of_is_SomeI)+
    then have "meaning (snd m) = meaning (snd m')"
      using fun_cong [OF eq, of "fst m"] by (simp add: map_of_map_members)
    with JObj.IH [of m "snd m"] ok m show ?thesis by (auto simp: snds.simps)
  qed
  have keys: "fst ` set kvs = fst ` set kvs'"
    using arg_cong [OF sets, of "image fst"] by (simp add: image_image)
  have "set (map (map_prod id canonicalize) kvs) = set (map (map_prod id canonicalize) kvs')"
    using keys match by (intro subset_antisym members_cong) (auto dest: sym)
  then have "canonical_entries (map (map_prod id canonicalize) kvs) =
      canonical_entries (map (map_prod id canonicalize) kvs')"
    using ok by (intro canonical_entries_cong) auto
  with w show ?case by simp
qed (case_tac w; simp)+

section \<open>Properties\<close>

text \<open>
  C4. Canonical JSON identifies values exactly. Two JSON values without a
  \<open>__proto__\<close> property have the same stable string if and only if they mean the
  same: same scalars, same arrays in order, same objects whatever the order of
  their keys.
\<close>

theorem stable_string_identifies_meaning:
  assumes "json_ok v" "json_ok w" "proto_free v" "proto_free w"
  shows "stableStringify v = stableStringify w \<longleftrightarrow> meaning v = meaning w"
  using assms stableStringify_eq_iff canonicalize_by_meaning meaning_canonicalize by metis

theorem stable_string_identifies_meaning_witness:
  "stableStringify (JObj [(''b'', JNum (- 12)), (''a'', JArr [JStr ''x'', JNull])]) =
   stableStringify (JObj [(''a'', JArr [JStr ''x'', JNull]), (''b'', JNum (- 12))])"
proof -
  have "meaning (JObj [(''b'', JNum (- 12)), (''a'', JArr [JStr ''x'', JNull])]) =
      meaning (JObj [(''a'', JArr [JStr ''x'', JNull]), (''b'', JNum (- 12))])"
    by (simp add: fun_upd_twist)
  then show ?thesis
    by (subst stable_string_identifies_meaning) (simp_all add: proto_key_def)
qed


end
