(* ===== verification/Iso_Date.thy ===== *)
theory Iso_Date
  imports Canonical_Json
begin

text \<open>
  The part of the JavaScript \<open>Date\<close> the sources rely on: \<open>toISOString\<close>, the
  comparison of two such strings with \<open><\<close>, and \<open>Date.parse\<close> of such a string. The
  calendar functions are the ones of the language specification (\<open>DayFromYear\<close>,
  \<open>YearFromTime\<close>, the month table). The main facts: for the years 0 to 9999 the
  strings are ordered as the instants are, and parsing inverts printing.
\<close>

section \<open>Calendar\<close>

definition DayFromYear :: "int \<Rightarrow> int" where
  "DayFromYear y = 365 * (y - 1970) + (y - 1969) div 4 - (y - 1901) div 100 + (y - 1601) div 400"

definition InLeapYear :: "int \<Rightarrow> bool" where
  "InLeapYear y \<longleftrightarrow> y mod 4 = 0 \<and> (y mod 100 \<noteq> 0 \<or> y mod 400 = 0)"

lemma div_add_one:
  fixes x k :: int
  assumes "0 < k"
  shows "(x + 1) div k = x div k + (if (x + 1) mod k = 0 then 1 else 0)"
proof -
  define q r where "q = (x + 1) div k" and "r = (x + 1) mod k"
  have r: "0 \<le> r" "r < k" "x + 1 = k * q + r" using assms by (simp_all add: q_def r_def)
  have "x div k = (if r = 0 then q - 1 else q)"
  proof (cases "r = 0")
    case True
    have "x div k = q - 1"
      by (rule int_div_pos_eq [of _ _ _ "k - 1"]) (use r True assms in \<open>auto simp: algebra_simps\<close>)
    with True show ?thesis by simp
  next
    case False
    have "x div k = q"
      by (rule int_div_pos_eq [of _ _ _ "r - 1"]) (use r False in auto)
    with False show ?thesis by simp
  qed
  then show ?thesis by (auto simp: q_def r_def)
qed

lemma mod_shift: "k dvd c \<Longrightarrow> (x - c) mod k = x mod k" for x k c :: int
  by (metis dvd_imp_mod_0 mod_diff_right_eq diff_zero)

lemma leap_count:
  fixes y A B C :: int
  assumes "r \<longrightarrow> q" "q \<longrightarrow> p"
  shows "365 * (y + 1 - 1970) + (A + (if p then 1 else 0)) - (B + (if q then 1 else 0)) +
      (C + (if r then 1 else 0)) = 365 * (y - 1970) + A - B + C + (if p \<and> (\<not> q \<or> r) then 366 else 365)"
  using assms by (cases p; cases q; cases r) simp_all

lemma DayFromYear_step: "DayFromYear (y + 1) = DayFromYear y + (if InLeapYear y then 366 else 365)"
proof -
  have a: "(y + 1 - 1969) div 4 = (y - 1969) div 4 + (if y mod 4 = 0 then 1 else 0)"
    using div_add_one [of 4 "y - 1969"] mod_shift [of 4 1968 y] by (simp add: algebra_simps)
  have b: "(y + 1 - 1901) div 100 = (y - 1901) div 100 + (if y mod 100 = 0 then 1 else 0)"
    using div_add_one [of 100 "y - 1901"] mod_shift [of 100 1900 y] by (simp add: algebra_simps)
  have c: "(y + 1 - 1601) div 400 = (y - 1601) div 400 + (if y mod 400 = 0 then 1 else 0)"
    using div_add_one [of 400 "y - 1601"] mod_shift [of 400 1600 y] by (simp add: algebra_simps)
  have "y mod 400 = 0 \<longrightarrow> y mod 100 = 0" "y mod 100 = 0 \<longrightarrow> y mod 4 = 0"
    by (simp_all add: mod_eq_0_iff_dvd) (use dvd_trans [of 100 400 y] dvd_trans [of 4 100 y] in simp_all)
  then show ?thesis
    unfolding DayFromYear_def InLeapYear_def a b c by (rule leap_count)
qed

lemma DayFromYear_less: "y < z \<Longrightarrow> DayFromYear y < DayFromYear z"
proof (induction "nat (z - y)" arbitrary: z)
  case (Suc n)
  have "DayFromYear (z - 1) < DayFromYear z"
    using DayFromYear_step [of "z - 1"] by simp
  moreover have "y < z - 1 \<Longrightarrow> DayFromYear y < DayFromYear (z - 1)"
    using Suc by (intro Suc.hyps(1)) auto
  moreover have "y < z - 1 \<or> y = z - 1" using Suc.prems by linarith
  ultimately show ?case by auto
qed simp

text \<open>
  \<open>YearFromTime\<close> is the largest year that starts no later than the day. The search
  starts at a year that does, and moves up.
\<close>

function year_from :: "int \<Rightarrow> int \<Rightarrow> int" where
  "year_from d y = (if DayFromYear (y + 1) \<le> d then year_from d (y + 1) else y)"
  by auto

termination year_from
proof (relation "measure (\<lambda>(d, y). nat (d - DayFromYear y))")
  fix d y assume "DayFromYear (y + 1) \<le> d"
  with DayFromYear_less [of y "y + 1"]
  show "((d, y + 1), (d, y)) \<in> measure (\<lambda>(d, y). nat (d - DayFromYear y))" by simp
qed simp

declare year_from.simps [simp del]

definition YearFromDay :: "int \<Rightarrow> int" where
  "YearFromDay d = year_from d (1970 + (if 0 \<le> d then d div 366 else d div 365))"

definition month_start :: "bool \<Rightarrow> nat \<Rightarrow> int" where
  "month_start leap m = (if leap then [0, 31, 60, 91, 121, 152, 182, 213, 244, 274, 305, 335, 366] ! m
     else [0, 31, 59, 90, 120, 151, 181, 212, 243, 273, 304, 334, 365] ! m)"

definition month_of :: "bool \<Rightarrow> int \<Rightarrow> nat" where
  "month_of leap n = (let l = (if leap then 1 else 0) in
     if n < 31 then 0 else if n < 59 + l then 1 else if n < 90 + l then 2 else if n < 120 + l then 3
     else if n < 151 + l then 4 else if n < 181 + l then 5 else if n < 212 + l then 6
     else if n < 243 + l then 7 else if n < 273 + l then 8 else if n < 304 + l then 9
     else if n < 334 + l then 10 else 11)"

lemma year_from_bounds:
  "DayFromYear y \<le> d \<Longrightarrow> DayFromYear (year_from d y) \<le> d \<and> d < DayFromYear (year_from d y + 1)"
  by (induction d y rule: year_from.induct) (subst (1 2) year_from.simps, auto)

lemma DayFromYear_upper:
  "DayFromYear (1970 + int n) \<le> 366 * int n" "DayFromYear (1970 - int n) \<le> - 365 * int n"
proof -
  show "DayFromYear (1970 + int n) \<le> 366 * int n"
  proof (induction n)
    case (Suc n)
    then show ?case using DayFromYear_step [of "1970 + int n"] by (simp add: algebra_simps split: if_splits)
  qed (simp add: DayFromYear_def)
  show "DayFromYear (1970 - int n) \<le> - 365 * int n"
  proof (induction n)
    case (Suc n)
    then show ?case using DayFromYear_step [of "1969 - int n"] by (simp add: algebra_simps split: if_splits)
  qed (simp add: DayFromYear_def)
qed

lemma YearFromDay_bounds:
  "DayFromYear (YearFromDay d) \<le> d \<and> d < DayFromYear (YearFromDay d + 1)"
proof -
  have "DayFromYear (1970 + (if 0 \<le> d then d div 366 else d div 365)) \<le> d"
  proof (cases "0 \<le> d")
    case True
    then have "DayFromYear (1970 + d div 366) \<le> 366 * (d div 366)"
      using DayFromYear_upper(1) [of "nat (d div 366)"] by (simp add: pos_imp_zdiv_nonneg_iff)
    moreover have "366 * (d div 366) \<le> d" by linarith
    ultimately show ?thesis using True by simp
  next
    case False
    then have "d div 365 < 0" by linarith
    then have "DayFromYear (1970 + d div 365) \<le> 365 * (d div 365)"
      using DayFromYear_upper(2) [of "nat (- (d div 365))"] by simp
    moreover have "365 * (d div 365) \<le> d" by linarith
    ultimately show ?thesis using False by simp
  qed
  then show ?thesis unfolding YearFromDay_def by (rule year_from_bounds)
qed

lemma YearFromDay_mono: "d \<le> d' \<Longrightarrow> YearFromDay d \<le> YearFromDay d'"
  using YearFromDay_bounds [of d] YearFromDay_bounds [of d']
    DayFromYear_less [of "YearFromDay d' + 1" "YearFromDay d"]
  by (cases "YearFromDay d' + 1 = YearFromDay d") force+

lemma month_of_less: "month_of leap n < 12"
  by (simp add: month_of_def Let_def)

lemma month_of_bounds:
  "0 \<le> n \<Longrightarrow> n < (if leap then 366 else 365) \<Longrightarrow>
   month_start leap (month_of leap n) \<le> n \<and> n < month_start leap (Suc (month_of leap n))"
  unfolding month_of_def Let_def
  by (cases leap; (split if_split, intro conjI impI)+) (simp_all add: month_start_def)

lemma month_of_mono: "n \<le> n' \<Longrightarrow> month_of leap n \<le> month_of leap n'"
  by (cases leap) (simp_all add: month_of_def Let_def)

section \<open>Printing and parsing\<close>

text \<open>Zero-padded decimals of a fixed width.\<close>

primrec pad :: "nat \<Rightarrow> nat \<Rightarrow> string" where
  "pad 0 n = []"
| "pad (Suc w) n = pad w (n div 10) @ [digit_char (n mod 10)]"

text \<open>Years outside 0 to 9999 print with a sign and six digits.\<close>

definition year_str :: "int \<Rightarrow> string" where
  "year_str y = (if 0 \<le> y \<and> y \<le> 9999 then pad 4 (nat y)
     else (if 0 \<le> y then CHR ''+'' else CHR ''-'') # pad 6 (nat \<bar>y\<bar>))"

definition msPerDay :: int where
  "msPerDay = 86400000"

definition time_str :: "int \<Rightarrow> string" where
  "time_str n = pad 2 (nat (n div 3600000)) @ '':'' @ pad 2 (nat (n mod 3600000 div 60000)) @ '':'' @
     pad 2 (nat (n mod 60000 div 1000)) @ ''.'' @ pad 3 (nat (n mod 1000)) @ ''Z''"

definition date_str :: "int \<Rightarrow> string" where
  "date_str d = (let y = YearFromDay d; n = d - DayFromYear y; m = month_of (InLeapYear y) n in
     year_str y @ ''-'' @ pad 2 (m + 1) @ ''-'' @ pad 2 (nat (n - month_start (InLeapYear y) m + 1)))"

definition toISOString :: "instant \<Rightarrow> string" where
  "toISOString t = date_str (t div msPerDay) @ ''T'' @ time_str (t mod msPerDay)"

text \<open>
  The instant a 24-character ISO string names, read at fixed positions. A string
  is accepted when it is the canonical rendering of that instant; for every other
  string the result of \<open>Date.parse\<close> is \<open>legacy s\<close>, which the language leaves to the
  implementation.
\<close>

definition digits_at :: "nat \<Rightarrow> nat \<Rightarrow> string \<Rightarrow> nat" where
  "digits_at i w s = digits_val (take w (drop i s))"

definition iso_instant :: "string \<Rightarrow> instant" where
  "iso_instant s =
     (let y = int (digits_at 0 4 s); m = digits_at 5 2 s - 1; d = int (digits_at 8 2 s) - 1 in
      (DayFromYear y + month_start (InLeapYear y) m + d) * msPerDay +
      int (digits_at 11 2 s) * 3600000 + int (digits_at 14 2 s) * 60000 +
      int (digits_at 17 2 s) * 1000 + int (digits_at 20 3 s))"

definition Date_parse :: "(string \<Rightarrow> instant option) \<Rightarrow> string \<Rightarrow> instant option" where
  "Date_parse legacy s =
     (if length s = 24 \<and> digits_at 5 2 s \<le> 13 \<and> toISOString (iso_instant s) = s
      then Some (iso_instant s) else legacy s)"

definition iso_range :: "instant \<Rightarrow> bool" where
  "iso_range t \<longleftrightarrow> 0 \<le> YearFromDay (t div msPerDay) \<and> YearFromDay (t div msPerDay) \<le> 9999"

section \<open>Order\<close>

lemma lex_append:
  "length a = length a' \<Longrightarrow> a @ b < a' @ b' \<longleftrightarrow> a < a' \<or> (a = a' \<and> b < b')"
  for a :: "'a::linorder list"
  by (induction a a' rule: list_induct2) auto

lemma length_pad [simp]: "length (pad w n) = w"
  by (induction w arbitrary: n) auto

lemma digit_char_less: "d < 10 \<Longrightarrow> d' < 10 \<Longrightarrow> digit_char d < digit_char d' \<longleftrightarrow> d < d'"
  by (simp add: digit_char_def less_char_def)

lemma pad_less: "n < n' \<Longrightarrow> n' < 10 ^ w \<Longrightarrow> pad w n < pad w n'"
proof (induction w arbitrary: n n')
  case (Suc w)
  have "n div 10 < n' div 10 \<or> n div 10 = n' div 10 \<and> n mod 10 < n' mod 10"
    using Suc.prems(1) by (metis div_le_mono div_mult_mod_eq le_eq_less_or_eq nat_add_left_cancel_less
        less_imp_le)
  moreover have "n' div 10 < 10 ^ w" using Suc.prems(2) by (simp add: less_mult_imp_div_less)
  ultimately show ?case
    using Suc.IH [of "n div 10" "n' div 10"] by (auto simp: lex_append digit_char_less)
qed simp

text \<open>The leading field of a mixed-radix number, followed by the rest.\<close>

lemma div_mod_less:
  fixes x y k :: int
  assumes "0 < k" "x < y"
  shows "x div k < y div k \<or> x div k = y div k \<and> x mod k < y mod k"
proof -
  have "x div k \<le> y div k" using assms by (simp add: zdiv_mono1)
  moreover have "x mod k < y mod k" if "x div k = y div k"
    using assms(2) div_mult_mod_eq [of x k] div_mult_mod_eq [of y k] that
    by (metis add_less_cancel_left)
  ultimately show ?thesis by linarith
qed

lemma field_less:
  assumes "(n::nat) < n' \<or> n = n' \<and> b < b'" "n' < 10 ^ w"
  shows "pad w n @ sep @ b < pad w n' @ sep @ b'"
  using assms pad_less [of n n' w] by (auto simp: lex_append)

lemma radix_less:
  fixes x y k :: int
  assumes "0 < k" "0 \<le> x" "x < y" "y < k * 10 ^ w" "x mod k < y mod k \<Longrightarrow> b < b'"
  shows "pad w (nat (x div k)) @ sep @ b < pad w (nat (y div k)) @ sep @ b'"
proof (rule field_less)
  have "0 \<le> x div k" "0 \<le> y div k" using assms by (simp_all add: pos_imp_zdiv_nonneg_iff)
  with div_mod_less [OF assms(1,3)] assms(5)
  show "nat (x div k) < nat (y div k) \<or> nat (x div k) = nat (y div k) \<and> b < b'" by auto
  have "k * (y div k) \<le> y" using assms(1) by (simp add: minus_mod_eq_mult_div [symmetric])
  with assms(4) have "k * (y div k) < k * 10 ^ w" by linarith
  with assms(1) have "y div k < 10 ^ w" by simp
  then show "nat (y div k) < 10 ^ w" by (simp add: nat_less_iff)
qed

lemma time_str_less:
  assumes "0 \<le> x" "x < y" "y < msPerDay"
  shows "time_str x < time_str y"
proof -
  let ?h = "3600000 :: int" and ?m = "60000 :: int"
  have ms: "pad 3 (nat (x mod 1000)) @ ''Z'' @ [] < pad 3 (nat (y mod 1000)) @ ''Z'' @ []"
    if "x mod 1000 < y mod 1000"
    using radix_less [of 1 "x mod 1000" "y mod 1000" 3 "[]" "[]" "''Z''"] that by simp
  have cut: "z mod ?h mod ?m = z mod ?m" "z mod ?m mod 1000 = z mod 1000" for z :: int
    by (simp_all add: mod_mod_cancel)
  have sec: "pad 2 (nat (x mod ?m div 1000)) @ ''.'' @ pad 3 (nat (x mod 1000)) @ ''Z'' @ [] <
      pad 2 (nat (y mod ?m div 1000)) @ ''.'' @ pad 3 (nat (y mod 1000)) @ ''Z'' @ []"
    if "x mod ?m < y mod ?m"
  proof (rule radix_less)
    show "0 \<le> x mod ?m" "y mod ?m < 1000 * 10 ^ 2" using pos_mod_bound [of ?m y] by simp_all
  qed (simp, rule that, rule ms, simp only: cut)
  have min: "pad 2 (nat (x mod ?h div ?m)) @ '':'' @ pad 2 (nat (x mod ?m div 1000)) @ ''.'' @
        pad 3 (nat (x mod 1000)) @ ''Z'' @ [] <
      pad 2 (nat (y mod ?h div ?m)) @ '':'' @ pad 2 (nat (y mod ?m div 1000)) @ ''.'' @
        pad 3 (nat (y mod 1000)) @ ''Z'' @ []"
    if "x mod ?h < y mod ?h"
  proof (rule radix_less)
    show "0 \<le> x mod ?h" "y mod ?h < ?m * 10 ^ 2" using pos_mod_bound [of ?h y] by simp_all
  qed (simp, rule that, rule sec, simp only: cut)
  have "pad 2 (nat (x div ?h)) @ '':'' @ pad 2 (nat (x mod ?h div ?m)) @ '':'' @
        pad 2 (nat (x mod ?m div 1000)) @ ''.'' @ pad 3 (nat (x mod 1000)) @ ''Z'' @ [] <
      pad 2 (nat (y div ?h)) @ '':'' @ pad 2 (nat (y mod ?h div ?m)) @ '':'' @
        pad 2 (nat (y mod ?m div 1000)) @ ''.'' @ pad 3 (nat (y mod 1000)) @ ''Z'' @ []"
  proof (rule radix_less)
    show "y < ?h * 10 ^ 2" using assms by (simp add: msPerDay_def)
  qed (simp, rule assms, rule assms, rule min)
  then show ?thesis by (simp only: time_str_def append_Nil2)
qed

text \<open>The fields of a date.\<close>

lemma day_of_year_bounds:
  fixes d defines "y \<equiv> YearFromDay d"
  shows "0 \<le> d - DayFromYear y" "d - DayFromYear y < (if InLeapYear y then 366 else 365)"
  using YearFromDay_bounds [of d] DayFromYear_step [of y] by (auto simp: y_def)

lemma day_of_month_bounds:
  fixes d defines "y \<equiv> YearFromDay d"
  defines "n \<equiv> d - DayFromYear y"
  defines "k \<equiv> n - month_start (InLeapYear y) (month_of (InLeapYear y) n)"
  shows "0 \<le> k" "k < 31"
proof -
  have n: "0 \<le> n" "n < (if InLeapYear y then 366 else 365)"
    using day_of_year_bounds [of d] by (simp_all add: n_def y_def)
  have m: "month_of (InLeapYear y) n < 12" by (rule month_of_less)
  have "month_start l (Suc m) \<le> month_start l m + 31" if "m < 12" for l m
  proof -
    have "list_all (\<lambda>m. month_start l (Suc m) \<le> month_start l m + 31) [0..<12]"
      by (cases l; simp only:; code_simp)
    with that show ?thesis by (simp add: list_all_iff)
  qed
  from this [OF m, of "InLeapYear y"] month_of_bounds [OF n]
  show "0 \<le> k" "k < 31" by (auto simp: k_def)
qed

lemma date_str_less:
  assumes "d < d'" "0 \<le> YearFromDay d" "YearFromDay d' \<le> 9999"
  shows "date_str d < date_str d'"
proof -
  let ?y = YearFromDay and ?n = "\<lambda>d. d - DayFromYear (YearFromDay d)"
  let ?m = "\<lambda>d. month_of (InLeapYear (?y d)) (?n d)"
  let ?k = "\<lambda>d. ?n d - month_start (InLeapYear (?y d)) (?m d)"
  have y: "?y d \<le> ?y d'" using assms(1) by (simp add: YearFromDay_mono)
  have m: "?m d \<le> ?m d'" if "?y d = ?y d'"
    using assms(1) that by (simp add: month_of_mono)
  have k: "nat (?k d + 1) < nat (?k d' + 1)" if "?y d = ?y d'" "?m d = ?m d'"
    using assms(1) that day_of_month_bounds(1) [of d] day_of_month_bounds(1) [of d'] by simp
  have day: "pad 2 (nat (?k d + 1)) @ [] @ [] < pad 2 (nat (?k d' + 1)) @ [] @ []"
    if "?y d = ?y d'" "?m d = ?m d'"
    using k [OF that] day_of_month_bounds(2) [of d'] by (intro field_less) simp_all
  have "pad 2 (?m d + 1) @ ''-'' @ pad 2 (nat (?k d + 1)) @ [] <
      pad 2 (?m d' + 1) @ ''-'' @ pad 2 (nat (?k d' + 1)) @ []" if "?y d = ?y d'"
    using m [OF that] day [OF that] month_of_less [of "InLeapYear (?y d')" "?n d'"]
    by (intro field_less) auto
  then have "pad 4 (nat (?y d)) @ ''-'' @ pad 2 (?m d + 1) @ ''-'' @ pad 2 (nat (?k d + 1)) <
      pad 4 (nat (?y d')) @ ''-'' @ pad 2 (?m d' + 1) @ ''-'' @ pad 2 (nat (?k d' + 1))"
    using y assms(2,3) by (intro field_less) (auto simp: order_le_less [of "?y d"])
  with y assms(2,3) show ?thesis by (simp add: date_str_def year_str_def Let_def)
qed

lemma length_date_str:
  "0 \<le> YearFromDay d \<Longrightarrow> YearFromDay d \<le> 9999 \<Longrightarrow> length (date_str d) = 10"
  by (simp add: date_str_def year_str_def Let_def)

lemma toISOString_less:
  assumes "iso_range t" "iso_range t'" "t < t'"
  shows "toISOString t < toISOString t'"
proof -
  have len: "length (date_str (t div msPerDay)) = length (date_str (t' div msPerDay))"
    using assms(1,2) by (simp add: iso_range_def length_date_str)
  from div_mod_less [of msPerDay t t'] assms(3)
  consider "t div msPerDay < t' div msPerDay"
    | "t div msPerDay = t' div msPerDay" "t mod msPerDay < t' mod msPerDay"
    by (auto simp: msPerDay_def)
  then show ?thesis
  proof cases
    case 1
    then have "date_str (t div msPerDay) < date_str (t' div msPerDay)"
      using assms(1,2) by (intro date_str_less) (auto simp: iso_range_def)
    then show ?thesis by (simp add: toISOString_def lex_append [OF len])
  next
    case 2
    then have "time_str (t mod msPerDay) < time_str (t' mod msPerDay)"
      by (intro time_str_less) (simp_all add: msPerDay_def)
    with 2(1) show ?thesis by (simp add: toISOString_def lex_append)
  qed
qed

lemma toISOString_less_iff:
  "iso_range t \<Longrightarrow> iso_range t' \<Longrightarrow> toISOString t < toISOString t' \<longleftrightarrow> t < t'"
  by (metis linorder_less_linear order_less_asym toISOString_less order_less_irrefl)

section \<open>Parsing inverts printing\<close>

lemma digits_val_pad: "n < 10 ^ w \<Longrightarrow> digits_val (pad w n) = n"
proof (induction w arbitrary: n)
  case (Suc w)
  then have "n div 10 < 10 ^ w" by (simp add: less_mult_imp_div_less)
  with Suc show ?case by (simp add: digits_val_snoc digit_char_val)
qed (simp add: digits_val_def)

lemma digits_at_pad:
  "length a = i \<Longrightarrow> n < 10 ^ w \<Longrightarrow> digits_at i w (a @ pad w n @ b) = n"
  by (simp add: digits_at_def digits_val_pad)

lemma iso_fields:
  assumes "y < 10000" "m < 100" "d < 100" "h < 100" "mi < 100" "s < 100" "ms < 1000"
  defines "str \<equiv> (pad 4 y @ ''-'' @ pad 2 m @ ''-'' @ pad 2 d) @ ''T'' @
    pad 2 h @ '':'' @ pad 2 mi @ '':'' @ pad 2 s @ ''.'' @ pad 3 ms @ ''Z''"
  shows "digits_at 0 4 str = y" "digits_at 5 2 str = m" "digits_at 8 2 str = d"
    "digits_at 11 2 str = h" "digits_at 14 2 str = mi" "digits_at 17 2 str = s"
    "digits_at 20 3 str = ms" "length str = 24"
proof -
  show "digits_at 0 4 str = y"
    using digits_at_pad [of "[]" 0 y 4] assms(1) by (simp add: str_def)
  show "digits_at 5 2 str = m"
    using digits_at_pad [of "pad 4 y @ ''-''" 5 m 2] assms(2) by (simp add: str_def)
  show "digits_at 8 2 str = d"
    using digits_at_pad [of "pad 4 y @ ''-'' @ pad 2 m @ ''-''" 8 d 2] assms(3) by (simp add: str_def)
  let ?date = "pad 4 y @ ''-'' @ pad 2 m @ ''-'' @ pad 2 d @ ''T''"
  show "digits_at 11 2 str = h"
    using digits_at_pad [of ?date 11 h 2] assms(4) by (simp add: str_def)
  show "digits_at 14 2 str = mi"
    using digits_at_pad [of "?date @ pad 2 h @ '':''" 14 mi 2] assms(5) by (simp add: str_def)
  show "digits_at 17 2 str = s"
    using digits_at_pad [of "?date @ pad 2 h @ '':'' @ pad 2 mi @ '':''" 17 s 2] assms(6)
    by (simp add: str_def)
  show "digits_at 20 3 str = ms"
    using digits_at_pad [of "?date @ pad 2 h @ '':'' @ pad 2 mi @ '':'' @ pad 2 s @ ''.''" 20 ms 3]
      assms(7) by (simp add: str_def)
  show "length str = 24" by (simp add: str_def)
qed

lemma time_of_day_split:
  "n div 3600000 * 3600000 + n mod 3600000 div 60000 * 60000 + n mod 60000 div 1000 * 1000 +
   n mod 1000 = n" for n :: int
proof -
  have cut: "n mod 3600000 mod 60000 = n mod 60000" "n mod 60000 mod 1000 = n mod 1000"
    by (simp_all add: mod_mod_cancel)
  show ?thesis
    by (simp only: add.assoc div_mult_mod_eq [of "n mod 60000" 1000, unfolded cut]
        div_mult_mod_eq [of "n mod 3600000" 60000, unfolded cut] div_mult_mod_eq)
qed

lemma field_bounds:
  fixes n :: int
  assumes "0 \<le> n" "n < msPerDay"
  shows "nat (n div 3600000) < 100" "nat (n mod 3600000 div 60000) < 100"
    "nat (n mod 60000 div 1000) < 100" "nat (n mod 1000) < 1000"
    "0 \<le> n div 3600000" "0 \<le> n mod 3600000 div 60000" "0 \<le> n mod 60000 div 1000"
proof -
  have lt: "z div k < 100" if "0 < k" "z < k * 100" for z k :: int
  proof -
    have "k * (z div k) \<le> z" using that(1) by (simp add: minus_mod_eq_mult_div [symmetric])
    with that have "k * (z div k) < k * 100" by linarith
    with that(1) show ?thesis by simp
  qed
  show "nat (n div 3600000) < 100" using lt [of 3600000 n] assms by (simp add: msPerDay_def)
  have "n mod 3600000 < 3600000" "n mod 60000 < 60000" by simp_all
  then show "nat (n mod 3600000 div 60000) < 100" "nat (n mod 60000 div 1000) < 100"
    using lt [of 60000 "n mod 3600000"] lt [of 1000 "n mod 60000"] by simp_all
  have "n mod 1000 < 1000" "0 \<le> n mod 1000" by simp_all
  then show "nat (n mod 1000) < 1000" by simp
  show "0 \<le> n div 3600000" "0 \<le> n mod 3600000 div 60000" "0 \<le> n mod 60000 div 1000"
    using assms(1) by (simp_all add: pos_imp_zdiv_nonneg_iff)
qed

lemma iso_instant_toISOString:
  assumes "iso_range t"
  shows "iso_instant (toISOString t) = t" "length (toISOString t) = 24"
    "digits_at 5 2 (toISOString t) \<le> 13"
proof -
  define d n where "d = t div msPerDay" and "n = t mod msPerDay"
  define y where "y = YearFromDay d"
  define l where "l = InLeapYear y"
  define m where "m = month_of l (d - DayFromYear y)"
  define k where "k = d - DayFromYear y - month_start l m"
  have n: "0 \<le> n" "n < msPerDay" by (simp_all add: n_def msPerDay_def)
  have k: "0 \<le> k" "k < 31"
    using day_of_month_bounds [of d] by (simp_all add: k_def m_def l_def y_def)
  have m: "m < 12" by (simp add: m_def month_of_less)
  have y: "0 \<le> y" "y \<le> 9999" using assms by (simp_all add: iso_range_def y_def d_def)
  have str: "toISOString t = (pad 4 (nat y) @ ''-'' @ pad 2 (m + 1) @ ''-'' @ pad 2 (nat (k + 1))) @
      ''T'' @ time_str n"
    using y by (simp add: toISOString_def date_str_def year_str_def Let_def k_def m_def l_def
        flip: d_def n_def y_def)
  note f = iso_fields [of "nat y" "m + 1" "nat (k + 1)" "nat (n div 3600000)"
      "nat (n mod 3600000 div 60000)" "nat (n mod 60000 div 1000)" "nat (n mod 1000)"]
  have b: "nat y < 10000" "m + 1 < 100" "nat (k + 1) < 100" using y m k by simp_all
  note f = f [OF b field_bounds(1-4) [OF n], folded time_str_def, folded str]
  show "length (toISOString t) = 24" by (rule f(8))
  show "digits_at 5 2 (toISOString t) \<le> 13" unfolding f(2) using m by simp
  have "0 \<le> n mod 1000" by simp
  note i = nat_0_le [OF y(1)] nat_0_le [OF this] field_bounds(5-7) [OF n, THEN nat_0_le]
    nat_0_le [of "k + 1", OF add_nonneg_nonneg [OF k(1) zero_le_one]]
  have "iso_instant (toISOString t) = (DayFromYear y + month_start l m + k) * msPerDay +
      (n div 3600000 * 3600000 + n mod 3600000 div 60000 * 60000 + n mod 60000 div 1000 * 1000 + n mod 1000)"
    unfolding iso_instant_def Let_def f(1-7)
    by (simp only: i l_def [symmetric] add_diff_cancel_right' add.assoc)
  also have "\<dots> = d * msPerDay + n" by (simp add: time_of_day_split k_def)
  finally show "iso_instant (toISOString t) = t" by (simp add: d_def n_def)
qed

lemma Date_parse_toISOString: "iso_range t \<Longrightarrow> Date_parse legacy (toISOString t) = Some t"
  by (simp add: Date_parse_def iso_instant_toISOString)

end
