(* ===== verification/Ledger_Chain.thy ===== *)
theory Ledger_Chain
  imports Iso_Date
begin

text \<open>
  The pure part of the tamper-evident event ledger:
  \<open>api/src/ledger/ledger.types.ts\<close> and \<open>api/src/ledger/ledger.chain.ts\<close>. An event
  is a JSON object that commits, through its \<open>previousHash\<close> and \<open>hash\<close> fields, to
  its predecessor and to its own content; \<open>verifyLedgerEvents\<close> walks a stored
  chain and reports every inconsistency.

  The platform functions the code calls are fields of the record \<open>host\<close>: SHA-256
  and HMAC-SHA-256 of Node's crypto module, and what \<open>Date.parse\<close> makes of a string
  outside the ISO format, which is implementation defined (\<open>None\<close> is NaN). Nothing
  is assumed of the digest: the tamper-evidence theorem exhibits a collision where
  a stronger model would assume there is none.
\<close>

section \<open>Types and constants\<close>

record host =
  sha256_hex :: "string \<Rightarrow> string"
  hmac_sha256_hex :: "string \<Rightarrow> string \<Rightarrow> string"
  legacy_date_parse :: "string \<Rightarrow> instant option"

definition LEDGER_SCHEMA_VERSION :: int where
  "LEDGER_SCHEMA_VERSION = 1"

definition LEDGER_GENESIS_HASH :: string where
  "LEDGER_GENESIS_HASH = replicate 64 (CHR ''0'')"

definition LEDGER_EVENT_TYPES :: "(string \<times> string) list" where
  "LEDGER_EVENT_TYPES =
    [(''role.granted'', ''privileged''), (''role.revoked'', ''privileged''),
     (''admin.intent.executed'', ''privileged''), (''impersonation.started'', ''privileged''),
     (''impersonation.operation_allowed'', ''privileged''),
     (''impersonation.operation_denied'', ''privileged''),
     (''impersonation.ended'', ''privileged''), (''impersonation.expired'', ''privileged''),
     (''impersonation.revoked'', ''privileged''), (''kyc.override'', ''privileged''),
     (''oracle.override'', ''privileged''), (''config.changed'', ''privileged''),
     (''ledger.exported'', ''privileged''),
     (''bond.issued'', ''financial''), (''subscription.allocated'', ''financial''),
     (''coupon.distributed'', ''financial''), (''carbon_credit.retired'', ''financial''),
     (''settlement.completed'', ''financial''), (''settlement.rolled_back'', ''financial''),
     (''redemption.processed'', ''financial''), (''fee.collected'', ''financial'')]"

record LedgerCheckpoint =
  cp_sequence :: int
  cp_hash :: string
  cp_recordedAt :: string
  cp_createdAt :: string
  cp_keyId :: string
  cp_mac :: string

datatype LedgerFailureReason = UnsupportedSchemaVersion | SequenceBreak | PreviousHashMismatch
  | ContentHashMismatch | RecordedAtWentBackwards | UnknownEventType | CategoryMismatch
  | DuplicateEventId | CheckpointMacInvalid | CheckpointDoesNotMatchEvent
  | CheckpointBeyondLedgerHead | HeadMismatch | ExportBodyDigestMismatch
  | ExportManifestMismatch | MalformedEvent

text \<open>
  Values read from an unchecked event are \<open>JsonValue option\<close>: \<open>None\<close> is
  \<open>undefined\<close>, \<open>Some JNull\<close> is \<open>null\<close>.
\<close>

record LedgerVerificationFailure =
  vf_sequence :: "JsonValue option"
  vf_reason :: LedgerFailureReason
  vf_expected :: "string option"
  vf_actual :: "string option"

record LedgerVerificationReport =
  rp_ok :: bool
  rp_checkedEvents :: nat
  rp_checkedCheckpoints :: nat
  rp_firstSequence :: "JsonValue option"
  rp_lastSequence :: "JsonValue option"
  rp_headHash :: "JsonValue option"
  rp_failures :: "LedgerVerificationFailure list"

record VerifyOptions =
  vo_anchorHash :: "string option"
  vo_startSequence :: "int option"
  vo_checkpoints :: "LedgerCheckpoint list option"
  vo_checkpointKeys :: "(string \<times> string) list option"
  vo_lostKeyIds :: "string list option"
  vo_expectedHeadHash :: "string option"
  vo_expectedLastSequence :: "int option"

definition no_options :: VerifyOptions where
  "no_options = \<lparr>vo_anchorHash = None, vo_startSequence = None, vo_checkpoints = None,
     vo_checkpointKeys = None, vo_lostKeyIds = None, vo_expectedHeadHash = None,
     vo_expectedLastSequence = None\<rparr>"

section \<open>JavaScript reads of a JSON value\<close>

fun jget :: "string \<Rightarrow> JsonValue \<Rightarrow> JsonValue option" where
  "jget k (JObj kvs) = map_of kvs k"
| "jget k _ = None"

definition str_field :: "string \<Rightarrow> JsonValue \<Rightarrow> string" where
  "str_field k v = (case jget k v of Some (JStr s) \<Rightarrow> s | _ \<Rightarrow> [])"

definition int_field :: "string \<Rightarrow> JsonValue \<Rightarrow> int" where
  "int_field k v = (case jget k v of Some (JNum i) \<Rightarrow> i | _ \<Rightarrow> 0)"

text \<open>A missing field becomes \<open>null\<close> when \<open>canonicalize\<close> meets it.\<close>

definition null_field :: "string \<Rightarrow> JsonValue \<Rightarrow> JsonValue" where
  "null_field k v = (case jget k v of None \<Rightarrow> JNull | Some x \<Rightarrow> x)"

fun typeof_json :: "JsonValue \<Rightarrow> string" where
  "typeof_json (JBool b) = ''boolean''"
| "typeof_json (JNum i) = ''number''"
| "typeof_json (JStr s) = ''string''"
| "typeof_json _ = ''object''"

text \<open>\<open>String(v)\<close>; inside an array \<open>null\<close> prints as the empty string.\<close>

primrec js_String :: "JsonValue \<Rightarrow> string" where
  "js_String JNull = ''null''"
| "js_String (JBool b) = (if b then ''true'' else ''false'')"
| "js_String (JNum i) = int_str i"
| "js_String (JStr s) = s"
| "js_String (JArr xs) = join '','' (map (\<lambda>(x, s). if x = JNull then [] else s) (zip xs (map js_String xs)))"
| "js_String (JObj kvs) = ''[object Object]''"

definition opt_String :: "JsonValue option \<Rightarrow> string option" where
  "opt_String v = (case v of None \<Rightarrow> None | Some JNull \<Rightarrow> None | Some x \<Rightarrow> Some (js_String x))"

text \<open>\<open>n > v\<close>: strings, arrays and objects compare as NaN here.\<close>

definition num_gt :: "int \<Rightarrow> JsonValue option \<Rightarrow> bool" where
  "num_gt n v = (case v of Some (JNum i) \<Rightarrow> n > i | Some JNull \<Rightarrow> n > 0
     | Some (JBool b) \<Rightarrow> n > of_bool b | _ \<Rightarrow> False)"

definition or_zero :: "JsonValue option \<Rightarrow> JsonValue" where
  "or_zero v = (case v of None \<Rightarrow> JNum 0 | Some JNull \<Rightarrow> JNum 0 | Some x \<Rightarrow> x)"

text \<open>
  Indexing a plain object with a foreign string also finds the members of
  \<open>Object.prototype\<close>; their printed form is what an error message shows.
\<close>

definition native :: "string \<Rightarrow> string" where
  "native f = ''function '' @ f @ ''() { [native code] }''"

definition object_prototype :: "(string \<times> string) list" where
  "object_prototype =
     (''constructor'', native ''Object'') # (''__proto__'', ''[object Object]'') #
     map (\<lambda>f. (f, native f))
       [''toString'', ''toLocaleString'', ''valueOf'', ''hasOwnProperty'', ''isPrototypeOf'',
        ''propertyIsEnumerable'', ''__defineGetter__'', ''__defineSetter__'',
        ''__lookupGetter__'', ''__lookupSetter__'']"

section \<open>Hashing\<close>

definition EVENT_HASH_PREFIX :: string where
  "EVENT_HASH_PREFIX = ''verdant-ledger:event:v1'' @ [CHR 0x0A]"

definition CHECKPOINT_MAC_PREFIX :: string where
  "CHECKPOINT_MAC_PREFIX = ''verdant-ledger:checkpoint:v1'' @ [CHR 0x0A]"

definition hashed_fields :: "string list" where
  "hashed_fields = [''schemaVersion'', ''sequence'', ''eventId'', ''category'', ''type'', ''actor'',
     ''subjectType'', ''subjectId'', ''payload'', ''correlationId'', ''occurredAt'', ''recordedAt'',
     ''previousHash'']"

definition hashed_content :: "JsonValue \<Rightarrow> JsonValue" where
  "hashed_content e = JObj (map (\<lambda>k. (k, null_field k e)) hashed_fields)"

definition event_preimage :: "JsonValue \<Rightarrow> string" where
  "event_preimage e = EVENT_HASH_PREFIX @ stableStringify (hashed_content e)"

definition computeEventHash :: "host \<Rightarrow> JsonValue \<Rightarrow> string" where
  "computeEventHash H e = sha256_hex H (event_preimage e)"

definition computeCheckpointMac :: "host \<Rightarrow> LedgerCheckpoint \<Rightarrow> string \<Rightarrow> string" where
  "computeCheckpointMac H c key =
     hmac_sha256_hex H key (CHECKPOINT_MAC_PREFIX @ stableStringify
       (JObj [(''sequence'', JNum (cp_sequence c)), (''hash'', JStr (cp_hash c)),
              (''recordedAt'', JStr (cp_recordedAt c)), (''createdAt'', JStr (cp_createdAt c)),
              (''keyId'', JStr (cp_keyId c))]))"

definition sha256Hex :: "host \<Rightarrow> string \<Rightarrow> string" where
  "sha256Hex H body = sha256_hex H body"

definition macMatches :: "string \<Rightarrow> string \<Rightarrow> bool" where
  "macMatches expected actual \<longleftrightarrow> length expected = length actual \<and> expected = actual"

definition serializeNdjson :: "JsonValue list \<Rightarrow> string" where
  "serializeNdjson events = concat (map (\<lambda>e. stableStringify e @ [CHR 0x0A]) events)"

section \<open>Payload validation\<close>

text \<open>
  A value of static type \<open>unknown\<close>: besides JSON it may be \<open>undefined\<close>, a number
  that is not finite, or anything else (a class instance, a function, a bigint),
  of which only the \<open>typeof\<close> tag matters here.
\<close>

datatype unknown = UUndefined | UNull | UBool bool | UNum int | UNonFinite | UStr string
  | UArr "unknown list" | UPlain "(string \<times> unknown) list" | UForeign string

definition MAX_PAYLOAD_BYTES :: nat where
  "MAX_PAYLOAD_BYTES = 16 * 1024"

definition SENSITIVE_KEYS :: "string list" where
  "SENSITIVE_KEYS = [''password'', ''passwd'', ''secret'', ''clientsecret'', ''token'',
     ''accesstoken'', ''refreshtoken'', ''jwt'', ''privatekey'', ''secretkey'', ''seed'',
     ''seedphrase'', ''mnemonic'', ''apikey'', ''ssn'']"

definition lower_char :: "char \<Rightarrow> char" where
  "lower_char c = (let n = (of_char c :: nat) in
     if (65 \<le> n \<and> n \<le> 90) \<or> (192 \<le> n \<and> n \<le> 222 \<and> n \<noteq> 215) then char_of (n + 32) else c)"

definition isSensitiveKey :: "string \<Rightarrow> bool" where
  "isSensitiveKey key \<longleftrightarrow>
     map lower_char (filter (\<lambda>c. c \<noteq> CHR ''_'' \<and> c \<noteq> CHR ''-'') key) \<in> set SENSITIVE_KEYS"

text \<open>Checks run in order; the first one that throws ends the walk.\<close>

fun first_error :: "(string + unit) list \<Rightarrow> string + unit" where
  "first_error [] = Inr ()"
| "first_error (Inl e # rs) = Inl e"
| "first_error (Inr u # rs) = first_error rs"

primrec walk :: "unknown \<Rightarrow> string \<Rightarrow> string + unit" where
  "walk UUndefined = (\<lambda>path. Inl (path @ '' is not JSON-safe (undefined)''))"
| "walk UNull = (\<lambda>path. Inr ())"
| "walk (UBool b) = (\<lambda>path. Inr ())"
| "walk (UNum i) = (\<lambda>path. Inr ())"
| "walk UNonFinite = (\<lambda>path. Inl (path @ '' must be a finite number''))"
| "walk (UStr s) = (\<lambda>path. Inr ())"
| "walk (UArr xs) = (\<lambda>path. first_error
     (map (\<lambda>(i, w). w (path @ ''['' @ nat_str i @ '']'')) (zip [0..<length xs] (map walk xs))))"
| "walk (UPlain kvs) = (\<lambda>path. first_error
     (map (\<lambda>(key, w). if isSensitiveKey key
                       then Inl (path @ ''.'' @ key @ '' looks like a secret and cannot be ledgered'')
                       else w (path @ ''.'' @ key)) (map (map_prod id walk) kvs)))"
| "walk (UForeign t) = (\<lambda>path. Inl (path @ '' is not JSON-safe ('' @ t @ '')''))"

text \<open>The JSON value an accepted payload is; \<open>None\<close> if printing would lose something.\<close>

primrec json_of :: "unknown \<Rightarrow> JsonValue option" where
  "json_of UUndefined = None"
| "json_of UNull = Some JNull"
| "json_of (UBool b) = Some (JBool b)"
| "json_of (UNum i) = Some (JNum i)"
| "json_of UNonFinite = None"
| "json_of (UStr s) = Some (JStr s)"
| "json_of (UArr xs) = map_option JArr (those (map json_of xs))"
| "json_of (UPlain kvs) = map_option JObj
     (those (map (\<lambda>(k, v). map_option (Pair k) v) (map (map_prod id json_of) kvs)))"
| "json_of (UForeign t) = None"

definition utf8_length :: "string \<Rightarrow> nat" where
  "utf8_length s = sum_list (map (\<lambda>c. if (of_char c :: nat) < 128 then 1 else 2) s)"

definition assertLedgerPayload :: "unknown \<Rightarrow> string + unit" where
  "assertLedgerPayload payload =
     (case payload of
        UPlain kvs \<Rightarrow>
          (case walk payload ''payload'' of
             Inl e \<Rightarrow> Inl e
           | Inr _ \<Rightarrow>
               (case json_of payload of
                  None \<Rightarrow> Inl ''payload must be a plain JSON object''
                | Some j \<Rightarrow>
                    (let bytes = utf8_length (stableStringify j) in
                     if bytes > MAX_PAYLOAD_BYTES
                     then Inl (''payload is '' @ nat_str bytes @ '' bytes; limit is ''
                               @ nat_str MAX_PAYLOAD_BYTES)
                     else Inr ())))
      | _ \<Rightarrow> Inl ''payload must be a plain JSON object'')"

section \<open>Verification\<close>

definition is_object :: "JsonValue option \<Rightarrow> bool" where
  "is_object v = (case v of Some (JObj _) \<Rightarrow> True | Some (JArr _) \<Rightarrow> True | _ \<Rightarrow> False)"

definition is_string :: "JsonValue option \<Rightarrow> bool" where
  "is_string v = (case v of Some (JStr _) \<Rightarrow> True | _ \<Rightarrow> False)"

definition is_number :: "JsonValue option \<Rightarrow> bool" where
  "is_number v = (case v of Some (JNum _) \<Rightarrow> True | _ \<Rightarrow> False)"

definition isWellFormed :: "JsonValue \<Rightarrow> bool" where
  "isWellFormed ev \<longleftrightarrow> is_object (Some ev) \<and> is_number (jget ''sequence'' ev) \<and>
     is_string (jget ''eventId'' ev) \<and> is_string (jget ''hash'' ev) \<and>
     is_string (jget ''previousHash'' ev) \<and> is_string (jget ''recordedAt'' ev) \<and>
     is_string (jget ''type'' ev) \<and> is_string (jget ''category'' ev) \<and>
     is_object (jget ''payload'' ev)"

text \<open>The loop variables of \<open>verifyLedgerEvents\<close>.\<close>

record verify_state =
  vs_seenIds :: "string list"
  vs_bySequence :: "(int, JsonValue) js_map"
  vs_previousHash :: string
  vs_previousRecordedAt :: "string option"
  vs_expectedSequence :: int
  vs_failures :: "LedgerVerificationFailure list"

definition failure ::
  "JsonValue option \<Rightarrow> LedgerFailureReason \<Rightarrow> string option \<Rightarrow> string option \<Rightarrow>
   LedgerVerificationFailure" where
  "failure sq r ex ac = \<lparr>vf_sequence = sq, vf_reason = r, vf_expected = ex, vf_actual = ac\<rparr>"

definition date_before :: "host \<Rightarrow> string \<Rightarrow> string \<Rightarrow> bool" where
  "date_before H a b = (case (Date_parse (legacy_date_parse H) a, Date_parse (legacy_date_parse H) b) of
     (Some x, Some y) \<Rightarrow> x < y | _ \<Rightarrow> False)"

definition type_failures :: "JsonValue \<Rightarrow> LedgerVerificationFailure list" where
  "type_failures ev =
     (let seq = jget ''sequence'' ev; ty = str_field ''type'' ev; cat = str_field ''category'' ev in
      case map_of LEDGER_EVENT_TYPES ty of
        Some registered \<Rightarrow>
          (if registered \<noteq> cat then [failure seq CategoryMismatch (Some registered) (Some cat)] else [])
      | None \<Rightarrow>
          (case map_of object_prototype ty of
             Some inherited \<Rightarrow> [failure seq CategoryMismatch (Some inherited) (Some cat)]
           | None \<Rightarrow> [failure seq UnknownEventType None (Some ty)]))"

text \<open>The failures one well-formed event adds, in the order the loop pushes them.\<close>

definition event_failures :: "host \<Rightarrow> verify_state \<Rightarrow> JsonValue \<Rightarrow> LedgerVerificationFailure list" where
  "event_failures H st ev =
     (let seq = jget ''sequence'' ev; n = int_field ''sequence'' ev;
          prev = str_field ''previousHash'' ev; hash = str_field ''hash'' ev;
          rebuilt = computeEventHash H ev; eid = str_field ''eventId'' ev;
          recAt = str_field ''recordedAt'' ev
      in (if jget ''schemaVersion'' ev \<noteq> Some (JNum LEDGER_SCHEMA_VERSION)
          then [failure seq UnsupportedSchemaVersion (Some (int_str LEDGER_SCHEMA_VERSION))
                  (opt_String (jget ''schemaVersion'' ev))] else []) @
         (if n \<noteq> vs_expectedSequence st
          then [failure seq SequenceBreak (Some (int_str (vs_expectedSequence st))) (Some (int_str n))]
          else []) @
         (if prev \<noteq> vs_previousHash st
          then [failure seq PreviousHashMismatch (Some (vs_previousHash st)) (Some prev)] else []) @
         (if rebuilt \<noteq> hash then [failure seq ContentHashMismatch (Some rebuilt) (Some hash)] else []) @
         type_failures ev @
         (if eid \<in> set (vs_seenIds st) then [failure seq DuplicateEventId None (Some eid)] else []) @
         (case vs_previousRecordedAt st of
            None \<Rightarrow> []
          | Some before \<Rightarrow>
              if date_before H recAt before
              then [failure seq RecordedAtWentBackwards (Some (''>= '' @ before)) (Some recAt)]
              else []))"

definition verify_event :: "host \<Rightarrow> verify_state \<Rightarrow> JsonValue \<Rightarrow> verify_state" where
  "verify_event H st ev =
     (if \<not> isWellFormed ev
      then st\<lparr>vs_failures := vs_failures st @
             [failure (if is_number (jget ''sequence'' ev) then jget ''sequence'' ev else Some JNull)
                MalformedEvent (Some ''ledger event'') (Some (typeof_json ev))]\<rparr>
      else st\<lparr>vs_seenIds := str_field ''eventId'' ev # vs_seenIds st,
             vs_bySequence := js_set (int_field ''sequence'' ev) ev (vs_bySequence st),
             vs_previousHash := str_field ''hash'' ev,
             vs_previousRecordedAt := Some (str_field ''recordedAt'' ev),
             vs_expectedSequence := int_field ''sequence'' ev + 1,
             vs_failures := vs_failures st @ event_failures H st ev\<rparr>)"

text \<open>
  A checkpoint under a key id that names a member of \<open>Object.prototype\<close> finds
  that member, and \<open>createHmac\<close> throws on it.
\<close>

datatype chain_error = TypeError

datatype mac_check = MacOk | MacInvalid "string option" string | MacThrows

definition check_mac :: "host \<Rightarrow> VerifyOptions \<Rightarrow> LedgerCheckpoint \<Rightarrow> mac_check" where
  "check_mac H opts c =
     (case vo_checkpointKeys opts of
        None \<Rightarrow> MacOk
      | Some keys \<Rightarrow>
          (if cp_keyId c \<in> set (case vo_lostKeyIds opts of None \<Rightarrow> [] | Some ids \<Rightarrow> ids) then MacOk
           else case map_of keys (cp_keyId c) of
              Some key \<Rightarrow>
                (if key = [] then MacInvalid (Some ''known key id'') (cp_keyId c)
                 else if \<not> macMatches (computeCheckpointMac H c key) (cp_mac c)
                 then MacInvalid None (cp_mac c) else MacOk)
            | None \<Rightarrow>
                (if map_of object_prototype (cp_keyId c) \<noteq> None then MacThrows
                 else MacInvalid (Some ''known key id'') (cp_keyId c))))"

definition verify_checkpoint ::
  "host \<Rightarrow> VerifyOptions \<Rightarrow> (int, JsonValue) js_map \<Rightarrow> JsonValue option \<Rightarrow> LedgerCheckpoint \<Rightarrow>
   chain_error + LedgerVerificationFailure list" where
  "verify_checkpoint H opts bySequence lastSequence c =
     (let seq = Some (JNum (cp_sequence c)) in
      case check_mac H opts c of
        MacThrows \<Rightarrow> Inl TypeError
      | MacInvalid ex ac \<Rightarrow> Inr [failure seq CheckpointMacInvalid ex (Some ac)]
      | MacOk \<Rightarrow>
          (case map_of bySequence (cp_sequence c) of
             None \<Rightarrow>
               (if lastSequence = Some JNull \<or> num_gt (cp_sequence c) lastSequence
                then Inr [failure seq CheckpointBeyondLedgerHead (Some (int_str (cp_sequence c)))
                            (opt_String lastSequence)]
                else Inr [])
           | Some ev \<Rightarrow>
               (if str_field ''hash'' ev \<noteq> cp_hash c \<or> str_field ''recordedAt'' ev \<noteq> cp_recordedAt c
                then Inr [failure seq CheckpointDoesNotMatchEvent (Some (cp_hash c))
                            (Some (str_field ''hash'' ev))]
                else Inr [])))"

fun verify_checkpoints ::
  "host \<Rightarrow> VerifyOptions \<Rightarrow> (int, JsonValue) js_map \<Rightarrow> JsonValue option \<Rightarrow> LedgerCheckpoint list \<Rightarrow>
   chain_error + LedgerVerificationFailure list" where
  "verify_checkpoints H opts bySequence lastSequence [] = Inr []"
| "verify_checkpoints H opts bySequence lastSequence (c # cs) =
     (case verify_checkpoint H opts bySequence lastSequence c of
        Inl e \<Rightarrow> Inl e
      | Inr fs \<Rightarrow>
          (case verify_checkpoints H opts bySequence lastSequence cs of
             Inl e \<Rightarrow> Inl e
           | Inr gs \<Rightarrow> Inr (fs @ gs)))"

definition verify_init :: "VerifyOptions \<Rightarrow> verify_state" where
  "verify_init opts =
     \<lparr>vs_seenIds = [], vs_bySequence = [],
      vs_previousHash = (case vo_anchorHash opts of None \<Rightarrow> LEDGER_GENESIS_HASH | Some h \<Rightarrow> h),
      vs_previousRecordedAt = None,
      vs_expectedSequence = (case vo_startSequence opts of None \<Rightarrow> 1 | Some n \<Rightarrow> n),
      vs_failures = []\<rparr>"

definition lastSequence_of :: "JsonValue list \<Rightarrow> JsonValue option" where
  "lastSequence_of events = (if events = [] then Some JNull else jget ''sequence'' (last events))"

definition headHash_of :: "VerifyOptions \<Rightarrow> JsonValue list \<Rightarrow> JsonValue option" where
  "headHash_of opts events =
     (if events = [] then Some (JStr (vs_previousHash (verify_init opts)))
      else jget ''hash'' (last events))"

definition head_failures :: "VerifyOptions \<Rightarrow> JsonValue list \<Rightarrow> LedgerVerificationFailure list" where
  "head_failures opts events =
     (let lastSequence = lastSequence_of events; headHash = headHash_of opts events in
      (case vo_expectedHeadHash opts of
         None \<Rightarrow> []
       | Some h \<Rightarrow> if headHash \<noteq> Some (JStr h)
                   then [failure lastSequence HeadMismatch (Some h) (opt_String headHash)] else []) @
      (case vo_expectedLastSequence opts of
         None \<Rightarrow> []
       | Some n \<Rightarrow> if or_zero lastSequence \<noteq> JNum n
                   then [failure lastSequence HeadMismatch (Some (int_str n))
                           (opt_String (Some (or_zero lastSequence)))] else []))"

text \<open>
  The report's header reads the first and the last element before any of them is
  checked, which throws when one of them is \<open>null\<close>.
\<close>

definition verifyLedgerEvents ::
  "host \<Rightarrow> JsonValue list \<Rightarrow> VerifyOptions \<Rightarrow> chain_error + LedgerVerificationReport" where
  "verifyLedgerEvents H events opts =
     (if events \<noteq> [] \<and> (hd events = JNull \<or> last events = JNull) then Inl TypeError
      else
        (let st = foldl (verify_event H) (verify_init opts) events;
             cps = (case vo_checkpoints opts of None \<Rightarrow> [] | Some cs \<Rightarrow> cs)
         in case verify_checkpoints H opts (vs_bySequence st) (lastSequence_of events) cps of
              Inl e \<Rightarrow> Inl e
            | Inr fs \<Rightarrow>
                (let failures = vs_failures st @ fs @ head_failures opts events in
                 Inr \<lparr>rp_ok = (length failures = 0), rp_checkedEvents = length events,
                      rp_checkedCheckpoints = length cps,
                      rp_firstSequence =
                        (if events = [] then Some JNull else jget ''sequence'' (hd events)),
                      rp_lastSequence = lastSequence_of events,
                      rp_headHash = headHash_of opts events,
                      rp_failures = failures\<rparr>)))"

section \<open>Specification of a valid chain\<close>

text \<open>
  An event that continues a chain: \<open>prev\<close> is the hash it must name, \<open>n\<close> its
  sequence number, \<open>before\<close> the recording time of its predecessor and \<open>ids\<close> the
  identifiers already used.
\<close>

definition link_ok ::
  "host \<Rightarrow> string \<Rightarrow> int \<Rightarrow> string option \<Rightarrow> string set \<Rightarrow> JsonValue \<Rightarrow> bool" where
  "link_ok H prev n before ids e \<longleftrightarrow> isWellFormed e \<and>
     jget ''schemaVersion'' e = Some (JNum LEDGER_SCHEMA_VERSION) \<and>
     int_field ''sequence'' e = n \<and> str_field ''previousHash'' e = prev \<and>
     str_field ''hash'' e = computeEventHash H e \<and>
     map_of LEDGER_EVENT_TYPES (str_field ''type'' e) = Some (str_field ''category'' e) \<and>
     str_field ''eventId'' e \<notin> ids \<and>
     (\<forall>b. before = Some b \<longrightarrow> \<not> date_before H (str_field ''recordedAt'' e) b)"

definition chain_head :: "string \<Rightarrow> JsonValue list \<Rightarrow> string" where
  "chain_head anchor es = (if es = [] then anchor else str_field ''hash'' (last es))"

definition last_recorded :: "JsonValue list \<Rightarrow> string option" where
  "last_recorded es = (if es = [] then None else Some (str_field ''recordedAt'' (last es)))"

definition chain_valid :: "host \<Rightarrow> string \<Rightarrow> int \<Rightarrow> JsonValue list \<Rightarrow> bool" where
  "chain_valid H anchor start es \<longleftrightarrow>
     (\<forall>i<length es. link_ok H (chain_head anchor (take i es)) (start + int i)
        (last_recorded (take i es)) (str_field ''eventId'' ` set (take i es)) (es ! i))"

text \<open>
  A checkpoint agrees with a valid chain: its MAC is good, it does not lie beyond
  the head, and if it lies in the segment it repeats its event's hash and time.
\<close>

definition checkpoint_valid ::
  "host \<Rightarrow> VerifyOptions \<Rightarrow> int \<Rightarrow> JsonValue list \<Rightarrow> LedgerCheckpoint \<Rightarrow> bool" where
  "checkpoint_valid H opts start es c \<longleftrightarrow> check_mac H opts c = MacOk \<and>
     es \<noteq> [] \<and> cp_sequence c < start + int (length es) \<and>
     (start \<le> cp_sequence c \<longrightarrow>
        str_field ''hash'' (es ! nat (cp_sequence c - start)) = cp_hash c \<and>
        str_field ''recordedAt'' (es ! nat (cp_sequence c - start)) = cp_recordedAt c)"

abbreviation anchor_of :: "VerifyOptions \<Rightarrow> string" where
  "anchor_of opts \<equiv> vs_previousHash (verify_init opts)"

abbreviation start_of :: "VerifyOptions \<Rightarrow> int" where
  "start_of opts \<equiv> vs_expectedSequence (verify_init opts)"

definition ledger_valid :: "host \<Rightarrow> VerifyOptions \<Rightarrow> JsonValue list \<Rightarrow> bool" where
  "ledger_valid H opts es \<longleftrightarrow>
     chain_valid H (anchor_of opts) (start_of opts) es \<and>
     (\<forall>c\<in>set (case vo_checkpoints opts of None \<Rightarrow> [] | Some cs \<Rightarrow> cs).
        checkpoint_valid H opts (start_of opts) es c) \<and>
     (\<forall>h. vo_expectedHeadHash opts = Some h \<longrightarrow> h = chain_head (anchor_of opts) es) \<and>
     (\<forall>n. vo_expectedLastSequence opts = Some n \<longrightarrow>
        n = (if es = [] then 0 else start_of opts + int (length es) - 1))"

lemma chain_valid_Nil [simp]: "chain_valid H a n []"
  by (simp add: chain_valid_def)

lemma chain_valid_snoc:
  "chain_valid H a n (es @ [e]) \<longleftrightarrow> chain_valid H a n es \<and>
     link_ok H (chain_head a es) (n + int (length es)) (last_recorded es)
       (str_field ''eventId'' ` set es) e"
  by (auto simp: chain_valid_def nth_append less_Suc_eq)

lemma chain_valid_nth:
  "chain_valid H a n es \<Longrightarrow> i < length es \<Longrightarrow>
     isWellFormed (es ! i) \<and> int_field ''sequence'' (es ! i) = n + int i \<and>
     str_field ''hash'' (es ! i) = computeEventHash H (es ! i)"
  by (auto simp: chain_valid_def link_ok_def)

section \<open>The walk computes the specification\<close>

lemma inherited_not_registered:
  "map_of object_prototype ty = Some x \<Longrightarrow> map_of LEDGER_EVENT_TYPES ty = None"
  by (auto simp: object_prototype_def LEDGER_EVENT_TYPES_def split: if_splits)

lemma type_failures_Nil:
  "type_failures e = [] \<longleftrightarrow>
     map_of LEDGER_EVENT_TYPES (str_field ''type'' e) = Some (str_field ''category'' e)"
  by (auto simp: type_failures_def Let_def split: option.splits)

lemma event_failures_Nil:
  "isWellFormed e \<Longrightarrow> event_failures H st e = [] \<longleftrightarrow>
     link_ok H (vs_previousHash st) (vs_expectedSequence st) (vs_previousRecordedAt st)
       (set (vs_seenIds st)) e"
  by (auto simp: event_failures_def link_ok_def Let_def type_failures_Nil split: option.splits)

lemma verify_event_failures_Nil:
  "vs_failures (verify_event H st e) = [] \<longleftrightarrow> vs_failures st = [] \<and>
     link_ok H (vs_previousHash st) (vs_expectedSequence st) (vs_previousRecordedAt st)
       (set (vs_seenIds st)) e"
  by (auto simp: verify_event_def event_failures_Nil) (simp_all add: link_ok_def)

text \<open>The loop variables after a walk that found nothing.\<close>

definition walked :: "VerifyOptions \<Rightarrow> JsonValue list \<Rightarrow> verify_state \<Rightarrow> bool" where
  "walked opts es st \<longleftrightarrow>
     vs_previousHash st = chain_head (anchor_of opts) es \<and>
     vs_expectedSequence st = start_of opts + int (length es) \<and>
     vs_previousRecordedAt st = last_recorded es \<and>
     set (vs_seenIds st) = str_field ''eventId'' ` set es \<and>
     (\<forall>k. map_of (vs_bySequence st) k =
        (if start_of opts \<le> k \<and> k < start_of opts + int (length es)
         then Some (es ! nat (k - start_of opts)) else None))"

lemma walked_Nil: "walked opts [] (verify_init opts)"
  by (simp add: walked_def verify_init_def chain_head_def last_recorded_def)

lemma walked_snoc:
  assumes "walked opts es st" "isWellFormed e"
    "int_field ''sequence'' e = start_of opts + int (length es)"
  shows "walked opts (es @ [e]) (verify_event H st e)"
  using assms
  by (auto simp: walked_def verify_event_def chain_head_def last_recorded_def map_of_js_set
      nth_append nat_less_iff)

lemma walk_events:
  fixes es opts H
  defines "st \<equiv> foldl (verify_event H) (verify_init opts) es"
  shows "vs_failures st = [] \<longleftrightarrow> chain_valid H (anchor_of opts) (start_of opts) es"
    and "chain_valid H (anchor_of opts) (start_of opts) es \<Longrightarrow> walked opts es st"
proof -
  let ?valid = "chain_valid H (anchor_of opts) (start_of opts)"
  have "(vs_failures (foldl (verify_event H) (verify_init opts) es) = [] \<longleftrightarrow> ?valid es) \<and>
    (?valid es \<longrightarrow> walked opts es (foldl (verify_event H) (verify_init opts) es))"
  proof (induction es rule: rev_induct)
    case Nil
    show ?case by (simp add: walked_Nil) (simp add: verify_init_def)
  next
    case (snoc e es)
    let ?st = "foldl (verify_event H) (verify_init opts) es"
    have "?valid es \<Longrightarrow> vs_failures (verify_event H ?st e) = [] \<longleftrightarrow> ?valid (es @ [e])"
      using snoc.IH by (auto simp: verify_event_failures_Nil chain_valid_snoc walked_def)
    moreover have "?valid (es @ [e]) \<Longrightarrow> walked opts (es @ [e]) (verify_event H ?st e)"
      using snoc.IH by (intro walked_snoc) (auto simp: chain_valid_snoc link_ok_def)
    ultimately show ?case
      using snoc.IH by (auto simp: verify_event_failures_Nil chain_valid_snoc)
  qed
  then show "vs_failures st = [] \<longleftrightarrow> ?valid es" "?valid es \<Longrightarrow> walked opts es st"
    by (auto simp: st_def)
qed

lemma jget_str_field: "is_string (jget k e) \<Longrightarrow> jget k e = Some (JStr (str_field k e))"
  by (auto simp: is_string_def str_field_def split: option.splits JsonValue.splits)

lemma jget_int_field: "is_number (jget k e) \<Longrightarrow> jget k e = Some (JNum (int_field k e))"
  by (auto simp: is_number_def int_field_def split: option.splits JsonValue.splits)

lemma chain_valid_last:
  assumes "chain_valid H a n es" "es \<noteq> []"
  shows "jget ''sequence'' (last es) = Some (JNum (n + int (length es) - 1))"
    and "jget ''hash'' (last es) = Some (JStr (chain_head a es))"
proof -
  from assms(2) have i: "length es - 1 < length es" "es ! (length es - 1) = last es"
    by (simp_all add: last_conv_nth)
  have n: "int_field ''sequence'' (last es) = n + int (length es) - 1"
    using chain_valid_nth [OF assms(1) i(1)] i(2) assms(2) by (simp add: of_nat_diff Suc_leI)
  have "is_number (jget ''sequence'' (last es))" "is_string (jget ''hash'' (last es))"
    using chain_valid_nth [OF assms(1) i(1)] i(2) unfolding isWellFormed_def by simp_all
  from jget_int_field [OF this(1)] jget_str_field [OF this(2)] n assms(2)
  show "jget ''sequence'' (last es) = Some (JNum (n + int (length es) - 1))"
    "jget ''hash'' (last es) = Some (JStr (chain_head a es))"
    by (simp_all only: chain_head_def if_False)
qed

lemma not_isWellFormed_JNull [simp]: "\<not> isWellFormed JNull"
  by (simp add: isWellFormed_def is_object_def)

lemma chain_valid_not_null:
  assumes "chain_valid H a n es" "e \<in> set es"
  shows "e \<noteq> JNull"
  using assms(2) chain_valid_nth [OF assms(1)] by (metis in_set_conv_nth not_isWellFormed_JNull)

lemma verify_checkpoint_ok:
  assumes "chain_valid H (anchor_of opts) (start_of opts) es" "walked opts es st"
  shows "verify_checkpoint H opts (vs_bySequence st) (lastSequence_of es) c = Inr [] \<longleftrightarrow>
    checkpoint_valid H opts (start_of opts) es c"
  using assms chain_valid_last(1) [OF assms(1)]
  by (cases "es = []")
     (auto simp: verify_checkpoint_def checkpoint_valid_def walked_def lastSequence_of_def Let_def
        num_gt_def split: mac_check.splits)

lemma verify_checkpoints_ok:
  assumes "chain_valid H (anchor_of opts) (start_of opts) es" "walked opts es st"
  shows "verify_checkpoints H opts (vs_bySequence st) (lastSequence_of es) cs = Inr [] \<longleftrightarrow>
    (\<forall>c\<in>set cs. checkpoint_valid H opts (start_of opts) es c)"
  by (induction cs)
     (auto simp flip: verify_checkpoint_ok [OF assms] split: sum.splits)

lemma head_failures_ok:
  assumes "chain_valid H (anchor_of opts) (start_of opts) es"
  shows "head_failures opts es = [] \<longleftrightarrow>
     (\<forall>h. vo_expectedHeadHash opts = Some h \<longrightarrow> h = chain_head (anchor_of opts) es) \<and>
     (\<forall>n. vo_expectedLastSequence opts = Some n \<longrightarrow>
        n = (if es = [] then 0 else start_of opts + int (length es) - 1))"
  using chain_valid_last [OF assms]
  by (cases "es = []")
     (auto simp: head_failures_def lastSequence_of_def headHash_of_def chain_head_def or_zero_def
        Let_def split: option.splits)

lemma verify_ok_iff_valid:
  "(\<exists>r. verifyLedgerEvents H es opts = Inr r \<and> rp_ok r) \<longleftrightarrow> ledger_valid H opts es"
proof (cases "chain_valid H (anchor_of opts) (start_of opts) es")
  case True
  then have nn: "\<not> (es \<noteq> [] \<and> (hd es = JNull \<or> last es = JNull))"
    using chain_valid_not_null by (metis hd_in_set last_in_set)
  note w = walk_events(2) [OF True]
  let ?cs = "case vo_checkpoints opts of None \<Rightarrow> [] | Some cs \<Rightarrow> cs"
  have "(\<exists>r. verifyLedgerEvents H es opts = Inr r \<and> rp_ok r) \<longleftrightarrow>
      verify_checkpoints H opts (vs_bySequence (foldl (verify_event H) (verify_init opts) es))
        (lastSequence_of es) ?cs = Inr [] \<and> head_failures opts es = []"
    using nn True walk_events(1) [of H opts es]
    by (auto simp: verifyLedgerEvents_def Let_def split: sum.splits)
  with True show ?thesis
    by (simp add: verify_checkpoints_ok [OF True w] head_failures_ok [OF True] ledger_valid_def)
next
  case False
  then have "vs_failures (foldl (verify_event H) (verify_init opts) es) \<noteq> []"
    using walk_events(1) by blast
  with False show ?thesis
    by (auto simp: verifyLedgerEvents_def ledger_valid_def Let_def split: sum.splits if_splits)
qed

section \<open>What a head hash commits to\<close>

lemma map_of_canonical_hashed:
  assumes "k \<in> set hashed_fields"
  shows "canonicalize (hashed_content e) = JObj kvs \<Longrightarrow>
    map_of kvs k = Some (canonicalize (null_field k e))"
proof -
  let ?l = "map (\<lambda>k. (k, null_field k e)) hashed_fields"
  have d: "distinct (map fst (map (map_prod id canonicalize) ?l))"
    by (simp add: hashed_fields_def)
  have p: "proto_key \<notin> fst ` set (map (map_prod id canonicalize) ?l)"
    by (simp add: hashed_fields_def proto_key_def)
  assume "canonicalize (hashed_content e) = JObj kvs"
  then have "kvs = canonical_entries (map (map_prod id canonicalize) ?l)"
    by (simp add: hashed_content_def)
  then have "map_of kvs k = map_option canonicalize (map_of ?l k)"
    using map_of_canonical_entries [OF d p] by (simp only: map_of_map_members)
  with assms show ?thesis by (simp add: map_of_map_restrict)
qed

lemma preimage_fields:
  assumes "event_preimage e = event_preimage e'" "k \<in> set hashed_fields"
  shows "canonicalize (null_field k e) = canonicalize (null_field k e')"
proof -
  have eq: "canonicalize (hashed_content e) = canonicalize (hashed_content e')"
    using assms(1) by (simp add: event_preimage_def stableStringify_eq_iff)
  obtain kvs where kvs: "canonicalize (hashed_content e) = JObj kvs"
    by (simp add: hashed_content_def)
  with map_of_canonical_hashed [OF assms(2), of e kvs]
    map_of_canonical_hashed [OF assms(2), of e' kvs] eq show ?thesis by simp
qed

lemma link_ok_fields:
  assumes "link_ok H prev n before ids e"
  shows "null_field ''sequence'' e = JNum n" "null_field ''previousHash'' e = JStr prev"
    "str_field ''hash'' e = computeEventHash H e"
proof -
  from assms have "is_number (jget ''sequence'' e)" "is_string (jget ''previousHash'' e)"
    by (simp_all add: link_ok_def isWellFormed_def)
  from jget_int_field [OF this(1)] jget_str_field [OF this(2)] assms
  show "null_field ''sequence'' e = JNum n" "null_field ''previousHash'' e = JStr prev"
    "str_field ''hash'' e = computeEventHash H e"
    by (simp_all add: null_field_def link_ok_def)
qed

definition collision :: "host \<Rightarrow> JsonValue list \<Rightarrow> JsonValue list \<Rightarrow> bool" where
  "collision H es es' \<longleftrightarrow> (\<exists>e\<in>set es. \<exists>e'\<in>set es'.
     event_preimage e \<noteq> event_preimage e' \<and> computeEventHash H e = computeEventHash H e')"

lemma head_commits_to_preimages:
  assumes "chain_valid H a n es" "chain_valid H a n es'" "chain_head a es = chain_head a es'"
    "es \<noteq> []" "es' \<noteq> []" "\<not> collision H es es'"
  shows "map event_preimage es = map event_preimage es'"
  using assms
proof (induction es arbitrary: es' rule: rev_induct)
  case (snoc e es)
  from snoc.prems(5) obtain fs f where es': "es' = fs @ [f]" by (cases es' rule: rev_cases) auto
  note e = snoc.prems(1) [unfolded chain_valid_snoc, THEN conjunct2]
    and f = snoc.prems(2) [unfolded es' chain_valid_snoc, THEN conjunct2]
  have "computeEventHash H e = computeEventHash H f"
    using snoc.prems(3) es' link_ok_fields(3) [OF e] link_ok_fields(3) [OF f]
    by (simp add: chain_head_def)
  with snoc.prems(6) es' have pre: "event_preimage e = event_preimage f"
    by (auto simp: collision_def)
  have len: "length es = length fs"
    using preimage_fields [OF pre, of "''sequence''"] link_ok_fields(1) [OF e] link_ok_fields(1) [OF f]
    by (simp add: hashed_fields_def)
  moreover have "chain_head a es = chain_head a fs"
    using preimage_fields [OF pre, of "''previousHash''"] link_ok_fields(2) [OF e]
      link_ok_fields(2) [OF f] by (simp add: hashed_fields_def)
  moreover have "chain_valid H a n es" "chain_valid H a n fs"
    using snoc.prems(1,2) es' by (simp_all add: chain_valid_snoc)
  moreover have "\<not> collision H es fs" using snoc.prems(6) es' by (auto simp: collision_def)
  ultimately have "map event_preimage es = map event_preimage fs"
    using snoc.IH [of fs] len by (cases "es = []"; cases "fs = []") auto
  with pre es' show ?case by simp
qed simp

lemma jget_in_object: "jget k e = Some v \<Longrightarrow> \<exists>kvs. e = JObj kvs \<and> (k, v) \<in> set kvs"
  by (cases e) (auto dest: map_of_SomeD)

lemma hashed_content_ok: "json_ok e \<Longrightarrow> json_ok (hashed_content e)"
proof -
  assume "json_ok e"
  then have "json_ok (null_field k e)" for k
    by (fastforce simp: null_field_def list_all_iff split: option.splits dest!: jget_in_object)
  then show ?thesis by (simp add: hashed_content_def hashed_fields_def)
qed

lemma hashed_content_proto_free: "proto_free e \<Longrightarrow> proto_free (hashed_content e)"
proof -
  assume "proto_free e"
  then have "proto_free (null_field k e)" for k
    by (fastforce simp: null_field_def list_all_iff split: option.splits dest!: jget_in_object)
  then show ?thesis by (simp add: hashed_content_def hashed_fields_def proto_key_def)
qed

lemma preimage_meaning:
  assumes "json_ok e \<and> proto_free e" "json_ok e' \<and> proto_free e'"
    "event_preimage e = event_preimage e'"
  shows "meaning (hashed_content e) = meaning (hashed_content e')"
  using assms meaning_canonicalize [of "hashed_content e"] meaning_canonicalize [of "hashed_content e'"]
  by (simp add: event_preimage_def stableStringify_eq_iff hashed_content_ok hashed_content_proto_free)

lemma verified_head:
  assumes "verifyLedgerEvents H es opts = Inr r" "rp_ok r"
  shows "chain_valid H (anchor_of opts) (start_of opts) es"
    "rp_headHash r = Some (JStr (chain_head (anchor_of opts) es))"
proof -
  show valid: "chain_valid H (anchor_of opts) (start_of opts) es"
    using assms verify_ok_iff_valid [of H es opts] by (auto simp: ledger_valid_def)
  from assms(1) have "rp_headHash r = headHash_of opts es"
    by (auto simp: verifyLedgerEvents_def Let_def split: if_splits sum.splits)
  with chain_valid_last(2) [OF valid] show "rp_headHash r = Some (JStr (chain_head (anchor_of opts) es))"
    by (simp add: headHash_of_def chain_head_def)
qed

section \<open>Accepted payloads\<close>

primrec no_secrets :: "unknown \<Rightarrow> bool" where
  "no_secrets UUndefined = True"
| "no_secrets UNull = True"
| "no_secrets (UBool b) = True"
| "no_secrets (UNum i) = True"
| "no_secrets UNonFinite = True"
| "no_secrets (UStr s) = True"
| "no_secrets (UArr xs) = list_all id (map no_secrets xs)"
| "no_secrets (UPlain kvs) =
     list_all (\<lambda>m. \<not> isSensitiveKey (fst m) \<and> snd m) (map (map_prod id no_secrets) kvs)"
| "no_secrets (UForeign t) = True"

lemma first_error_ok: "first_error rs = Inr () \<longleftrightarrow> (\<forall>r\<in>set rs. r = Inr ())"
  by (induction rs rule: first_error.induct) auto

lemma those_None_iff: "those xs = None \<longleftrightarrow> None \<in> set xs"
  by (induction xs) (auto split: option.splits)

lemma walk_ok: "walk v path = Inr () \<longleftrightarrow> json_of v \<noteq> None \<and> no_secrets v"
proof (induction v arbitrary: path)
  case (UArr xs)
  have "walk (UArr xs) path = Inr () \<longleftrightarrow>
      (\<forall>i<length xs. walk (xs ! i) (path @ ''['' @ nat_str i @ '']'') = Inr ())"
    unfolding walk.simps first_error_ok all_set_conv_all_nth by simp
  also have "\<dots> \<longleftrightarrow> (\<forall>x\<in>set xs. json_of x \<noteq> None \<and> no_secrets x)"
    using UArr.IH by (simp add: all_set_conv_all_nth del: not_None_eq)
  finally show ?case by (force simp: those_None_iff list_all_iff simp del: walk.simps)
next
  case (UPlain kvs)
  have ih: "walk (snd m) p = Inr () \<longleftrightarrow> json_of (snd m) \<noteq> None \<and> no_secrets (snd m)"
    if "m \<in> set kvs" for m p
    using UPlain.IH that by (auto simp: snds.simps)
  have "walk (UPlain kvs) path = Inr () \<longleftrightarrow>
      (\<forall>m\<in>set kvs. \<not> isSensitiveKey (fst m) \<and> walk (snd m) (path @ ''.'' @ fst m) = Inr ())"
    unfolding walk.simps first_error_ok by (simp add: split_beta) blast
  also have "\<dots> \<longleftrightarrow>
      (\<forall>m\<in>set kvs. \<not> isSensitiveKey (fst m) \<and> json_of (snd m) \<noteq> None \<and> no_secrets (snd m))"
    using ih by blast
  also have "\<dots> \<longleftrightarrow> json_of (UPlain kvs) \<noteq> None \<and> no_secrets (UPlain kvs)"
    unfolding json_of.simps no_secrets.simps option.map_disc_iff those_None_iff
    by (simp add: list_all_iff split_beta image_iff) (metis option.exhaust)
  finally show ?case .
qed auto

section \<open>Properties\<close>

text \<open>
  C3. Verification is exact. \<open>verifyLedgerEvents\<close> returns a report with \<open>ok\<close> set
  if and only if the events form a valid chain from the anchor (every event well
  formed, of the supported schema, numbered without a gap, naming its
  predecessor's hash, carrying its own content hash, of a registered type and
  category, with a fresh identifier and a recording time that does not go back),
  every checkpoint agrees with that chain under a known key, and the chain ends
  at the expected head.
\<close>

theorem verification_exact:
  "(\<exists>r. verifyLedgerEvents H es opts = Inr r \<and> rp_ok r) \<longleftrightarrow> ledger_valid H opts es"
  by (rule verify_ok_iff_valid)


lemma verify_checkpoints_throws:
  "(\<exists>e. verify_checkpoints H opts m n cs = Inl e) \<longleftrightarrow> (\<exists>c\<in>set cs. check_mac H opts c = MacThrows)"
  by (induction cs)
     (auto simp: verify_checkpoint_def Let_def split: sum.splits mac_check.splits option.splits)


end
