(* ===== verification/Event_Ledger.thy ===== *)
theory Event_Ledger
  imports Ledger_Chain
begin

text \<open>
  The event ledger service: \<open>api/src/ledger/event-ledger.service.ts\<close> over the
  \<open>LedgerStore\<close> interface of \<open>api/src/ledger/ledger.store.ts\<close> and its in-memory
  implementation.

  Every public operation runs inside \<open>enqueue\<close>, which chains it behind the previous
  one whether that one failed or not, so operations are atomic state transformers
  applied in call order; a run is a fold over a list of operations. The store is a
  record of functions on an arbitrary storage state; each may fail. Random event
  identifiers and clock readings are arguments of the operations, the process
  environment is the record \<open>ledger_env\<close>. Deep copies through
  \<open>JSON.parse(JSON.stringify(v))\<close> are the identity on JSON values.
\<close>

section \<open>The store interface\<close>

record 's LedgerStore =
  init_op :: "'s \<Rightarrow> (string + unit) \<times> 's"
  appendEvent_op :: "JsonValue \<Rightarrow> 's \<Rightarrow> (string + unit) \<times> 's"
  loadEvents_op :: "'s \<Rightarrow> (string + JsonValue list) \<times> 's"
  appendCheckpoint_op :: "LedgerCheckpoint \<Rightarrow> 's \<Rightarrow> (string + unit) \<times> 's"
  loadCheckpoints_op :: "'s \<Rightarrow> (string + LedgerCheckpoint list) \<times> 's"

text \<open>The in-memory store. Stored events have integer sequence numbers.\<close>

record InMemoryLedgerStore =
  im_events :: "JsonValue list"
  im_checkpoints :: "LedgerCheckpoint list"

definition im_appendEvent ::
  "JsonValue \<Rightarrow> InMemoryLedgerStore \<Rightarrow> (string + unit) \<times> InMemoryLedgerStore" where
  "im_appendEvent event s =
     (if \<exists>e\<in>set (im_events s). jget ''sequence'' e = jget ''sequence'' event
      then (Inl (''ledger sequence '' @ int_str (int_field ''sequence'' event) @ '' already exists''), s)
      else (Inr (), s\<lparr>im_events := im_events s @ [event]\<rparr>))"

definition im_loadEvents :: "InMemoryLedgerStore \<Rightarrow> (string + JsonValue list) \<times> InMemoryLedgerStore" where
  "im_loadEvents s = (Inr (sort_key (int_field ''sequence'') (im_events s)), s)"

definition im_appendCheckpoint ::
  "LedgerCheckpoint \<Rightarrow> InMemoryLedgerStore \<Rightarrow> (string + unit) \<times> InMemoryLedgerStore" where
  "im_appendCheckpoint c s = (Inr (), s\<lparr>im_checkpoints := im_checkpoints s @ [c]\<rparr>)"

definition im_loadCheckpoints ::
  "InMemoryLedgerStore \<Rightarrow> (string + LedgerCheckpoint list) \<times> InMemoryLedgerStore" where
  "im_loadCheckpoints s = (Inr (im_checkpoints s), s)"

definition in_memory :: "InMemoryLedgerStore LedgerStore" where
  "in_memory = \<lparr>init_op = (\<lambda>s. (Inr (), s)), appendEvent_op = im_appendEvent,
     loadEvents_op = im_loadEvents, appendCheckpoint_op = im_appendCheckpoint,
     loadCheckpoints_op = im_loadCheckpoints\<rparr>"

text \<open>
  Storage that fails: a schedule decides for each call whether it works, is lost, or
  takes effect although the caller sees an error (a timeout after the commit). With
  the empty schedule this is the in-memory store.
\<close>

datatype fault = Works | Lost | ReplyLost

type_synonym flaky_storage = "InMemoryLedgerStore \<times> fault list"

definition with_fault ::
  "(InMemoryLedgerStore \<Rightarrow> (string + 'r) \<times> InMemoryLedgerStore) \<Rightarrow>
   flaky_storage \<Rightarrow> (string + 'r) \<times> flaky_storage" where
  "with_fault f s =
     (let (r, m) = f (fst s) in
      case snd s of
        [] \<Rightarrow> (r, (m, []))
      | Works # fs \<Rightarrow> (r, (m, fs))
      | Lost # fs \<Rightarrow> (Inl ''connection lost'', (fst s, fs))
      | ReplyLost # fs \<Rightarrow> (Inl ''timeout'', (m, fs)))"

definition flaky :: "flaky_storage LedgerStore" where
  "flaky = \<lparr>init_op = with_fault (init_op in_memory),
     appendEvent_op = (\<lambda>e. with_fault (appendEvent_op in_memory e)),
     loadEvents_op = with_fault (loadEvents_op in_memory),
     appendCheckpoint_op = (\<lambda>c. with_fault (appendCheckpoint_op in_memory c)),
     loadCheckpoints_op = with_fault (loadCheckpoints_op in_memory)\<rparr>"

section \<open>Configuration\<close>

definition MAX_LEDGER_EVENTS :: nat where
  "MAX_LEDGER_EVENTS = 100000"

definition MAX_EXPORT_EVENTS :: int where
  "MAX_EXPORT_EVENTS = 10000"

definition MAX_FIELD_LENGTH :: nat where
  "MAX_FIELD_LENGTH = 256"

definition MIN_CHECKPOINT_KEY_LENGTH :: nat where
  "MIN_CHECKPOINT_KEY_LENGTH = 32"

text \<open>
  \<open>checkpointInterval\<close> is the value the constructor computed with \<open>positiveInt\<close>; the
  other fields are the raw environment variables, empty when unset.
\<close>

record ledger_env =
  LEDGER_CHECKPOINT_KEY :: string
  LEDGER_CHECKPOINT_KEY_ID :: string
  LEDGER_CHECKPOINT_RETIRED_KEYS :: string
  LEDGER_CHECKPOINT_LOST_KEY_IDS :: string
  checkpointInterval :: int

fun split_char :: "char \<Rightarrow> string \<Rightarrow> string list" where
  "split_char c [] = [[]]"
| "split_char c (x # xs) =
     (if x = c then [] # split_char c xs
      else case split_char c xs of [] \<Rightarrow> [[x]] | p # ps \<Rightarrow> (x # p) # ps)"

definition checkpointKey :: "ledger_env \<Rightarrow> string option" where
  "checkpointKey env =
     (if length (LEDGER_CHECKPOINT_KEY env) \<ge> MIN_CHECKPOINT_KEY_LENGTH
      then Some (LEDGER_CHECKPOINT_KEY env) else None)"

definition checkpointKeyId :: "ledger_env \<Rightarrow> string" where
  "checkpointKeyId env =
     (if LEDGER_CHECKPOINT_KEY_ID env = [] then ''v1'' else LEDGER_CHECKPOINT_KEY_ID env)"

text \<open>\<open>keys[k] = v\<close> on a plain object: assigning a string to \<open>__proto__\<close> has no effect.\<close>

definition assign_key :: "string \<Rightarrow> string \<Rightarrow> (string \<times> string) list \<Rightarrow> (string \<times> string) list" where
  "assign_key k v keys = (if k = proto_key then keys else js_set k v keys)"

definition add_retired :: "(string \<times> string) list \<Rightarrow> string \<Rightarrow> (string \<times> string) list" where
  "add_retired keys pair =
     (let key_id = takeWhile (\<lambda>c. c \<noteq> CHR '':'') pair in
      if key_id \<noteq> [] \<and> CHR '':'' \<in> set pair
      then assign_key (js_trim key_id) (js_trim (drop (length key_id + 1) pair)) keys else keys)"

definition verificationKeys :: "ledger_env \<Rightarrow> (string \<times> string) list option" where
  "verificationKeys env =
     (let retired = foldl add_retired [] (split_char (CHR '','') (LEDGER_CHECKPOINT_RETIRED_KEYS env));
          keys = (case checkpointKey env of None \<Rightarrow> retired
                  | Some current \<Rightarrow> assign_key (checkpointKeyId env) current retired)
      in if keys = [] then None else Some keys)"

definition lostKeyIds :: "ledger_env \<Rightarrow> string list" where
  "lostKeyIds env =
     filter (\<lambda>i. i \<noteq> []) (map js_trim (split_char (CHR '','') (LEDGER_CHECKPOINT_LOST_KEY_IDS env)))"

section \<open>The service\<close>

datatype ledger_error = StoreError string | VerifierError chain_error | LedgerSealedError string
  | BadRequestException string | ServiceUnavailableException string

record 's EventLedgerService =
  el_store :: 's
  el_events :: "JsonValue list"
  el_checkpoints :: "LedgerCheckpoint list"
  el_loaded :: bool
  el_needsReload :: bool
  el_sealedReason :: "string option"
  el_appendFailures :: nat

definition new_service :: "'s \<Rightarrow> 's EventLedgerService" where
  "new_service s = \<lparr>el_store = s, el_events = [], el_checkpoints = [], el_loaded = False,
     el_needsReload = False, el_sealedReason = None, el_appendFailures = 0\<rparr>"

fun reason_str :: "LedgerFailureReason \<Rightarrow> string" where
  "reason_str UnsupportedSchemaVersion = ''unsupported schema version''"
| "reason_str SequenceBreak = ''sequence break''"
| "reason_str PreviousHashMismatch = ''previous hash mismatch''"
| "reason_str ContentHashMismatch = ''content hash mismatch''"
| "reason_str RecordedAtWentBackwards = ''recordedAt went backwards''"
| "reason_str UnknownEventType = ''unknown event type''"
| "reason_str CategoryMismatch = ''category mismatch''"
| "reason_str DuplicateEventId = ''duplicate event id''"
| "reason_str CheckpointMacInvalid = ''checkpoint mac invalid''"
| "reason_str CheckpointDoesNotMatchEvent = ''checkpoint does not match event''"
| "reason_str CheckpointBeyondLedgerHead = ''checkpoint beyond ledger head''"
| "reason_str HeadMismatch = ''head mismatch''"
| "reason_str ExportBodyDigestMismatch = ''export body digest mismatch''"
| "reason_str ExportManifestMismatch = ''export manifest mismatch''"
| "reason_str MalformedEvent = ''malformed event''"

definition interpolate :: "JsonValue option \<Rightarrow> string" where
  "interpolate v = (case v of None \<Rightarrow> ''undefined'' | Some x \<Rightarrow> js_String x)"

definition sealed_message :: "LedgerVerificationReport \<Rightarrow> string" where
  "sealed_message r = (let f = hd (rp_failures r) in
     ''stored chain failed verification at sequence '' @ interpolate (vf_sequence f) @ '': '' @
     reason_str (vf_reason f) @ '' ('' @ nat_str (length (rp_failures r)) @ '' failure(s))'')"

definition load_options :: "ledger_env \<Rightarrow> LedgerCheckpoint list \<Rightarrow> VerifyOptions" where
  "load_options env cps = no_options\<lparr>vo_checkpoints := Some cps,
     vo_checkpointKeys := verificationKeys env, vo_lostKeyIds := Some (lostKeyIds env)\<rparr>"

text \<open>\<open>Promise.all\<close> starts both loads; the first rejection is the result.\<close>

definition load_both ::
  "'s LedgerStore \<Rightarrow> 's \<Rightarrow> (string + JsonValue list \<times> LedgerCheckpoint list) \<times> 's" where
  "load_both ops s =
     (let (res, s1) = loadEvents_op ops s; (rcs, s2) = loadCheckpoints_op ops s1 in
      case res of
        Inl e \<Rightarrow> (Inl e, s2)
      | Inr es \<Rightarrow> (case rcs of Inl e \<Rightarrow> (Inl e, s2) | Inr cs \<Rightarrow> (Inr (es, cs), s2)))"

definition load ::
  "host \<Rightarrow> ledger_env \<Rightarrow> 's LedgerStore \<Rightarrow> 's EventLedgerService \<Rightarrow>
   (ledger_error + unit) \<times> 's EventLedgerService" where
  "load H env ops sv =
     (case init_op ops (el_store sv) of
        (Inl e, s) \<Rightarrow> (Inl (StoreError e), sv\<lparr>el_store := s\<rparr>)
      | (Inr _, s) \<Rightarrow>
          (case load_both ops s of
             (Inl e, s') \<Rightarrow> (Inl (StoreError e), sv\<lparr>el_store := s'\<rparr>)
           | (Inr (es, cps), s') \<Rightarrow>
               (case verifyLedgerEvents H es (load_options env cps) of
                  Inl e \<Rightarrow> (Inl (VerifierError e), sv\<lparr>el_store := s'\<rparr>)
                | Inr report \<Rightarrow>
                    (Inr (), sv\<lparr>el_store := s', el_events := es, el_checkpoints := cps,
                       el_sealedReason := (if rp_ok report then None
                                           else Some (sealed_message report))\<rparr>))))"

definition ensureLoaded ::
  "host \<Rightarrow> ledger_env \<Rightarrow> 's LedgerStore \<Rightarrow> 's EventLedgerService \<Rightarrow>
   (ledger_error + unit) \<times> 's EventLedgerService" where
  "ensureLoaded H env ops sv =
     (let sv1 = (if el_needsReload sv then sv\<lparr>el_needsReload := False, el_loaded := False\<rparr> else sv) in
      if el_loaded sv1 then (Inr (), sv1)
      else case load H env ops sv1 of
             (Inl e, sv2) \<Rightarrow> (Inl e, sv2\<lparr>el_loaded := False\<rparr>)
           | (Inr _, sv2) \<Rightarrow> (Inr (), sv2\<lparr>el_loaded := True\<rparr>))"

definition head_of :: "'s EventLedgerService \<Rightarrow> int \<times> string" where
  "head_of sv = (if el_events sv = [] then (0, LEDGER_GENESIS_HASH)
     else (int_field ''sequence'' (last (el_events sv)), str_field ''hash'' (last (el_events sv))))"

subsection \<open>Validation\<close>

text \<open>
  The typed input of \<open>append\<close>. An absent payload (\<open>undefined\<close> or \<open>null\<close>) stands for
  the empty object; \<open>None\<close> in the other optional fields is \<open>undefined\<close>.
\<close>

record LedgerEventInput =
  li_type :: string
  li_actor :: string
  li_subjectType :: string
  li_subjectId :: string
  li_payload :: "unknown option"
  li_correlationId :: "string option"
  li_occurredAt :: "string option"

record validated_input =
  vi_payload :: JsonValue
  vi_occurredAt :: "string option"

definition bad_field :: "string \<Rightarrow> bool" where
  "bad_field v \<longleftrightarrow> js_trim v = [] \<or> length v > MAX_FIELD_LENGTH"

definition field_message :: "string \<Rightarrow> string" where
  "field_message f = f @ '' must be a non-empty string of at most '' @
     nat_str MAX_FIELD_LENGTH @ '' chars''"

definition validate_payload :: "LedgerEventInput \<Rightarrow> string + JsonValue" where
  "validate_payload i =
     (let payload = (case li_payload i of None \<Rightarrow> UPlain [] | Some p \<Rightarrow> p) in
      case assertLedgerPayload payload of
        Inl e \<Rightarrow> Inl e
      | Inr _ \<Rightarrow> Inr (case json_of payload of None \<Rightarrow> JNull | Some j \<Rightarrow> j))"

definition validate :: "host \<Rightarrow> LedgerEventInput \<Rightarrow> string + validated_input" where
  "validate H i =
     (if map_of LEDGER_EVENT_TYPES (li_type i) = None
      then Inl (''unknown ledger event type: '' @ li_type i)
      else if bad_field (li_actor i) then Inl (field_message ''actor'')
      else if bad_field (li_subjectType i) then Inl (field_message ''subjectType'')
      else if bad_field (li_subjectId i) then Inl (field_message ''subjectId'')
      else if (case li_correlationId i of None \<Rightarrow> False | Some c \<Rightarrow> length c > MAX_FIELD_LENGTH)
      then Inl ''correlationId must be a string''
      else
        (case (case li_occurredAt i of None \<Rightarrow> Some None
               | Some at0 \<Rightarrow> map_option (\<lambda>ms. Some (toISOString ms))
                               (Date_parse (legacy_date_parse H) at0)) of
           None \<Rightarrow> Inl ''occurredAt must be an ISO-8601 timestamp''
         | Some occurredAt \<Rightarrow>
             (case validate_payload i of
                Inl e \<Rightarrow> Inl e
              | Inr j \<Rightarrow> Inr \<lparr>vi_payload = j, vi_occurredAt = occurredAt\<rparr>)))"

subsection \<open>Appending\<close>

text \<open>Two clock readings and an identifier, as one append consumes them.\<close>

record tick =
  tk_now :: instant
  tk_uuid :: string
  tk_checkpoint_now :: instant

definition new_checkpoint ::
  "host \<Rightarrow> ledger_env \<Rightarrow> string \<Rightarrow> instant \<Rightarrow> JsonValue \<Rightarrow> LedgerCheckpoint" where
  "new_checkpoint H env key now lst =
     (let base = \<lparr>cp_sequence = int_field ''sequence'' lst, cp_hash = str_field ''hash'' lst,
            cp_recordedAt = str_field ''recordedAt'' lst, cp_createdAt = toISOString now,
            cp_keyId = checkpointKeyId env, cp_mac = []\<rparr>
      in base\<lparr>cp_mac := computeCheckpointMac H base key\<rparr>)"

definition checkpointNow ::
  "host \<Rightarrow> ledger_env \<Rightarrow> 's LedgerStore \<Rightarrow> instant \<Rightarrow> 's EventLedgerService \<Rightarrow>
   (ledger_error + LedgerCheckpoint) \<times> 's EventLedgerService" where
  "checkpointNow H env ops now sv =
     (case checkpointKey env of
        None \<Rightarrow> (Inl (ServiceUnavailableException ''checkpointing disabled (LEDGER_CHECKPOINT_KEY)''), sv)
      | Some key \<Rightarrow>
          (if el_events sv = []
           then (Inl (BadRequestException ''cannot checkpoint an empty ledger''), sv)
           else
             (let lst = last (el_events sv) in
              case find (\<lambda>c. cp_sequence c = int_field ''sequence'' lst) (el_checkpoints sv) of
                Some existing \<Rightarrow> (Inr existing, sv)
              | None \<Rightarrow>
                  (let checkpoint = new_checkpoint H env key now lst
                   in case appendCheckpoint_op ops checkpoint (el_store sv) of
                        (Inl e, s) \<Rightarrow> (Inl (StoreError e), sv\<lparr>el_store := s\<rparr>)
                      | (Inr _, s) \<Rightarrow>
                          (Inr checkpoint,
                           sv\<lparr>el_store := s, el_checkpoints := el_checkpoints sv @ [checkpoint]\<rparr>)))))"

definition unhashed_fields ::
  "LedgerEventInput \<Rightarrow> validated_input \<Rightarrow> int \<times> string \<Rightarrow> string \<Rightarrow> string \<Rightarrow>
   (string \<times> JsonValue) list" where
  "unhashed_fields i v head uuid recordedAt =
     [(''schemaVersion'', JNum LEDGER_SCHEMA_VERSION), (''sequence'', JNum (fst head + 1)),
      (''eventId'', JStr uuid),
      (''category'', JStr (case map_of LEDGER_EVENT_TYPES (li_type i) of None \<Rightarrow> [] | Some c \<Rightarrow> c)),
      (''type'', JStr (li_type i)), (''actor'', JStr (li_actor i)),
      (''subjectType'', JStr (li_subjectType i)), (''subjectId'', JStr (li_subjectId i)),
      (''payload'', vi_payload v),
      (''correlationId'', case li_correlationId i of None \<Rightarrow> JNull | Some c \<Rightarrow> JStr c),
      (''occurredAt'', JStr (case vi_occurredAt v of None \<Rightarrow> recordedAt | Some o' \<Rightarrow> o')),
      (''recordedAt'', JStr recordedAt), (''previousHash'', JStr (snd head))]"

definition hash_event :: "host \<Rightarrow> (string \<times> JsonValue) list \<Rightarrow> JsonValue" where
  "hash_event H kvs = JObj (kvs @ [(''hash'', JStr (computeEventHash H (JObj kvs)))])"

text \<open>Ledger time never goes backwards: the later of the clock and the last event.\<close>

definition next_recordedAt :: "'s EventLedgerService \<Rightarrow> instant \<Rightarrow> string" where
  "next_recordedAt sv now =
     (let recordedAt = toISOString now; lst = str_field ''recordedAt'' (last (el_events sv)) in
      if el_events sv \<noteq> [] \<and> recordedAt < lst then lst else recordedAt)"

definition appendNow ::
  "host \<Rightarrow> ledger_env \<Rightarrow> 's LedgerStore \<Rightarrow> LedgerEventInput \<Rightarrow> tick \<Rightarrow> 's EventLedgerService \<Rightarrow>
   (ledger_error + JsonValue) \<times> 's EventLedgerService" where
  "appendNow H env ops i tk sv0 =
     (case ensureLoaded H env ops sv0 of
        (Inl e, sv) \<Rightarrow> (Inl e, sv)
      | (Inr _, sv) \<Rightarrow>
          (case el_sealedReason sv of
             Some r \<Rightarrow> (Inl (LedgerSealedError (''event ledger is sealed: '' @ r)), sv)
           | None \<Rightarrow>
               (case validate H i of
                  Inl e \<Rightarrow> (Inl (BadRequestException e), sv)
                | Inr v \<Rightarrow>
                    (if length (el_events sv) \<ge> MAX_LEDGER_EVENTS
                     then (Inl (ServiceUnavailableException (''event ledger at capacity ('' @
                             nat_str MAX_LEDGER_EVENTS @ '' events)'')), sv)
                     else
                       (let event = hash_event H (unhashed_fields i v (head_of sv) (tk_uuid tk)
                                      (next_recordedAt sv (tk_now tk)))
                        in case appendEvent_op ops event (el_store sv) of
                             (Inl e, s) \<Rightarrow>
                               (Inl (ServiceUnavailableException (''ledger store rejected event: '' @ e)),
                                sv\<lparr>el_store := s, el_needsReload := True\<rparr>)
                           | (Inr _, s) \<Rightarrow>
                               (let sv' = sv\<lparr>el_store := s, el_events := el_events sv @ [event]\<rparr> in
                                (Inr event,
                                 if checkpointKey env \<noteq> None \<and>
                                    int_field ''sequence'' event mod checkpointInterval env = 0
                                 then snd (checkpointNow H env ops (tk_checkpoint_now tk) sv')
                                 else sv')))))))"

definition appendSafe ::
  "host \<Rightarrow> ledger_env \<Rightarrow> 's LedgerStore \<Rightarrow> LedgerEventInput \<Rightarrow> tick \<Rightarrow> 's EventLedgerService \<Rightarrow>
   JsonValue option \<times> 's EventLedgerService" where
  "appendSafe H env ops i tk sv =
     (case appendNow H env ops i tk sv of
        (Inr ev, sv') \<Rightarrow> (Some ev, sv')
      | (Inl _, sv') \<Rightarrow> (None, sv'\<lparr>el_appendFailures := el_appendFailures sv' + 1\<rparr>))"

definition createCheckpoint ::
  "host \<Rightarrow> ledger_env \<Rightarrow> 's LedgerStore \<Rightarrow> instant \<Rightarrow> 's EventLedgerService \<Rightarrow>
   (ledger_error + LedgerCheckpoint) \<times> 's EventLedgerService" where
  "createCheckpoint H env ops now sv0 =
     (case ensureLoaded H env ops sv0 of
        (Inl e, sv) \<Rightarrow> (Inl e, sv)
      | (Inr _, sv) \<Rightarrow>
          (case el_sealedReason sv of
             Some r \<Rightarrow> (Inl (LedgerSealedError (''event ledger is sealed: '' @ r)), sv)
           | None \<Rightarrow> checkpointNow H env ops now sv))"

subsection \<open>Reading\<close>

record LedgerQuery =
  lq_fromSequence :: "int option"
  lq_limit :: "int option"
  lq_category :: "string option"
  lq_type :: "string option"
  lq_subjectType :: "string option"
  lq_subjectId :: "string option"

text \<open>An absent or empty filter value selects everything.\<close>

definition passes :: "string option \<Rightarrow> string \<Rightarrow> JsonValue \<Rightarrow> bool" where
  "passes want field e = (case want of None \<Rightarrow> True
     | Some w \<Rightarrow> w = [] \<or> jget field e = Some (JStr w))"

definition query_match :: "LedgerQuery \<Rightarrow> JsonValue \<Rightarrow> bool" where
  "query_match q e \<longleftrightarrow> passes (lq_category q) ''category'' e \<and> passes (lq_type q) ''type'' e \<and>
     passes (lq_subjectType q) ''subjectType'' e \<and> passes (lq_subjectId q) ''subjectId'' e"

text \<open>The loop of \<open>query\<close>, from index \<open>i\<close> with the results so far.\<close>

function query_loop ::
  "LedgerQuery \<Rightarrow> JsonValue list \<Rightarrow> nat \<Rightarrow> nat \<Rightarrow> JsonValue list \<Rightarrow> JsonValue list" where
  "query_loop q events limit i out =
     (if i < length events \<and> length out < limit
      then query_loop q events limit (i + 1)
             (if query_match q (events ! i) then out @ [events ! i] else out)
      else out)"
  by auto

termination query_loop
  by (relation "measure (\<lambda>(q, events, limit, i, out). length events - i)") auto

declare query_loop.simps [simp del]

definition query_limit :: "LedgerQuery \<Rightarrow> nat" where
  "query_limit q = nat (min (max (case lq_limit q of None \<Rightarrow> 100 | Some l \<Rightarrow> l) 1) 1000)"

definition query_start :: "LedgerQuery \<Rightarrow> nat" where
  "query_start q = nat (max ((case lq_fromSequence q of None \<Rightarrow> 1 | Some f \<Rightarrow> f) - 1) 0)"

definition query ::
  "host \<Rightarrow> ledger_env \<Rightarrow> 's LedgerStore \<Rightarrow> LedgerQuery \<Rightarrow> 's EventLedgerService \<Rightarrow>
   (ledger_error + JsonValue list) \<times> 's EventLedgerService" where
  "query H env ops q sv0 =
     (case ensureLoaded H env ops sv0 of
        (Inl e, sv) \<Rightarrow> (Inl e, sv)
      | (Inr _, sv) \<Rightarrow> (Inr (query_loop q (el_events sv) (query_limit q) (query_start q) []), sv))"

definition verify_options :: "ledger_env \<Rightarrow> LedgerCheckpoint list \<Rightarrow> int \<times> string \<Rightarrow> VerifyOptions" where
  "verify_options env cps head = (load_options env cps)\<lparr>vo_expectedHeadHash := Some (snd head),
     vo_expectedLastSequence := Some (fst head)\<rparr>"

definition verify ::
  "host \<Rightarrow> ledger_env \<Rightarrow> 's LedgerStore \<Rightarrow> 's EventLedgerService \<Rightarrow>
   (ledger_error + LedgerVerificationReport) \<times> 's EventLedgerService" where
  "verify H env ops sv0 =
     (case ensureLoaded H env ops sv0 of
        (Inl e, sv) \<Rightarrow> (Inl e, sv)
      | (Inr _, sv) \<Rightarrow>
          (case load_both ops (el_store sv) of
             (Inl e, s) \<Rightarrow> (Inl (StoreError e), sv\<lparr>el_store := s\<rparr>)
           | (Inr (stored, cps), s) \<Rightarrow>
               (case verifyLedgerEvents H stored (verify_options env cps (head_of sv)) of
                  Inl e \<Rightarrow> (Inl (VerifierError e), sv\<lparr>el_store := s\<rparr>)
                | Inr report \<Rightarrow> (Inr report, sv\<lparr>el_store := s\<rparr>))))"

record LedgerStatus =
  ls_headSequence :: int
  ls_headHash :: string
  ls_sealed :: bool
  ls_sealedReason :: "string option"
  ls_appendFailures :: nat
  ls_checkpointing :: bool
  ls_checkpointInterval :: int
  ls_lastCheckpoint :: "LedgerCheckpoint option"
  ls_capacity :: nat

definition getStatus :: "ledger_env \<Rightarrow> 's EventLedgerService \<Rightarrow> LedgerStatus" where
  "getStatus env sv = \<lparr>ls_headSequence = fst (head_of sv), ls_headHash = snd (head_of sv),
     ls_sealed = (el_sealedReason sv \<noteq> None), ls_sealedReason = el_sealedReason sv,
     ls_appendFailures = el_appendFailures sv, ls_checkpointing = (checkpointKey env \<noteq> None),
     ls_checkpointInterval = checkpointInterval env,
     ls_lastCheckpoint = (if el_checkpoints sv = [] then None else Some (last (el_checkpoints sv))),
     ls_capacity = MAX_LEDGER_EVENTS\<rparr>"

subsection \<open>Exporting\<close>

record LedgerExportManifest =
  mf_schemaVersion :: int
  mf_fromSequence :: int
  mf_toSequence :: int
  mf_count :: nat
  mf_anchorHash :: string
  mf_headHash :: string
  mf_exportedAt :: string
  mf_exportedBy :: string
  mf_bodySha256 :: string
  mf_checkpoints :: "LedgerCheckpoint list"

record export_options =
  eo_fromSequence :: "int option"
  eo_toSequence :: "int option"
  eo_exportedBy :: string

definition export_from :: "export_options \<Rightarrow> int" where
  "export_from eo = (case eo_fromSequence eo of None \<Rightarrow> 1 | Some f \<Rightarrow> f)"

definition export_to :: "export_options \<Rightarrow> nat \<Rightarrow> int" where
  "export_to eo headSeq = min (case eo_toSequence eo of None \<Rightarrow> int headSeq | Some n \<Rightarrow> n) (int headSeq)"

definition export_error :: "export_options \<Rightarrow> nat \<Rightarrow> string option" where
  "export_error eo headSeq =
     (let from = export_from eo; to = export_to eo headSeq in
      if from < 1 then Some ''fromSequence must be a positive integer''
      else if headSeq > 0 \<and> from > to then Some ''fromSequence must be <= toSequence''
      else if to - from + 1 > MAX_EXPORT_EVENTS
      then Some (''export at most '' @ int_str MAX_EXPORT_EVENTS @ '' events per request; page by sequence'')
      else if eo_exportedBy eo = [] then Some ''exportedBy is required''
      else None)"

definition export_slice :: "export_options \<Rightarrow> JsonValue list \<Rightarrow> JsonValue list" where
  "export_slice eo es = (if es = [] then []
     else drop (nat (export_from eo - 1)) (take (nat (export_to eo (length es))) es))"

definition export_manifest ::
  "host \<Rightarrow> export_options \<Rightarrow> instant \<Rightarrow> 's EventLedgerService \<Rightarrow> LedgerExportManifest" where
  "export_manifest H eo now sv =
     (let from = export_from eo; to = export_to eo (length (el_events sv));
          slice = export_slice eo (el_events sv);
          anchorHash = (if slice \<noteq> [] then str_field ''previousHash'' (hd slice) else snd (head_of sv))
      in \<lparr>mf_schemaVersion = LEDGER_SCHEMA_VERSION,
          mf_fromSequence = (if slice \<noteq> [] then from else 0),
          mf_toSequence = (if slice \<noteq> [] then to else 0), mf_count = length slice,
          mf_anchorHash = anchorHash,
          mf_headHash = (if slice \<noteq> [] then str_field ''hash'' (last slice) else anchorHash),
          mf_exportedAt = toISOString now, mf_exportedBy = eo_exportedBy eo,
          mf_bodySha256 = sha256Hex H (serializeNdjson slice),
          mf_checkpoints = filter (\<lambda>c. from \<le> cp_sequence c \<and> cp_sequence c \<le> to)
            (el_checkpoints sv)\<rparr>)"

definition exported_event :: "LedgerExportManifest \<Rightarrow> LedgerEventInput" where
  "exported_event mf =
     \<lparr>li_type = ''ledger.exported'', li_actor = mf_exportedBy mf, li_subjectType = ''ledger'',
      li_subjectId = ''global'',
      li_payload = Some (UPlain
        [(''fromSequence'', UNum (mf_fromSequence mf)), (''toSequence'', UNum (mf_toSequence mf)),
         (''headHash'', UStr (mf_headHash mf)), (''bodySha256'', UStr (mf_bodySha256 mf))]),
      li_correlationId = None, li_occurredAt = None\<rparr>"

definition export_ledger ::
  "host \<Rightarrow> ledger_env \<Rightarrow> 's LedgerStore \<Rightarrow> export_options \<Rightarrow> instant \<Rightarrow> tick \<Rightarrow>
   's EventLedgerService \<Rightarrow>
   (ledger_error + LedgerExportManifest \<times> string) \<times> 's EventLedgerService" where
  "export_ledger H env ops eo now tk sv0 =
     (case ensureLoaded H env ops sv0 of
        (Inl e, sv) \<Rightarrow> (Inl e, sv)
      | (Inr _, sv) \<Rightarrow>
          (case export_error eo (length (el_events sv)) of
             Some e \<Rightarrow> (Inl (BadRequestException e), sv)
           | None \<Rightarrow>
               (let manifest = export_manifest H eo now sv;
                    result = (manifest, serializeNdjson (export_slice eo (el_events sv)))
                in if el_sealedReason sv \<noteq> None then (Inr result, sv)
                   else case appendNow H env ops (exported_event manifest) tk sv of
                          (Inl e, sv') \<Rightarrow> (Inl e, sv')
                        | (Inr _, sv') \<Rightarrow> (Inr result, sv'))))"

section \<open>Runs\<close>

text \<open>
  The calls a process makes on the ledger, in queue order; \<open>Restart\<close> replaces the
  service by a new instance over the same storage.
\<close>

datatype ledger_op = Append LedgerEventInput tick | Append_Safe LedgerEventInput tick
  | Checkpoint instant | Export export_options instant tick | Query LedgerQuery | Verify | Restart

fun ledger_step ::
  "host \<Rightarrow> ledger_env \<Rightarrow> 's LedgerStore \<Rightarrow> 's EventLedgerService \<Rightarrow> ledger_op \<Rightarrow>
   's EventLedgerService" where
  "ledger_step H env ops sv (Append i tk) = snd (appendNow H env ops i tk sv)"
| "ledger_step H env ops sv (Append_Safe i tk) = snd (appendSafe H env ops i tk sv)"
| "ledger_step H env ops sv (Checkpoint now) = snd (createCheckpoint H env ops now sv)"
| "ledger_step H env ops sv (Export eo now tk) = snd (export_ledger H env ops eo now tk sv)"
| "ledger_step H env ops sv (Query q) = snd (query H env ops q sv)"
| "ledger_step H env ops sv Verify = snd (verify H env ops sv)"
| "ledger_step H env ops sv Restart = new_service (el_store sv)"

definition ledger_run ::
  "host \<Rightarrow> ledger_env \<Rightarrow> 's LedgerStore \<Rightarrow> 's EventLedgerService \<Rightarrow> ledger_op list \<Rightarrow>
   's EventLedgerService" where
  "ledger_run H env ops sv calls = foldl (ledger_step H env ops) sv calls"

fun op_ticks :: "ledger_op \<Rightarrow> tick list" where
  "op_ticks (Append i tk) = [tk]"
| "op_ticks (Append_Safe i tk) = [tk]"
| "op_ticks (Export eo now tk) = [tk]"
| "op_ticks _ = []"

abbreviation event_ids :: "JsonValue list \<Rightarrow> string set" where
  "event_ids es \<equiv> str_field ''eventId'' ` set es"

text \<open>
  What the calls receive from outside: clock readings in the years 0 to 9999, and
  identifiers that are new, as \<open>randomUUID\<close> promises.
\<close>

definition fresh_calls :: "JsonValue list \<Rightarrow> ledger_op list \<Rightarrow> bool" where
  "fresh_calls es calls \<longleftrightarrow>
     (let tks = concat (map op_ticks calls) in
      distinct (map tk_uuid tks) \<and> tk_uuid ` set tks \<inter> event_ids es = {} \<and>
      (\<forall>tk\<in>set tks. iso_range (tk_now tk)))"

lemma fresh_calls_Cons:
  assumes "fresh_calls es (c # calls)" "event_ids new \<subseteq> tk_uuid ` set (op_ticks c)"
  shows "fresh_calls (es @ new) calls"
proof -
  let ?c = "tk_uuid ` set (op_ticks c)" and ?r = "tk_uuid ` set (concat (map op_ticks calls))"
  have "?r \<inter> event_ids es = {}" "?c \<inter> ?r = {}"
    using assms(1) by (simp_all add: fresh_calls_def Let_def image_Un Int_Un_distrib2)
  moreover have "R \<inter> (E \<union> N) = {}" if "R \<inter> E = {}" "C \<inter> R = {}" "N \<subseteq> C" for R C E N :: "string set"
    using that by blast
  ultimately have "?r \<inter> (event_ids es \<union> event_ids new) = {}" using assms(2) by simp
  then have "?r \<inter> event_ids (es @ new) = {}" by (simp only: set_append image_Un)
  with assms(1) show ?thesis by (simp add: fresh_calls_def Let_def)
qed

section \<open>Stored chains and the service invariant\<close>

definition iso_recorded :: "JsonValue \<Rightarrow> bool" where
  "iso_recorded e \<longleftrightarrow> (\<exists>t. iso_range t \<and> str_field ''recordedAt'' e = toISOString t)"

definition store_good :: "host \<Rightarrow> ledger_env \<Rightarrow> JsonValue list \<Rightarrow> LedgerCheckpoint list \<Rightarrow> bool" where
  "store_good H env es cps \<longleftrightarrow>
     ledger_valid H (load_options env cps) es \<and> (\<forall>e\<in>set es. iso_recorded e)"

definition service_inv ::
  "host \<Rightarrow> ledger_env \<Rightarrow> ('s \<Rightarrow> JsonValue list) \<Rightarrow> ('s \<Rightarrow> LedgerCheckpoint list) \<Rightarrow>
   's EventLedgerService \<Rightarrow> bool" where
  "service_inv H env events_of cps_of sv \<longleftrightarrow>
     store_good H env (events_of (el_store sv)) (cps_of (el_store sv)) \<and>
     el_sealedReason sv = None \<and> set (el_checkpoints sv) \<subseteq> set (cps_of (el_store sv)) \<and>
     (el_loaded sv \<and> \<not> el_needsReload sv \<longrightarrow> el_events sv = events_of (el_store sv))"

definition grown :: "JsonValue list \<Rightarrow> JsonValue list \<Rightarrow> string set \<Rightarrow> bool" where
  "grown es es' ids \<longleftrightarrow> (\<exists>new. es' = es @ new \<and> event_ids new \<subseteq> ids)"

lemma grown_refl [simp]: "grown es es ids"
  by (simp add: grown_def)

lemma grown_trans: "grown a b U \<Longrightarrow> grown b c V \<Longrightarrow> grown a c (U \<union> V)"
proof -
  assume "grown a b U" "grown b c V"
  then obtain m n where "c = a @ m @ n" "event_ids m \<subseteq> U" "event_ids n \<subseteq> V"
    by (auto simp: grown_def)
  then have "event_ids (m @ n) \<subseteq> U \<union> V" by (simp only: set_append image_Un) (rule Un_mono)
  with \<open>c = a @ m @ n\<close> show ?thesis unfolding grown_def by blast
qed

lemma load_options_init [simp]:
  "anchor_of (load_options env cps) = LEDGER_GENESIS_HASH" "start_of (load_options env cps) = 1"
  by (simp_all add: verify_init_def load_options_def no_options_def)

lemma load_options_fields:
  "vo_checkpoints (load_options env cps) = Some cps"
  "vo_checkpointKeys (load_options env cps) = verificationKeys env"
  "vo_lostKeyIds (load_options env cps) = Some (lostKeyIds env)"
  "vo_expectedHeadHash (load_options env cps) = None"
  "vo_expectedLastSequence (load_options env cps) = None"
  by (simp_all add: load_options_def no_options_def)

lemma check_mac_load_options: "check_mac H (load_options env cps) c = check_mac H (load_options env []) c"
  unfolding check_mac_def load_options_fields ..

definition checkpoint_good :: "host \<Rightarrow> ledger_env \<Rightarrow> JsonValue list \<Rightarrow> LedgerCheckpoint \<Rightarrow> bool" where
  "checkpoint_good H env es c \<longleftrightarrow> checkpoint_valid H (load_options env []) 1 es c"

lemma store_good_alt:
  "store_good H env es cps \<longleftrightarrow> chain_valid H LEDGER_GENESIS_HASH 1 es \<and>
     (\<forall>c\<in>set cps. checkpoint_good H env es c) \<and> (\<forall>e\<in>set es. iso_recorded e)"
  unfolding store_good_def ledger_valid_def load_options_init checkpoint_good_def
    checkpoint_valid_def check_mac_load_options [of H env cps]
  by (simp add: load_options_fields)

lemma store_good_Nil: "store_good H env [] []"
  by (simp add: store_good_alt)

lemma checkpoint_good_snoc:
  "checkpoint_good H env es c \<Longrightarrow> checkpoint_good H env (es @ [e]) c"
  by (auto simp: checkpoint_good_def checkpoint_valid_def nth_append nat_less_iff)

subsection \<open>A new event continues the chain\<close>

lemma hashed_content_hash_event: "hashed_content (hash_event H kvs) = hashed_content (JObj kvs)"
proof -
  have "map_of (kvs @ [(''hash'', x)]) k = map_of kvs k" if "k \<noteq> ''hash''" for k x
    using that by (induction kvs) auto
  then have "null_field k (hash_event H kvs) = null_field k (JObj kvs)" if "k \<in> set hashed_fields" for k
    using that by (auto simp: null_field_def hash_event_def hashed_fields_def)
  then show ?thesis by (simp add: hashed_content_def)
qed

lemma validate_payload_object: "validate_payload i = Inr j \<Longrightarrow> \<exists>kvs. j = JObj kvs"
  by (auto simp: validate_payload_def assertLedgerPayload_def Let_def
      split: sum.splits option.splits unknown.splits if_splits)

lemma validate_ok:
  assumes "validate H i = Inr v"
  shows "\<exists>c. map_of LEDGER_EVENT_TYPES (li_type i) = Some c" "\<exists>kvs. vi_payload v = JObj kvs"
  using assms
  by (auto simp: validate_def split: if_splits option.splits sum.splits dest: validate_payload_object)

lemma new_event_fields:
  fixes H i v head uuid rec
  defines "e \<equiv> hash_event H (unhashed_fields i v head uuid rec)"
  shows "jget ''sequence'' e = Some (JNum (fst head + 1))" "int_field ''sequence'' e = fst head + 1"
    "jget ''eventId'' e = Some (JStr uuid)" "str_field ''eventId'' e = uuid"
    "jget ''recordedAt'' e = Some (JStr rec)" "str_field ''recordedAt'' e = rec"
    "jget ''previousHash'' e = Some (JStr (snd head))" "str_field ''previousHash'' e = snd head"
    "jget ''type'' e = Some (JStr (li_type i))" "str_field ''type'' e = li_type i"
    "jget ''payload'' e = Some (vi_payload v)"
    "jget ''schemaVersion'' e = Some (JNum LEDGER_SCHEMA_VERSION)"
    "jget ''hash'' e = Some (JStr (computeEventHash H e))" "str_field ''hash'' e = computeEventHash H e"
    "jget ''category'' e = Some (JStr (case map_of LEDGER_EVENT_TYPES (li_type i) of None \<Rightarrow> [] | Some c \<Rightarrow> c))"
    "str_field ''category'' e = (case map_of LEDGER_EVENT_TYPES (li_type i) of None \<Rightarrow> [] | Some c \<Rightarrow> c)"
  by (simp_all add: e_def computeEventHash_def event_preimage_def hashed_content_hash_event)
     (simp_all add: hash_event_def unhashed_fields_def str_field_def int_field_def
        computeEventHash_def event_preimage_def)

lemma new_event_link:
  assumes "validate H i = Inr v" "uuid \<notin> ids"
    "\<And>b. before = Some b \<Longrightarrow> \<not> date_before H rec b"
  shows "link_ok H prev n before ids (hash_event H (unhashed_fields i v (n - 1, prev) uuid rec))"
proof -
  from validate_ok [OF assms(1)] obtain c kvs where
    "map_of LEDGER_EVENT_TYPES (li_type i) = Some c" "vi_payload v = JObj kvs" by auto
  with assms(2,3) show ?thesis
    by (simp add: link_ok_def isWellFormed_def new_event_fields is_string_def is_number_def
        is_object_def) (simp add: hash_event_def)
qed

text \<open>The clock rule keeps recording times in order.\<close>

lemma next_recordedAt_ok:
  assumes "\<forall>e\<in>set (el_events sv). iso_recorded e" "iso_range now"
  shows "\<exists>t. iso_range t \<and> next_recordedAt sv now = toISOString t"
    and "last_recorded (el_events sv) = Some b \<Longrightarrow> \<not> date_before H (next_recordedAt sv now) b"
proof -
  let ?l = "str_field ''recordedAt'' (last (el_events sv))"
  have lst: "\<exists>t. iso_range t \<and> ?l = toISOString t" if "el_events sv \<noteq> []"
    using assms(1) that by (auto simp: iso_recorded_def)
  show "\<exists>t. iso_range t \<and> next_recordedAt sv now = toISOString t"
    using lst assms(2) by (auto simp: next_recordedAt_def Let_def)
  show "\<not> date_before H (next_recordedAt sv now) b" if "last_recorded (el_events sv) = Some b"
  proof -
    from that have ne: "el_events sv \<noteq> []" and b: "b = ?l"
      by (auto simp: last_recorded_def split: if_splits)
    from lst [OF ne] obtain t where t: "iso_range t" "?l = toISOString t" by auto
    show ?thesis
      using ne t assms(2) toISOString_less_iff [OF assms(2) t(1)]
      by (auto simp: b next_recordedAt_def Let_def date_before_def Date_parse_toISOString)
  qed
qed

lemma head_of_chain:
  assumes "chain_valid H LEDGER_GENESIS_HASH 1 (el_events sv)"
  shows "head_of sv = (int (length (el_events sv)), chain_head LEDGER_GENESIS_HASH (el_events sv))"
proof (cases "el_events sv = []")
  case False
  from chain_valid_last [OF assms False] False show ?thesis
    by (simp add: head_of_def chain_head_def int_field_def)
qed (simp add: head_of_def chain_head_def)

lemma store_good_snoc:
  assumes "store_good H env (el_events sv) cps" "validate H i = Inr v"
    "uuid \<notin> event_ids (el_events sv)" "iso_range now"
  shows "store_good H env (el_events sv @
    [hash_event H (unhashed_fields i v (head_of sv) uuid (next_recordedAt sv now))]) cps"
proof -
  let ?es = "el_events sv"
  have good: "chain_valid H LEDGER_GENESIS_HASH 1 ?es" "\<forall>c\<in>set cps. checkpoint_good H env ?es c"
    "\<forall>e\<in>set ?es. iso_recorded e"
    using assms(1) by (simp_all add: store_good_alt)
  have "link_ok H (chain_head LEDGER_GENESIS_HASH ?es) (1 + int (length ?es)) (last_recorded ?es)
      (event_ids ?es) (hash_event H (unhashed_fields i v (head_of sv) uuid (next_recordedAt sv now)))"
    using new_event_link [OF assms(2,3) next_recordedAt_ok(2) [OF good(3) assms(4)],
        where n = "1 + int (length ?es)" and prev = "chain_head LEDGER_GENESIS_HASH ?es"]
    by (simp add: head_of_chain [OF good(1)])
  with good next_recordedAt_ok(1) [OF good(3) assms(4)] show ?thesis
    by (auto simp: store_good_alt chain_valid_snoc checkpoint_good_snoc iso_recorded_def new_event_fields)
qed

subsection \<open>A new checkpoint agrees with the chain\<close>

lemma verificationKeys_current:
  assumes "checkpointKey env = Some key" "checkpointKeyId env \<noteq> proto_key"
  shows "\<exists>keys. verificationKeys env = Some keys \<and> map_of keys (checkpointKeyId env) = Some key"
proof -
  have "js_set k v m \<noteq> []" for k v and m :: "(string \<times> string) list"
    by (cases m) (auto split: if_splits)
  with assms show ?thesis
    by (simp add: verificationKeys_def assign_key_def Let_def map_of_js_set)
qed

lemma new_checkpoint_mac:
  assumes "checkpointKey env = Some key" "checkpointKeyId env \<noteq> proto_key"
    "cp_keyId c = checkpointKeyId env"
  shows "check_mac H (load_options env []) (c\<lparr>cp_mac := computeCheckpointMac H c key\<rparr>) = MacOk"
proof -
  have "key \<noteq> []"
    using assms(1) by (auto simp: checkpointKey_def MIN_CHECKPOINT_KEY_LENGTH_def split: if_splits)
  moreover have "computeCheckpointMac H (c\<lparr>cp_mac := m\<rparr>) key = computeCheckpointMac H c key" for m
    by (simp add: computeCheckpointMac_def)
  ultimately show ?thesis
    using verificationKeys_current [OF assms(1,2)] assms(3)
    by (auto simp: check_mac_def load_options_fields macMatches_def)
qed

lemma new_checkpoint_good:
  assumes "checkpointKey env = Some key" "checkpointKeyId env \<noteq> proto_key" "es \<noteq> []"
    "chain_valid H LEDGER_GENESIS_HASH 1 es"
  shows "checkpoint_good H env es (new_checkpoint H env key now (last es))"
proof -
  have "int_field ''sequence'' (last es) = int (length es)"
    using chain_valid_last(1) [OF assms(4,3)] by (simp add: int_field_def)
  moreover have "es ! nat (int (length es) - 1) = last es"
    using assms(3) by (simp add: last_conv_nth nat_diff_distrib')
  moreover have "check_mac H (load_options env []) (new_checkpoint H env key now (last es)) = MacOk"
    unfolding new_checkpoint_def Let_def by (rule new_checkpoint_mac) (use assms in simp_all)
  ultimately show ?thesis
    using assms(3) by (simp add: checkpoint_good_def checkpoint_valid_def) (simp add: new_checkpoint_def)
qed

section \<open>The contract of a ledger store\<close>

text \<open>
  What the service relies on: reading and initialising change nothing and return
  what is stored in sequence order; a successful append adds exactly the given
  event at the end, provided its sequence number exceeds all stored ones; a failed
  write may or may not have been committed.
\<close>

locale ledger_store =
  fixes ops :: "'s LedgerStore"
    and events_of :: "'s \<Rightarrow> JsonValue list"
    and cps_of :: "'s \<Rightarrow> LedgerCheckpoint list"
  assumes init_keeps: "init_op ops s = (r, s') \<Longrightarrow> events_of s' = events_of s \<and> cps_of s' = cps_of s"
    and load_events: "loadEvents_op ops s = (re, s') \<Longrightarrow>
      events_of s' = events_of s \<and> cps_of s' = cps_of s \<and> (\<forall>es. re = Inr es \<longrightarrow> es = events_of s)"
    and load_checkpoints: "loadCheckpoints_op ops s = (rc, s') \<Longrightarrow>
      events_of s' = events_of s \<and> cps_of s' = cps_of s \<and> (\<forall>cs. rc = Inr cs \<longrightarrow> cs = cps_of s)"
    and append_event: "appendEvent_op ops e s = (r, s') \<Longrightarrow>
      \<forall>x\<in>set (events_of s). int_field ''sequence'' x < int_field ''sequence'' e \<Longrightarrow>
      cps_of s' = cps_of s \<and> (events_of s' = events_of s @ [e] \<or> (\<exists>m. r = Inl m) \<and> events_of s' = events_of s)"
    and append_checkpoint: "appendCheckpoint_op ops c s = (r, s') \<Longrightarrow>
      events_of s' = events_of s \<and> (cps_of s' = cps_of s @ [c] \<or> (\<exists>m. r = Inl m) \<and> cps_of s' = cps_of s)"
begin

abbreviation inv :: "host \<Rightarrow> ledger_env \<Rightarrow> 's EventLedgerService \<Rightarrow> bool" where
  "inv H env \<equiv> service_inv H env events_of cps_of"

abbreviation stored :: "'s EventLedgerService \<Rightarrow> JsonValue list" where
  "stored sv \<equiv> events_of (el_store sv)"

lemma load_both_keeps:
  assumes "load_both ops s = (r, s')"
  shows "events_of s' = events_of s \<and> cps_of s' = cps_of s \<and>
    (\<forall>es cs. r = Inr (es, cs) \<longrightarrow> es = events_of s \<and> cs = cps_of s)"
  using assms
  by (auto simp: load_both_def Let_def split: prod.splits sum.splits
      dest!: load_events load_checkpoints)

lemma load_good:
  assumes "inv H env sv" "load H env ops sv = (r, sv')"
  shows "stored sv' = stored sv \<and> cps_of (el_store sv') = cps_of (el_store sv) \<and>
    el_sealedReason sv' = None \<and> el_needsReload sv' = el_needsReload sv \<and>
    set (el_checkpoints sv') \<subseteq> set (cps_of (el_store sv'))"
    "r = Inr () \<Longrightarrow> el_events sv' = stored sv'"
proof -
  have ok: "verifyLedgerEvents H (stored sv) (load_options env (cps_of (el_store sv))) = Inr rep \<Longrightarrow>
      rp_ok rep" for rep
    using assms(1) verify_ok_iff_valid [of H "stored sv" "load_options env (cps_of (el_store sv))"]
    by (auto simp: service_inv_def store_good_def)
  have seal: "el_sealedReason sv = None" "set (el_checkpoints sv) \<subseteq> set (cps_of (el_store sv))"
    using assms(1) by (simp_all add: service_inv_def)
  show "stored sv' = stored sv \<and> cps_of (el_store sv') = cps_of (el_store sv) \<and>
      el_sealedReason sv' = None \<and> el_needsReload sv' = el_needsReload sv \<and>
      set (el_checkpoints sv') \<subseteq> set (cps_of (el_store sv'))"
    "r = Inr () \<Longrightarrow> el_events sv' = stored sv'"
    using assms(2) ok seal
    by (auto simp: load_def split: prod.splits sum.splits dest!: init_keeps load_both_keeps)
qed

lemma ensureLoaded_good:
  assumes "inv H env sv" "ensureLoaded H env ops sv = (r, sv')"
  shows "inv H env sv'" "stored sv' = stored sv"
    "r = Inr () \<Longrightarrow> el_loaded sv' \<and> \<not> el_needsReload sv' \<and> el_events sv' = stored sv'"
proof -
  define sv1 where "sv1 = (if el_needsReload sv then sv\<lparr>el_needsReload := False, el_loaded := False\<rparr> else sv)"
  have inv1: "inv H env sv1" "el_store sv1 = el_store sv" "\<not> el_needsReload sv1"
    using assms(1) by (auto simp: sv1_def service_inv_def)
  obtain r2 sv2 where l: "load H env ops sv1 = (r2, sv2)" by fastforce
  note g = load_good [OF inv1(1) l]
  show "inv H env sv'" "stored sv' = stored sv"
    "r = Inr () \<Longrightarrow> el_loaded sv' \<and> \<not> el_needsReload sv' \<and> el_events sv' = stored sv'"
    using assms(2) g inv1 l
    by (auto simp: ensureLoaded_def Let_def sv1_def [symmetric] service_inv_def split: if_splits sum.splits)
qed

lemma checkpointNow_good:
  assumes "inv H env sv" "el_loaded sv" "\<not> el_needsReload sv" "checkpointKeyId env \<noteq> proto_key"
    "checkpointNow H env ops now sv = (r, sv')"
  shows "inv H env sv' \<and> stored sv' = stored sv"
proof -
  have ev: "el_events sv = stored sv" using assms(1-3) by (simp add: service_inv_def)
  have chain: "chain_valid H LEDGER_GENESIS_HASH 1 (stored sv)"
    using assms(1) by (simp add: service_inv_def store_good_alt)
  show ?thesis
    using assms(1,5) ev new_checkpoint_good [OF _ assms(4) _ chain]
    by (auto simp: checkpointNow_def Let_def service_inv_def store_good_alt
        split: option.splits if_splits prod.splits sum.splits dest!: append_checkpoint)
qed

lemma chain_below_next:
  assumes "chain_valid H a 1 es" "x \<in> set es"
  shows "int_field ''sequence'' x < int (length es) + 1"
  using assms chain_valid_nth [OF assms(1)] by (fastforce simp: in_set_conv_nth)

lemma appendNow_good:
  assumes inv: "inv H env sv0" and key: "checkpointKeyId env \<noteq> proto_key"
    and tk: "iso_range (tk_now tk)" "tk_uuid tk \<notin> event_ids (stored sv0)"
    and res: "appendNow H env ops i tk sv0 = (r, sv')"
  shows "inv H env sv' \<and> (stored sv' = stored sv0 \<or> (\<exists>e. stored sv' = stored sv0 @ [e] \<and>
    str_field ''eventId'' e = tk_uuid tk)) \<and> (\<forall>e. r = Inr e \<longrightarrow> stored sv' = stored sv0 @ [e])"
proof -
  obtain rl sv where l: "ensureLoaded H env ops sv0 = (rl, sv)" by fastforce
  note g = ensureLoaded_good [OF inv l]
  have sealed: "el_sealedReason sv = None" using g(1) by (simp add: service_inv_def)
  consider "\<exists>e. r = Inl e \<and> sv' = sv" | v where "rl = Inr ()" "validate H i = Inr v"
    "\<not> MAX_LEDGER_EVENTS \<le> length (el_events sv)"
    using res l sealed by (auto simp: appendNow_def split: sum.splits if_splits)
  then show ?thesis
  proof cases
    case (2 v)
    note es = g(3) [OF 2(1)]
    let ?e = "hash_event H (unhashed_fields i v (head_of sv) (tk_uuid tk) (next_recordedAt sv (tk_now tk)))"
    obtain ra s where a: "appendEvent_op ops ?e (el_store sv) = (ra, s)" by fastforce
    have good: "store_good H env (el_events sv) (cps_of (el_store sv))"
      using g(1) es by (simp add: service_inv_def)
    then have chain: "chain_valid H LEDGER_GENESIS_HASH 1 (el_events sv)" by (simp add: store_good_alt)
    have good': "store_good H env (el_events sv @ [?e]) (cps_of (el_store sv))"
      by (rule store_good_snoc [OF good 2(2)]) (use tk es g(2) in simp_all)
    have "int_field ''sequence'' ?e = int (length (el_events sv)) + 1"
      by (simp add: new_event_fields head_of_chain [OF chain])
    then have st: "cps_of s = cps_of (el_store sv) \<and> (events_of s = stored sv @ [?e] \<or>
        (\<exists>m. ra = Inl m) \<and> events_of s = stored sv)"
      using append_event [OF a] chain_below_next [OF chain] es by simp
    let ?sv1 = "sv\<lparr>el_store := s, el_events := el_events sv @ [?e]\<rparr>"
    have inv1: "inv H env ?sv1" if "ra = Inr ()"
      using st that g(1) good' es by (auto simp: service_inv_def)
    obtain rc sv2 where c: "checkpointNow H env ops (tk_checkpoint_now tk) ?sv1 = (rc, sv2)" by fastforce
    have inv2: "inv H env sv2 \<and> stored sv2 = events_of s" if "ra = Inr ()"
      using checkpointNow_good [OF inv1 [OF that] _ _ key c] es by simp
    have "ra = Inr () \<Longrightarrow> r = Inr ?e \<and> (sv' = ?sv1 \<or> sv' = sv2)"
      "\<And>m. ra = Inl m \<Longrightarrow> (\<exists>x. r = Inl x) \<and> sv' = sv\<lparr>el_store := s, el_needsReload := True\<rparr>"
      using res l 2 a c sealed by (auto simp: appendNow_def Let_def)
    with st inv1 inv2 g es good good' show ?thesis
      by (cases ra) (auto simp: service_inv_def new_event_fields)
  qed (use g in auto)
qed

lemma append_grows:
  assumes "inv H env sv" "checkpointKeyId env \<noteq> proto_key"
    "iso_range (tk_now tk)" "tk_uuid tk \<notin> event_ids (stored sv)"
  shows "inv H env (snd (appendNow H env ops i tk sv))"
    "grown (stored sv) (stored (snd (appendNow H env ops i tk sv))) {tk_uuid tk}"
proof -
  obtain r sv' where a: "appendNow H env ops i tk sv = (r, sv')" by fastforce
  from appendNow_good [OF assms a] show "inv H env (snd (appendNow H env ops i tk sv))"
    "grown (stored sv) (stored (snd (appendNow H env ops i tk sv))) {tk_uuid tk}"
    by (auto simp: a grown_def)
qed

lemma reads_keep:
  assumes "inv H env sv" "checkpointKeyId env \<noteq> proto_key"
  shows "inv H env (snd (createCheckpoint H env ops now sv)) \<and>
      stored (snd (createCheckpoint H env ops now sv)) = stored sv"
    "inv H env (snd (query H env ops q sv)) \<and> stored (snd (query H env ops q sv)) = stored sv"
    "inv H env (snd (verify H env ops sv)) \<and> stored (snd (verify H env ops sv)) = stored sv"
proof -
  obtain r sv1 where l: "ensureLoaded H env ops sv = (r, sv1)" by fastforce
  note g = ensureLoaded_good [OF assms(1) l]
  obtain rc sv2 where c: "checkpointNow H env ops now sv1 = (rc, sv2)" by fastforce
  show "inv H env (snd (createCheckpoint H env ops now sv)) \<and>
      stored (snd (createCheckpoint H env ops now sv)) = stored sv"
    using g l c checkpointNow_good [OF g(1) _ _ assms(2) c]
    by (auto simp: createCheckpoint_def split: sum.splits option.splits)
  show "inv H env (snd (query H env ops q sv)) \<and> stored (snd (query H env ops q sv)) = stored sv"
    using g l by (auto simp: query_def split: sum.splits)
  show "inv H env (snd (verify H env ops sv)) \<and> stored (snd (verify H env ops sv)) = stored sv"
    using g l by (auto simp: verify_def service_inv_def split: sum.splits prod.splits
        dest!: load_both_keeps)
qed

lemma export_grows:
  assumes "inv H env sv" "checkpointKeyId env \<noteq> proto_key"
    "iso_range (tk_now tk)" "tk_uuid tk \<notin> event_ids (stored sv)"
  shows "inv H env (snd (export_ledger H env ops eo now tk sv))"
    "grown (stored sv) (stored (snd (export_ledger H env ops eo now tk sv))) {tk_uuid tk}"
proof -
  obtain r sv1 where l: "ensureLoaded H env ops sv = (r, sv1)" by fastforce
  note g = ensureLoaded_good [OF assms(1) l]
  have a: "inv H env (snd (appendNow H env ops i tk sv1))"
    "grown (stored sv) (stored (snd (appendNow H env ops i tk sv1))) {tk_uuid tk}" for i
    using append_grows [OF g(1) assms(2,3), of i] assms(4) g(2) by simp_all
  show "inv H env (snd (export_ledger H env ops eo now tk sv))"
    "grown (stored sv) (stored (snd (export_ledger H env ops eo now tk sv))) {tk_uuid tk}"
    using g l a [of "exported_event (export_manifest H eo now sv1)"]
    by (auto simp: export_ledger_def Let_def split: sum.splits option.splits prod.splits)
qed

lemma step_good:
  assumes "inv H env sv" "checkpointKeyId env \<noteq> proto_key"
    "\<forall>tk\<in>set (op_ticks c). iso_range (tk_now tk) \<and> tk_uuid tk \<notin> event_ids (stored sv)"
  shows "inv H env (ledger_step H env ops sv c) \<and>
    grown (stored sv) (stored (ledger_step H env ops sv c)) (tk_uuid ` set (op_ticks c))"
proof (cases c)
  case (Append i tk)
  with append_grows [OF assms(1,2)] assms(3) show ?thesis by simp
next
  case (Append_Safe i tk)
  have "stored (snd (appendSafe H env ops i tk sv)) = stored (snd (appendNow H env ops i tk sv))"
    "inv H env (snd (appendSafe H env ops i tk sv)) = inv H env (snd (appendNow H env ops i tk sv))"
    by (auto simp: appendSafe_def service_inv_def split: prod.splits sum.splits)
  with Append_Safe append_grows [OF assms(1,2)] assms(3) show ?thesis by simp
next
  case (Export eo now tk)
  with export_grows [OF assms(1,2)] assms(3) show ?thesis by simp
next
  case Restart
  with assms(1) show ?thesis by (simp add: service_inv_def new_service_def)
qed (use reads_keep [OF assms(1,2)] in simp_all)

lemma run_good:
  "inv H env sv \<Longrightarrow> checkpointKeyId env \<noteq> proto_key \<Longrightarrow> fresh_calls (stored sv) calls \<Longrightarrow>
   inv H env (ledger_run H env ops sv calls) \<and>
   grown (stored sv) (stored (ledger_run H env ops sv calls))
     (tk_uuid ` set (concat (map op_ticks calls)))"
proof (induction calls arbitrary: sv)
  case (Cons c calls)
  let ?sv = "ledger_step H env ops sv c"
  have step: "inv H env ?sv" "grown (stored sv) (stored ?sv) (tk_uuid ` set (op_ticks c))"
    using step_good [OF Cons.prems(1,2), of c] Cons.prems(3)
    by (auto simp: fresh_calls_def Let_def disjoint_iff)
  then obtain new where new: "stored ?sv = stored sv @ new" "event_ids new \<subseteq> tk_uuid ` set (op_ticks c)"
    by (auto simp: grown_def)
  then have "fresh_calls (stored ?sv) calls"
    using fresh_calls_Cons [OF Cons.prems(3)] by simp
  with Cons.IH [OF step(1) Cons.prems(2)] have
    "inv H env (ledger_run H env ops ?sv calls)"
    "grown (stored ?sv) (stored (ledger_run H env ops ?sv calls)) (tk_uuid ` set (concat (map op_ticks calls)))"
    by simp_all
  with grown_trans [OF step(2)] show ?case by (simp add: ledger_run_def image_Un)
qed (simp add: ledger_run_def)

end

section \<open>The stores meet the contract\<close>

abbreviation im_stored :: "InMemoryLedgerStore \<Rightarrow> JsonValue list" where
  "im_stored s \<equiv> sort_key (int_field ''sequence'') (im_events s)"

lemma sort_key_snoc:
  assumes "\<forall>x\<in>set xs. f x \<le> f e"
  shows "sort_key f (xs @ [e]) = sort_key f xs @ [e]"
proof -
  have "insort_key f x (ys @ [e]) = insort_key f x ys @ [e]" if "f x \<le> f e" for x ys
    using that by (induction ys) auto
  with assms show ?thesis by (induction xs) auto
qed

interpretation mem: ledger_store in_memory im_stored im_checkpoints
proof
  fix e s r s'
  assume "appendEvent_op in_memory e s = (r, s')"
    "\<forall>x\<in>set (im_stored s). int_field ''sequence'' x < int_field ''sequence'' e"
  then show "im_checkpoints s' = im_checkpoints s \<and>
      (im_stored s' = im_stored s @ [e] \<or> (\<exists>m. r = Inl m) \<and> im_stored s' = im_stored s)"
    using sort_key_snoc [of "im_events s" "int_field ''sequence''" e]
    by (auto simp: in_memory_def im_appendEvent_def order_less_imp_le split: if_splits)
qed (auto simp: in_memory_def im_loadEvents_def im_loadCheckpoints_def im_appendCheckpoint_def)

lemma with_fault_cases:
  assumes "with_fault f s = (r, s')"
  obtains "f (fst s) = (r, fst s')" | m where "r = Inl m" "fst s' = fst s"
    | m where "r = Inl m" "fst s' = snd (f (fst s))"
  using assms by (auto simp: with_fault_def Let_def split: prod.splits list.splits fault.splits)

interpretation flk: ledger_store flaky "\<lambda>s. im_stored (fst s)" "\<lambda>s. im_checkpoints (fst s)"
proof
  fix e s r s'
  assume a: "appendEvent_op flaky e s = (r, s')"
    "\<forall>x\<in>set (im_stored (fst s)). int_field ''sequence'' x < int_field ''sequence'' e"
  obtain rm m where f: "appendEvent_op in_memory e (fst s) = (rm, m)" by fastforce
  from a(1) have "with_fault (appendEvent_op in_memory e) s = (r, s')" by (simp add: flaky_def)
  then show "im_checkpoints (fst s') = im_checkpoints (fst s) \<and> (im_stored (fst s') = im_stored (fst s) @ [e] \<or>
      (\<exists>m. r = Inl m) \<and> im_stored (fst s') = im_stored (fst s))"
    using mem.append_event [OF f a(2)] f by (cases rule: with_fault_cases) auto
qed (auto simp: flaky_def in_memory_def im_loadEvents_def im_loadCheckpoints_def im_appendCheckpoint_def
      elim!: with_fault_cases)

section \<open>A corrupted store stays as it is\<close>

text \<open>
  The service over a store whose chain does not verify: nothing was written and,
  once loaded, the ledger is sealed.
\<close>

definition sealed_over :: "InMemoryLedgerStore \<Rightarrow> InMemoryLedgerStore EventLedgerService \<Rightarrow> bool" where
  "sealed_over s sv \<longleftrightarrow> el_store sv = s \<and> \<not> el_needsReload sv \<and>
     (el_loaded sv \<longrightarrow> el_sealedReason sv \<noteq> None)"

lemma load_both_mem: "load_both in_memory s = (Inr (im_stored s, im_checkpoints s), s)"
  by (simp add: load_both_def in_memory_def im_loadEvents_def im_loadCheckpoints_def)

lemma init_mem: "init_op in_memory s = (Inr (), s)"
  by (simp add: in_memory_def)

lemma ensureLoaded_sealed:
  assumes "\<not> ledger_valid H (load_options env (im_checkpoints s)) (im_stored s)" "sealed_over s sv"
    "ensureLoaded H env in_memory sv = (r, sv')"
  shows "sealed_over s sv' \<and> (r = Inr () \<longrightarrow> el_sealedReason sv' \<noteq> None)"
proof -
  have "\<not> rp_ok rep" if "verifyLedgerEvents H (im_stored s) (load_options env (im_checkpoints s)) = Inr rep" for rep
    using assms(1) that verify_ok_iff_valid by blast
  with assms(2,3) show ?thesis
    by (auto simp: ensureLoaded_def load_def sealed_over_def load_both_mem init_mem Let_def
        split: if_splits sum.splits)
qed

lemma sealed_step:
  assumes bad: "\<not> ledger_valid H (load_options env (im_checkpoints s)) (im_stored s)" and sv: "sealed_over s sv"
  shows "sealed_over s (ledger_step H env in_memory sv c)"
proof -
  obtain r sv1 where l: "ensureLoaded H env in_memory sv = (r, sv1)" by fastforce
  note g = ensureLoaded_sealed [OF bad sv l]
  have app: "\<exists>e. appendNow H env in_memory i tk sv = (Inl e, sv1)" for i tk
    using g l by (auto simp: appendNow_def split: sum.splits option.splits)
  show ?thesis
  proof (cases c)
    case (Append i tk)
    with app [of i tk] g show ?thesis by auto
  next
    case (Append_Safe i tk)
    with app [of i tk] g show ?thesis by (auto simp: appendSafe_def sealed_over_def)
  next
    case (Export eo now tk)
    with g l show ?thesis
      by (auto simp: export_ledger_def Let_def split: sum.splits option.splits)
  next
    case Verify
    with g l show ?thesis
      by (auto simp: verify_def load_both_mem sealed_over_def split: sum.splits)
  next
    case Restart
    with sv show ?thesis by (simp add: sealed_over_def new_service_def)
  qed (use g l in \<open>auto simp: createCheckpoint_def query_def split: sum.splits option.splits\<close>)
qed

section \<open>Loop of a query\<close>

lemma query_loop_spec:
  "length out \<le> limit \<Longrightarrow>
   query_loop q es limit i out = out @ take (limit - length out) (filter (query_match q) (drop i es))"
proof (induction q es limit i out rule: query_loop.induct)
  case (1 q es limit i out)
  show ?case
  proof (cases "i < length es \<and> length out < limit")
    case True
    then have d: "drop i es = es ! i # drop (i + 1) es" by (simp add: Cons_nth_drop_Suc)
    from True 1 show ?thesis
      by (subst query_loop.simps) (cases "query_match q (es ! i)", auto simp: d Suc_diff_Suc take_Cons')
  next
    case False
    with "1.prems" show ?thesis by (subst query_loop.simps) auto
  qed
qed

section \<open>Properties\<close>

abbreviation empty_store :: InMemoryLedgerStore where
  "empty_store \<equiv> \<lparr>im_events = [], im_checkpoints = []\<rparr>"

lemma service_inv_new: "service_inv H env (\<lambda>s. im_stored (fst s)) (\<lambda>s. im_checkpoints (fst s))
   (new_service (empty_store, faults))"
  by (simp add: service_inv_def new_service_def store_good_Nil)

lemma ledger_run_append:
  "ledger_run H env ops sv (xs @ ys) = ledger_run H env ops (ledger_run H env ops sv xs) ys"
  by (simp add: ledger_run_def)

lemma fresh_calls_split:
  assumes "fresh_calls es (xs @ ys)" "grown es es' (tk_uuid ` set (concat (map op_ticks xs)))"
  shows "fresh_calls es xs" "fresh_calls es' ys"
proof -
  obtain new where new: "es' = es @ new" "event_ids new \<subseteq> tk_uuid ` set (concat (map op_ticks xs))"
    using assms(2) by (auto simp: grown_def)
  show "fresh_calls es xs"
    using assms(1) by (simp add: fresh_calls_def Let_def image_Un Int_Un_distrib2)
  have "R \<inter> (E \<union> N) = {}" if "R \<inter> E = {}" "C \<inter> R = {}" "N \<subseteq> C" for R C E N :: "string set"
    using that by blast
  from this [OF _ _ new(2), of "tk_uuid ` set (concat (map op_ticks ys))" "event_ids es"] assms(1)
  show "fresh_calls es' ys"
    by (simp add: fresh_calls_def Let_def image_Un Int_Un_distrib2 new(1) del: image_UN)
qed

text \<open>
  C1. The ledger never corrupts itself. Starting from empty storage, after any
  sequence of appends, checkpoints, exports, queries, verifications and restarts,
  whatever storage calls are lost or time out after committing, the stored events
  and checkpoints verify, the service is not sealed, and every event stored at an
  earlier point of the run is still there, in place.
\<close>

theorem ledger_survives_faults:
  assumes "checkpointKeyId env \<noteq> proto_key" "fresh_calls [] (calls @ later)"
  shows "let run = ledger_run H env flaky (new_service (empty_store, faults));
             before = fst (el_store (run calls)); after = fst (el_store (run (calls @ later)))
         in ledger_valid H (load_options env (im_checkpoints after)) (im_stored after) \<and>
            el_sealedReason (run (calls @ later)) = None \<and>
            (\<exists>new. im_stored after = im_stored before @ new)"
proof -
  let ?sv0 = "new_service (empty_store, faults)"
  let ?sv1 = "ledger_run H env flaky ?sv0 calls"
  let ?sv2 = "ledger_run H env flaky ?sv0 (calls @ later)"
  have s0: "im_stored (fst (el_store ?sv0)) = []" by (simp add: new_service_def)
  have "fresh_calls [] calls" using fresh_calls_split(1) [OF assms(2) grown_refl] .
  then have r1: "flk.inv H env ?sv1" "grown [] (im_stored (fst (el_store ?sv1)))
      (tk_uuid ` set (concat (map op_ticks calls)))"
    using flk.run_good [OF service_inv_new assms(1), of faults calls] s0 by simp_all
  then have "flk.inv H env ?sv2 \<and> grown (im_stored (fst (el_store ?sv1)))
      (im_stored (fst (el_store ?sv2))) (tk_uuid ` set (concat (map op_ticks later)))"
    using flk.run_good [OF r1(1) assms(1) fresh_calls_split(2) [OF assms(2) r1(2)]]
    by (simp add: ledger_run_append)
  then show ?thesis by (auto simp: Let_def service_inv_def store_good_def grown_def)
qed

text \<open>A platform and calls for the witnesses: the digest is the identity.\<close>

definition sample_host :: host where
  "sample_host = \<lparr>sha256_hex = (\<lambda>s. s), hmac_sha256_hex = (\<lambda>k s. k @ s),
     legacy_date_parse = (\<lambda>s. None)\<rparr>"

definition sample_env :: ledger_env where
  "sample_env = \<lparr>LEDGER_CHECKPOINT_KEY = replicate 32 (CHR ''k''), LEDGER_CHECKPOINT_KEY_ID = [],
     LEDGER_CHECKPOINT_RETIRED_KEYS = [], LEDGER_CHECKPOINT_LOST_KEY_IDS = [], checkpointInterval = 1\<rparr>"

definition sample_input :: LedgerEventInput where
  "sample_input = \<lparr>li_type = ''bond.issued'', li_actor = ''alice'', li_subjectType = ''bond'',
     li_subjectId = ''b1'', li_payload = None, li_correlationId = None, li_occurredAt = None\<rparr>"

definition sample_tick :: "string \<Rightarrow> tick" where
  "sample_tick u = \<lparr>tk_now = 1763164800123, tk_uuid = u, tk_checkpoint_now = 1763164800200\<rparr>"

lemma sample_now [simp]: "iso_range (tk_now (sample_tick u))"
  unfolding sample_tick_def by (simp, code_simp)

lemma sample_uuid [simp]: "tk_uuid (sample_tick u) = u"
  by (simp add: sample_tick_def)

lemma sample_key_id [simp]: "checkpointKeyId sample_env \<noteq> proto_key"
  by (simp add: checkpointKeyId_def sample_env_def proto_key_def)

theorem ledger_survives_faults_witness:
  "el_sealedReason (ledger_run sample_host sample_env flaky
     (new_service (empty_store, [Works, Works, Works, ReplyLost]))
     [Append sample_input (sample_tick ''a''), Append sample_input (sample_tick ''b'')]) = None"
  using ledger_survives_faults [of sample_env "[Append sample_input (sample_tick ''a'')]"
      "[Append sample_input (sample_tick ''b'')]" sample_host "[Works, Works, Works, ReplyLost]"]
  by (simp add: fresh_calls_def Let_def)

text \<open>
  C5. A corrupted history is never extended. Over storage whose chain or
  checkpoints do not verify, no sequence of calls, restarts included, writes
  anything.
\<close>

theorem corrupted_store_untouched:
  assumes "\<not> ledger_valid H (load_options env (im_checkpoints s)) (im_stored s)"
  shows "el_store (ledger_run H env in_memory (new_service s) calls) = s"
proof -
  have "sealed_over s (ledger_run H env in_memory sv calls)" if "sealed_over s sv" for sv
    using that by (induction calls arbitrary: sv) (simp_all add: ledger_run_def sealed_step [OF assms])
  from this [of "new_service s"] show ?thesis by (simp add: sealed_over_def new_service_def)
qed

theorem corrupted_store_untouched_witness:
  "el_store (ledger_run sample_host sample_env in_memory
     (new_service \<lparr>im_events = [JArr []], im_checkpoints = []\<rparr>)
     [Append sample_input (sample_tick ''a''), Restart, Append sample_input (sample_tick ''b'')]) =
   \<lparr>im_events = [JArr []], im_checkpoints = []\<rparr>"
  by (rule corrupted_store_untouched)
     (simp add: ledger_valid_def chain_valid_def link_ok_def isWellFormed_def is_number_def)

text \<open>
  C6. Appending. In every state the service can be in over the in-memory store, a
  valid input below capacity is stored as one new event at the end, numbered one
  above the current length, naming the current head hash, with the given
  identifier and payload, and that event is returned.
\<close>

theorem append_contract:
  assumes "service_inv H env im_stored im_checkpoints sv" "checkpointKeyId env \<noteq> proto_key"
    "iso_range (tk_now tk)" "tk_uuid tk \<notin> event_ids (im_stored (el_store sv))"
    "validate H i = Inr v" "length (im_stored (el_store sv)) < MAX_LEDGER_EVENTS"
  shows "\<exists>e sv'. appendNow H env in_memory i tk sv = (Inr e, sv') \<and>
    im_stored (el_store sv') = im_stored (el_store sv) @ [e] \<and>
    int_field ''sequence'' e = int (length (im_stored (el_store sv))) + 1 \<and>
    str_field ''previousHash'' e = chain_head LEDGER_GENESIS_HASH (im_stored (el_store sv)) \<and>
    str_field ''eventId'' e = tk_uuid tk \<and> jget ''payload'' e = Some (vi_payload v)"
proof -
  obtain r sv1 where l: "ensureLoaded H env in_memory sv = (r, sv1)" by fastforce
  note g = mem.ensureLoaded_good [OF assms(1) l]
  obtain rep where rep: "verifyLedgerEvents H (im_stored (el_store sv))
      (load_options env (im_checkpoints (el_store sv))) = Inr rep"
    using assms(1) verify_ok_iff_valid unfolding service_inv_def store_good_def by blast
  have r: "r = Inr ()"
    using l rep by (auto simp: ensureLoaded_def load_def load_both_mem init_mem Let_def
        split: if_splits sum.splits)
  note es = g(3) [OF r]
  have chain: "chain_valid H LEDGER_GENESIS_HASH 1 (el_events sv1)"
    using g(1) es by (simp add: service_inv_def store_good_alt)
  let ?e = "hash_event H (unhashed_fields i v (head_of sv1) (tk_uuid tk) (next_recordedAt sv1 (tk_now tk)))"
  have seq: "jget ''sequence'' ?e = Some (JNum (int (length (el_events sv1)) + 1))"
    by (simp add: new_event_fields head_of_chain [OF chain])
  have "jget ''sequence'' x \<noteq> jget ''sequence'' ?e" if "x \<in> set (im_events (el_store sv1))" for x
    using mem.chain_below_next [OF chain, of x] that es by (auto simp: seq int_field_def)
  then obtain s where s: "appendEvent_op in_memory ?e (el_store sv1) = (Inr (), s)"
    by (auto simp: in_memory_def im_appendEvent_def)
  have "\<exists>sv'. appendNow H env in_memory i tk sv = (Inr ?e, sv')"
    using l r s assms(5,6) es g(1,2)
    by (auto simp: appendNow_def Let_def service_inv_def)
  then obtain sv' where sv': "appendNow H env in_memory i tk sv = (Inr ?e, sv')" by blast
  from mem.appendNow_good [OF assms(1-4) this] sv' es g(2) show ?thesis
    by (intro exI [of _ ?e] exI [of _ sv']) (simp add: new_event_fields head_of_chain [OF chain])
qed

lemma service_inv_new_mem:
  "service_inv H env im_stored im_checkpoints (new_service empty_store)"
  by (simp add: service_inv_def new_service_def store_good_Nil)

lemma sample_valid: "validate sample_host sample_input = Inr \<lparr>vi_payload = JObj [], vi_occurredAt = None\<rparr>"
  unfolding sample_input_def by code_simp

theorem append_contract_witness:
  "\<exists>e sv'. appendNow sample_host sample_env in_memory sample_input (sample_tick ''a'')
       (new_service empty_store) = (Inr e, sv') \<and> im_stored (el_store sv') = [e] \<and>
     int_field ''sequence'' e = 1"
  using append_contract [OF service_inv_new_mem [of sample_host sample_env] sample_key_id sample_now
      _ sample_valid, of "''a''"]
  by (auto simp: new_service_def MAX_LEDGER_EVENTS_def)

lemma verify_options_init:
  "anchor_of (verify_options env cps head) = LEDGER_GENESIS_HASH"
  "start_of (verify_options env cps head) = 1"
  "vo_checkpoints (verify_options env cps head) = Some cps"
  "vo_expectedHeadHash (verify_options env cps head) = Some (snd head)"
  "vo_expectedLastSequence (verify_options env cps head) = Some (fst head)"
  by (simp_all add: verify_options_def verify_init_def load_options_def no_options_def)


definition sample_event :: JsonValue where
  "sample_event = hash_event sample_host (unhashed_fields sample_input
     \<lparr>vi_payload = JObj [], vi_occurredAt = None\<rparr> (0, LEDGER_GENESIS_HASH) ''a'' (toISOString 1763164800123))"

definition sample_service :: "InMemoryLedgerStore EventLedgerService" where
  "sample_service = (new_service \<lparr>im_events = [sample_event], im_checkpoints = []\<rparr>)
     \<lparr>el_loaded := True, el_events := [sample_event]\<rparr>"

lemma sample_store_good: "store_good sample_host sample_env [sample_event] []"
  using store_good_snoc [of sample_host sample_env "new_service empty_store" "[]", OF _ sample_valid,
      where uuid = "''a''" and now = 1763164800123] sample_now [of "''a''"]
  by (simp add: new_service_def store_good_Nil sample_event_def head_of_def next_recordedAt_def
      sample_tick_def)




end
