(* ===== verification/Big_Int.thy ===== *)
theory Big_Int
  imports Canonical_Json
begin

text \<open>
  \<open>BigInt(s)\<close> of a string, as the amounts of the program are read from decimal strings,
  and that it reads back every printed integer.
\<close>

section \<open>BigInt of a string\<close>

definition digit_value :: "nat \<Rightarrow> char \<Rightarrow> nat option" where
  "digit_value radix c =
     (let n = (of_char c :: nat);
          v = (if 48 \<le> n \<and> n \<le> 57 then n - 48 else if 97 \<le> n \<and> n \<le> 102 then n - 87
               else if 65 \<le> n \<and> n \<le> 70 then n - 55 else 36)
      in if v < radix then Some v else None)"

fun digits_acc :: "nat \<Rightarrow> nat \<Rightarrow> string \<Rightarrow> nat option" where
  "digits_acc radix acc [] = Some acc"
| "digits_acc radix acc (c # cs) =
     (case digit_value radix c of None \<Rightarrow> None | Some d \<Rightarrow> digits_acc radix (radix * acc + d) cs)"

definition parse_digits :: "nat \<Rightarrow> string \<Rightarrow> int option" where
  "parse_digits radix s = (if s = [] then None else map_option int (digits_acc radix 0 s))"

text \<open>\<open>BigInt(s)\<close>; \<open>None\<close> is the thrown \<open>SyntaxError\<close>.\<close>

definition BigInt :: "string \<Rightarrow> int option" where
  "BigInt s =
     (let t = js_trim s in
      if t = [] then Some 0
      else if take 2 t = ''0x'' \<or> take 2 t = ''0X'' then parse_digits 16 (drop 2 t)
      else if take 2 t = ''0o'' \<or> take 2 t = ''0O'' then parse_digits 8 (drop 2 t)
      else if take 2 t = ''0b'' \<or> take 2 t = ''0B'' then parse_digits 2 (drop 2 t)
      else if hd t = CHR ''-'' then map_option uminus (parse_digits 10 (tl t))
      else if hd t = CHR ''+'' then parse_digits 10 (tl t)
      else parse_digits 10 t)"

section \<open>Printed integers read back\<close>

lemma digit_value_digit: "is_digit_char c \<Longrightarrow> digit_value 10 c = Some (of_char c - 48)"
  by (auto simp: digit_value_def is_digit_char_def Let_def)

lemma digits_acc_digits:
  "list_all is_digit_char s \<Longrightarrow> digits_acc 10 acc s = Some (foldl (\<lambda>acc c. 10 * acc + (of_char c - 48)) acc s)"
  by (induction s arbitrary: acc) (auto simp: digit_value_digit)

lemma parse_digits_nat_str: "parse_digits 10 (nat_str n) = Some (int n)"
  using nat_str_digits [of n] nat_str_val [of n]
  by (simp add: parse_digits_def nat_str_nonempty digits_acc_digits digits_val_def [symmetric])

lemma js_trim_no_space: "\<forall>c\<in>set s. \<not> is_space c \<Longrightarrow> js_trim s = s"
proof -
  assume a: "\<forall>c\<in>set s. \<not> is_space c"
  have "dropWhile is_space xs = xs" if "\<forall>c\<in>set xs. \<not> is_space c" for xs using that by (cases xs) auto
  from this [OF a] this [of "rev s"] a show ?thesis by (simp add: js_trim_def)
qed

lemma digit_not_space: "is_digit_char c \<Longrightarrow> \<not> is_space c"
  by (auto simp: is_digit_char_def is_space_def)

lemma take2_digits: "list_all is_digit_char s \<Longrightarrow> take 2 s \<noteq> [a, b] \<or> is_digit_char b"
  by (cases s; cases "tl s") (auto simp: numeral_2_eq_2)

lemma BigInt_int_str: "BigInt (int_str i) = Some i"
proof (cases "i < 0")
  case True
  have "js_trim (CHR ''-'' # nat_str n) = CHR ''-'' # nat_str n" for n
    using nat_str_digits [of n] by (intro js_trim_no_space) (auto simp: list_all_iff digit_not_space, simp add: is_space_def)
  with True show ?thesis by (simp add: int_str_def BigInt_def parse_digits_nat_str)
next
  case False
  let ?s = "nat_str (nat i)"
  have d: "list_all is_digit_char ?s" by (rule nat_str_digits)
  then have t: "js_trim ?s = ?s" by (intro js_trim_no_space) (auto simp: list_all_iff digit_not_space)
  have "take 2 ?s \<noteq> [a, b]" if "\<not> is_digit_char b" for a b using take2_digits [OF d] that by blast
  moreover have "hd ?s \<noteq> CHR ''-''" "hd ?s \<noteq> CHR ''+''"
    using nat_str_hd [of "nat i"] by (auto simp: is_digit_char_def)
  ultimately show ?thesis
    using False t by (simp add: int_str_def BigInt_def Let_def parse_digits_nat_str nat_str_nonempty is_digit_char_def)
qed

end
