(* ===== verification/Fee_Calculation.thy ===== *)
theory Fee_Calculation
  imports Big_Int
begin

text \<open>
  The deterministic fee calculation of \<open>api/src/fees/fee-calculation.ts\<close>. Amounts are
  \<open>bigint\<close> (\<open>int\<close>), rendered to and read back from decimal strings as the code does;
  basis points and decimals arrive as JavaScript numbers (\<open>jsnum\<close>). The error type
  has one constructor per message of the source, with the data the message shows.
\<close>

section \<open>The calculation\<close>

record FeeScheduleLine =
  fs_code :: string
  fs_label :: string
  fs_basisPoints :: jsnum
  fs_minFeeMinorUnits :: "int option"
  fs_maxFeeMinorUnits :: "int option"

datatype clamp = ClampMin | ClampMax

record FeeLineItem =
  fi_code :: string
  fi_label :: string
  fi_basisPoints :: jsnum
  fi_rawAmountMinorUnits :: string
  fi_amountMinorUnits :: string
  fi_clamped :: "clamp option"

record FeeBreakdown =
  fb_inputAmountMinorUnits :: string
  fb_assetDecimals :: jsnum
  fb_lines :: "FeeLineItem list"
  fb_totalFeeMinorUnits :: string
  fb_netAmountMinorUnits :: string

datatype InvalidFeeInputError = BadAssetDecimals jsnum | NotAnInteger string string
  | NegativeAmount string int | BadBasisPoints string jsnum | DuplicateCode string

datatype amount_input = BigIntAmount int | StringAmount string

definition MAX_ASSET_DECIMALS :: int where
  "MAX_ASSET_DECIMALS = 18"

definition assertValidAssetDecimals :: "jsnum \<Rightarrow> InvalidFeeInputError + unit" where
  "assertValidAssetDecimals d =
     (if \<not> isInteger d \<or> num_less d (num_of_int 0) \<or> num_less (num_of_int MAX_ASSET_DECIMALS) d
      then Inl (BadAssetDecimals d) else Inr ())"

definition parseAmount :: "amount_input \<Rightarrow> string \<Rightarrow> InvalidFeeInputError + int" where
  "parseAmount a field =
     (case (case a of BigIntAmount i \<Rightarrow> Some i | StringAmount s \<Rightarrow> BigInt s) of
        None \<Rightarrow> Inl (NotAnInteger field (case a of BigIntAmount i \<Rightarrow> int_str i | StringAmount s \<Rightarrow> s))
      | Some v \<Rightarrow> if v < 0 then Inl (NegativeAmount field v) else Inr v)"

definition bad_basis_points :: "jsnum \<Rightarrow> bool" where
  "bad_basis_points b \<longleftrightarrow> \<not> isInteger b \<or> num_less b (num_of_int 0) \<or> num_less (num_of_int 10000) b"

definition assertValidBasisPoints :: "FeeScheduleLine \<Rightarrow> InvalidFeeInputError + unit" where
  "assertValidBasisPoints l =
     (if bad_basis_points (fs_basisPoints l) then Inl (BadBasisPoints (fs_code l) (fs_basisPoints l)) else Inr ())"

text \<open>\<open>bigint\<close> division truncates; the dividend is never negative here.\<close>

definition applyBasisPoints :: "int \<Rightarrow> int \<Rightarrow> int" where
  "applyBasisPoints amount bps = (amount * bps + 5000) div 10000"

definition charge :: "FeeScheduleLine \<Rightarrow> int \<Rightarrow> int \<times> clamp option" where
  "charge l raw =
     (let (c1, k1) = (case fs_minFeeMinorUnits l of None \<Rightarrow> (raw, None)
                      | Some mn \<Rightarrow> if raw < mn then (mn, Some ClampMin) else (raw, None))
      in case fs_maxFeeMinorUnits l of None \<Rightarrow> (c1, k1)
         | Some mx \<Rightarrow> if c1 > mx then (mx, Some ClampMax) else (c1, k1))"

definition fee_line :: "int \<Rightarrow> FeeScheduleLine \<Rightarrow> FeeLineItem" where
  "fee_line amount l =
     (let raw = applyBasisPoints amount (num_floor (fs_basisPoints l)); (charged, clamped) = charge l raw
      in \<lparr>fi_code = fs_code l, fi_label = fs_label l, fi_basisPoints = fs_basisPoints l,
          fi_rawAmountMinorUnits = int_str raw, fi_amountMinorUnits = int_str charged,
          fi_clamped = clamped\<rparr>)"

text \<open>\<open>schedule.map\<close> with the set of codes seen so far; the first bad line throws.\<close>

fun fee_lines :: "int \<Rightarrow> string list \<Rightarrow> FeeScheduleLine list \<Rightarrow> InvalidFeeInputError + FeeLineItem list" where
  "fee_lines amount seen [] = Inr []"
| "fee_lines amount seen (l # ls) =
     (case assertValidBasisPoints l of
        Inl e \<Rightarrow> Inl e
      | Inr _ \<Rightarrow>
          (if fs_code l \<in> set seen then Inl (DuplicateCode (fs_code l))
           else case fee_lines amount (fs_code l # seen) ls of
                  Inl e \<Rightarrow> Inl e
                | Inr items \<Rightarrow> Inr (fee_line amount l # items)))"

text \<open>\<open>reduce\<close> over the line items, reading each amount back from its string.\<close>

definition total_raw :: "FeeLineItem list \<Rightarrow> int" where
  "total_raw items = foldl (\<lambda>sum i. sum + (case BigInt (fi_amountMinorUnits i) of None \<Rightarrow> 0 | Some v \<Rightarrow> v)) 0 items"

definition calculateFees ::
  "amount_input \<Rightarrow> FeeScheduleLine list \<Rightarrow> jsnum \<Rightarrow> InvalidFeeInputError + FeeBreakdown" where
  "calculateFees a schedule assetDecimals =
     (case assertValidAssetDecimals assetDecimals of
        Inl e \<Rightarrow> Inl e
      | Inr _ \<Rightarrow>
          (case parseAmount a ''amountMinorUnits'' of
             Inl e \<Rightarrow> Inl e
           | Inr amount \<Rightarrow>
               (case fee_lines amount [] schedule of
                  Inl e \<Rightarrow> Inl e
                | Inr lines \<Rightarrow>
                    (let totalFeeRaw = total_raw lines;
                         totalFee = (if totalFeeRaw > amount then amount else totalFeeRaw);
                         net = amount - totalFee
                     in Inr \<lparr>fb_inputAmountMinorUnits = int_str amount, fb_assetDecimals = assetDecimals,
                             fb_lines = lines, fb_totalFeeMinorUnits = int_str totalFee,
                             fb_netAmountMinorUnits = int_str net\<rparr>))))"

section \<open>Characterisation\<close>

lemma charge_eq:
  "fst (charge l raw) =
     (let c = (case fs_minFeeMinorUnits l of None \<Rightarrow> raw | Some mn \<Rightarrow> max raw mn) in
      case fs_maxFeeMinorUnits l of None \<Rightarrow> c | Some mx \<Rightarrow> min c mx)"
  by (auto simp: charge_def Let_def max_def min_def split: option.splits)

abbreviation charged :: "int \<Rightarrow> FeeScheduleLine \<Rightarrow> int" where
  "charged amount l \<equiv> fst (charge l (applyBasisPoints amount (num_floor (fs_basisPoints l))))"

lemma fee_lines_result:
  "fee_lines amount seen ls = Inr items \<Longrightarrow>
     (\<forall>l\<in>set ls. \<not> bad_basis_points (fs_basisPoints l)) \<and> distinct (map fs_code ls) \<and>
     set (map fs_code ls) \<inter> set seen = {} \<and> items = map (fee_line amount) ls"
proof (induction ls arbitrary: seen items)
  case (Cons l ls)
  from Cons.prems obtain ys where "fee_lines amount (fs_code l # seen) ls = Inr ys"
    "items = fee_line amount l # ys" "\<not> bad_basis_points (fs_basisPoints l)" "fs_code l \<notin> set seen"
    by (auto simp: assertValidBasisPoints_def split: sum.splits if_splits)
  with Cons.IH [OF this(1)] show ?case by auto
qed simp

lemma fee_lines_succeeds:
  "\<forall>l\<in>set ls. \<not> bad_basis_points (fs_basisPoints l) \<Longrightarrow> distinct (map fs_code ls) \<Longrightarrow>
   set (map fs_code ls) \<inter> set seen = {} \<Longrightarrow> fee_lines amount seen ls = Inr (map (fee_line amount) ls)"
proof (induction ls arbitrary: seen)
  case (Cons l ls)
  then have "fee_lines amount (fs_code l # seen) ls = Inr (map (fee_line amount) ls)"
    by (intro Cons.IH) auto
  with Cons.prems show ?case by (simp add: assertValidBasisPoints_def)
qed simp

lemma total_raw_lines: "total_raw (map (fee_line amount) ls) = sum_list (map (charged amount) ls)"
proof -
  have "foldl (\<lambda>sum i. sum + (case BigInt (fi_amountMinorUnits i) of None \<Rightarrow> 0 | Some v \<Rightarrow> v)) acc
      (map (fee_line amount) ls) = acc + sum_list (map (charged amount) ls)" for acc
    by (induction ls arbitrary: acc) (auto simp: fee_line_def Let_def split_beta BigInt_int_str)
  then show ?thesis by (simp add: total_raw_def)
qed

lemma round_half_up:
  assumes "0 \<le> a" "0 \<le> b"
  shows "10000 * applyBasisPoints a b \<le> a * b + 5000" "a * b + 5000 < 10000 * applyBasisPoints a b + 10000"
proof -
  let ?x = "a * b + 5000"
  have "10000 * (?x div 10000) + ?x mod 10000 = ?x" by (rule mult_div_mod_eq)
  moreover have "0 \<le> ?x mod 10000" "?x mod 10000 < 10000" by simp_all
  ultimately show "10000 * applyBasisPoints a b \<le> ?x" "?x < 10000 * applyBasisPoints a b + 10000"
    unfolding applyBasisPoints_def by linarith+
qed

lemma good_basis_points: "\<not> bad_basis_points b \<Longrightarrow> \<exists>n. b = num_of_int n \<and> 0 \<le> n \<and> n \<le> 10000"
  by (auto simp: bad_basis_points_def isInteger_conv)

section \<open>Properties\<close>

text \<open>
  C30. Input checking is exact. \<open>calculateFees\<close> returns a breakdown exactly when the
  number of decimals is an integer from 0 to 18, the amount reads as a
  non-negative integer, every rate is an integer from 0 to 10000 and no code
  occurs twice; otherwise it throws.
\<close>

theorem fee_inputs_checked:
  "(\<exists>b. calculateFees a schedule d = Inr b) \<longleftrightarrow>
     (\<exists>n. d = num_of_int n \<and> 0 \<le> n \<and> n \<le> 18) \<and>
     (\<exists>A. (a = BigIntAmount A \<or> (\<exists>s. a = StringAmount s \<and> BigInt s = Some A)) \<and> 0 \<le> A) \<and>
     list_all (\<lambda>l. \<exists>n. fs_basisPoints l = num_of_int n \<and> 0 \<le> n \<and> n \<le> 10000) schedule \<and>
     distinct (map fs_code schedule)"
proof -
  have dec: "assertValidAssetDecimals d = Inr () \<longleftrightarrow> (\<exists>n. d = num_of_int n \<and> 0 \<le> n \<and> n \<le> 18)"
    by (auto simp: assertValidAssetDecimals_def MAX_ASSET_DECIMALS_def isInteger_conv)
  have amt: "(\<exists>A. parseAmount a f = Inr A) \<longleftrightarrow>
      (\<exists>A. (a = BigIntAmount A \<or> (\<exists>s. a = StringAmount s \<and> BigInt s = Some A)) \<and> 0 \<le> A)" for f
    by (cases a) (auto simp: parseAmount_def not_less split: option.splits)
  have bps: "\<not> bad_basis_points b \<longleftrightarrow> (\<exists>n. b = num_of_int n \<and> 0 \<le> n \<and> n \<le> 10000)" for b
    by (auto simp: bad_basis_points_def isInteger_conv)
  have lines: "(\<exists>items. fee_lines A [] schedule = Inr items) \<longleftrightarrow>
      list_all (\<lambda>l. \<not> bad_basis_points (fs_basisPoints l)) schedule \<and> distinct (map fs_code schedule)" for A
    using fee_lines_result [of A "[]" schedule] fee_lines_succeeds [of schedule "[]" A]
    by (auto simp: list_all_iff)
  have "(\<exists>b. calculateFees a schedule d = Inr b) \<longleftrightarrow> assertValidAssetDecimals d = Inr () \<and>
      (\<exists>A. parseAmount a ''amountMinorUnits'' = Inr A \<and> (\<exists>items. fee_lines A [] schedule = Inr items))"
    by (auto simp: calculateFees_def Let_def split: sum.splits)
  then show ?thesis unfolding lines dec bps ex_simps amt .
qed

text \<open>
  C18. The breakdown is exact. Whenever \<open>calculateFees\<close> returns, the decimal
  strings of the breakdown read back as an input amount \<open>A\<close>, a total \<open>T\<close> and a net
  \<open>N\<close> with \<open>N + T = A\<close>; there is one line per schedule entry, in order, charging the
  rate rounded half up and clamped by the entry's minimum and then its maximum;
  the total is the sum of the lines capped at the amount; and if no maximum is
  negative, neither the total nor the net is.
\<close>

theorem fee_breakdown_exact:
  assumes "calculateFees a schedule d = Inr b"
  shows "\<exists>A T N. BigInt (fb_inputAmountMinorUnits b) = Some A \<and> BigInt (fb_totalFeeMinorUnits b) = Some T \<and>
     BigInt (fb_netAmountMinorUnits b) = Some N \<and> N + T = A \<and> 0 \<le> A \<and> 0 \<le> N \<and>
     map (BigInt \<circ> fi_amountMinorUnits) (fb_lines b) = map (Some \<circ> charged A) schedule \<and>
     map fi_code (fb_lines b) = map fs_code schedule \<and> distinct (map fs_code schedule) \<and>
     T = min A (sum_list (map (charged A) schedule)) \<and>
     (list_all (\<lambda>l. case fs_maxFeeMinorUnits l of None \<Rightarrow> True | Some m \<Rightarrow> 0 \<le> m) schedule \<longrightarrow> 0 \<le> T)"
proof -
  from assms obtain A items where pa: "parseAmount a ''amountMinorUnits'' = Inr A"
    and fl: "fee_lines A [] schedule = Inr items"
    and b: "b = \<lparr>fb_inputAmountMinorUnits = int_str A, fb_assetDecimals = d, fb_lines = items,
      fb_totalFeeMinorUnits = int_str (min A (total_raw items)),
      fb_netAmountMinorUnits = int_str (A - min A (total_raw items))\<rparr>"
    by (auto simp: calculateFees_def Let_def min_def split: sum.splits)
  have A: "0 \<le> A" using pa by (auto simp: parseAmount_def split: option.splits if_splits)
  note ok = fee_lines_result [OF fl]
  have raw: "0 \<le> applyBasisPoints A (num_floor (fs_basisPoints l))" if "l \<in> set schedule" for l
  proof -
    from ok that obtain n where "fs_basisPoints l = num_of_int n" "0 \<le> n" using good_basis_points by blast
    with A show ?thesis by (simp add: applyBasisPoints_def pos_imp_zdiv_nonneg_iff)
  qed
  have "0 \<le> sum_list (map (charged A) schedule)"
    if "list_all (\<lambda>l. case fs_maxFeeMinorUnits l of None \<Rightarrow> True | Some m \<Rightarrow> 0 \<le> m) schedule"
    using that raw by (intro sum_list_nonneg) (auto simp: list_all_iff charge_eq Let_def le_max_iff_disj split: option.splits)
  with A ok show ?thesis
    by (intro exI [of _ A] exI [of _ "min A (total_raw items)"] exI [of _ "A - min A (total_raw items)"])
       (auto simp: b BigInt_int_str total_raw_lines fee_line_def Let_def split_beta)
qed

theorem fee_breakdown_exact_witness:
  "\<exists>b A T N. calculateFees (StringAmount ''1000'')
      [\<lparr>fs_code = ''platform'', fs_label = ''Platform'', fs_basisPoints = Num 25,
        fs_minFeeMinorUnits = Some 5, fs_maxFeeMinorUnits = None\<rparr>] (Num 7) = Inr b \<and>
     BigInt (fb_totalFeeMinorUnits b) = Some T \<and> BigInt (fb_netAmountMinorUnits b) = Some N \<and>
     N + T = A \<and> BigInt (fb_inputAmountMinorUnits b) = Some A"
proof -
  let ?s = "[\<lparr>fs_code = ''platform'', fs_label = ''Platform'', fs_basisPoints = Num 25,
        fs_minFeeMinorUnits = Some 5, fs_maxFeeMinorUnits = None\<rparr>]"
  have "case calculateFees (StringAmount ''1000'') ?s (Num 7) of Inl _ \<Rightarrow> False | Inr _ \<Rightarrow> True"
    by code_simp
  then obtain b where b: "calculateFees (StringAmount ''1000'') ?s (Num 7) = Inr b"
    by (auto split: sum.splits)
  from fee_breakdown_exact [OF this] b show ?thesis by blast
qed

end
