(* ===== verification/Record_Lifecycle.thy ===== *)
theory Record_Lifecycle
  imports Iso_Date
begin

text \<open>
  The archive and restore lifecycle of \<open>api/src/common/lifecycle/record-lifecycle.ts\<close>:
  every record that a reader may have to hide carries a \<open>RecordLifecycle\<close>, and
  visibility is derived from it. Errors carry the source's error code; an absent
  optional string is \<open>None\<close>.
\<close>

section \<open>Definitions\<close>

datatype ArchiveState = Active | Archived

datatype ArchiveAction = Archive | Restore

record ArchiveEvent =
  ae_at :: string
  ae_action :: ArchiveAction
  ae_actor :: string
  ae_reason :: "string option"

record RecordLifecycle =
  lc_state :: ArchiveState
  lc_archivedAt :: "string option"
  lc_archivedBy :: "string option"
  lc_archiveReason :: "string option"
  lc_restoredAt :: "string option"
  lc_restoredBy :: "string option"
  lc_history :: "ArchiveEvent list"

datatype LifecycleErrorCode = already_archived | not_archived | missing_actor | missing_reason | archived

datatype LifecycleError = LifecycleError string LifecycleErrorCode

record TransitionInput =
  ti_actor :: string
  ti_reason :: "string option"
  ti_now :: instant

record Archivable =
  ar_lifecycle :: RecordLifecycle
  ar_id :: "string option"

definition activeLifecycle :: RecordLifecycle where
  "activeLifecycle = \<lparr>lc_state = Active, lc_archivedAt = None, lc_archivedBy = None,
     lc_archiveReason = None, lc_restoredAt = None, lc_restoredBy = None, lc_history = []\<rparr>"

definition isArchived :: "'x Archivable_scheme \<Rightarrow> bool" where
  "isArchived r \<longleftrightarrow> lc_state (ar_lifecycle r) = Archived"

definition requireActor :: "string \<Rightarrow> LifecycleError + string" where
  "requireActor actor =
     (let trimmed = js_trim actor in
      if trimmed = []
      then Inl (LifecycleError ''an actor is required to change a record lifecycle'' missing_actor)
      else Inr trimmed)"

definition archiveRecord :: "RecordLifecycle \<Rightarrow> TransitionInput \<Rightarrow> LifecycleError + RecordLifecycle" where
  "archiveRecord l i =
     (case requireActor (ti_actor i) of
        Inl e \<Rightarrow> Inl e
      | Inr actor \<Rightarrow>
          (let reason = (case ti_reason i of None \<Rightarrow> [] | Some r \<Rightarrow> js_trim r) in
           if reason = []
           then Inl (LifecycleError ''a reason is required to archive a record'' missing_reason)
           else if lc_state l = Archived
           then Inl (LifecycleError ''record is already archived'' already_archived)
           else
             (let at0 = toISOString (ti_now i) in
              Inr (l\<lparr>lc_state := Archived, lc_archivedAt := Some at0, lc_archivedBy := Some actor,
                    lc_archiveReason := Some reason, lc_restoredAt := None, lc_restoredBy := None,
                    lc_history := lc_history l @ [\<lparr>ae_at = at0, ae_action = Archive, ae_actor = actor,
                       ae_reason = Some reason\<rparr>]\<rparr>))))"

definition restoreRecord :: "RecordLifecycle \<Rightarrow> TransitionInput \<Rightarrow> LifecycleError + RecordLifecycle" where
  "restoreRecord l i =
     (case requireActor (ti_actor i) of
        Inl e \<Rightarrow> Inl e
      | Inr actor \<Rightarrow>
          (if lc_state l \<noteq> Archived
           then Inl (LifecycleError ''record is not archived'' not_archived)
           else
             (let at0 = toISOString (ti_now i) in
              Inr (l\<lparr>lc_state := Active, lc_restoredAt := Some at0, lc_restoredBy := Some actor,
                    lc_history := lc_history l @ [\<lparr>ae_at = at0, ae_action = Restore, ae_actor = actor,
                       ae_reason = None\<rparr>]\<rparr>))))"

definition visibleOnly :: "'x Archivable_scheme list \<Rightarrow> 'x Archivable_scheme list" where
  "visibleOnly rs = filter (\<lambda>r. \<not> isArchived r) rs"

definition includeArchived :: "'x Archivable_scheme list \<Rightarrow> bool \<Rightarrow> 'x Archivable_scheme list" where
  "includeArchived rs incl = (if incl then rs else visibleOnly rs)"

definition recordKey :: "'x Archivable_scheme \<Rightarrow> string" where
  "recordKey r = (case ar_id r of None \<Rightarrow> ''record'' | Some i \<Rightarrow> i)"

definition assertNotArchived :: "'x Archivable_scheme \<Rightarrow> string \<Rightarrow> LifecycleError + unit" where
  "assertNotArchived r action =
     (if isArchived r
      then Inl (LifecycleError (recordKey r @ '' is archived; restore it before '' @ action) archived)
      else Inr ())"

definition systemActor :: "string \<Rightarrow> string" where
  "systemActor name = ''system:'' @ (if js_trim name = [] then ''unknown'' else js_trim name)"

section \<open>Sequences of transitions\<close>

text \<open>A caller's sequence of attempts; an attempt that throws leaves the record as it was.\<close>

fun lifecycle_step :: "RecordLifecycle \<Rightarrow> ArchiveAction \<times> TransitionInput \<Rightarrow> RecordLifecycle" where
  "lifecycle_step l (Archive, i) = (case archiveRecord l i of Inl _ \<Rightarrow> l | Inr l' \<Rightarrow> l')"
| "lifecycle_step l (Restore, i) = (case restoreRecord l i of Inl _ \<Rightarrow> l | Inr l' \<Rightarrow> l')"

definition lifecycle_run :: "RecordLifecycle \<Rightarrow> (ArchiveAction \<times> TransitionInput) list \<Rightarrow> RecordLifecycle" where
  "lifecycle_run l calls = foldl lifecycle_step l calls"

definition event_ok :: "ArchiveEvent \<Rightarrow> bool" where
  "event_ok e \<longleftrightarrow> ae_actor e \<noteq> [] \<and> js_trim (ae_actor e) = ae_actor e \<and>
     (ae_action e = Archive \<longleftrightarrow> ae_reason e \<noteq> None) \<and> ae_reason e \<noteq> Some []"

text \<open>
  The history alternates, starting with an archive; the state and the attribution
  of the last archive can be read off it.
\<close>

definition lifecycle_inv :: "RecordLifecycle \<Rightarrow> bool" where
  "lifecycle_inv l \<longleftrightarrow>
     (\<forall>k<length (lc_history l). ae_action (lc_history l ! k) = (if even k then Archive else Restore)) \<and>
     (lc_state l = Archived \<longleftrightarrow> odd (length (lc_history l))) \<and>
     list_all event_ok (lc_history l) \<and>
     (let archives = filter (\<lambda>e. ae_action e = Archive) (lc_history l) in
      lc_archivedBy l = (if archives = [] then None else Some (ae_actor (last archives))) \<and>
      lc_archiveReason l = (if archives = [] then None else ae_reason (last archives)) \<and>
      lc_archivedAt l = (if archives = [] then None else Some (ae_at (last archives))))"

lemma archiveRecord_inv:
  assumes "lifecycle_inv l" "archiveRecord l i = Inr l'"
  shows "lifecycle_inv l'"
  using assms
  by (auto simp: archiveRecord_def requireActor_def Let_def lifecycle_inv_def event_ok_def nth_append
      less_Suc_eq js_trim_idem split: if_splits sum.splits)

lemma restoreRecord_inv:
  assumes "lifecycle_inv l" "restoreRecord l i = Inr l'"
  shows "lifecycle_inv l'"
  using assms
  by (auto simp: restoreRecord_def requireActor_def Let_def lifecycle_inv_def event_ok_def nth_append
      less_Suc_eq js_trim_idem split: if_splits sum.splits)

lemma lifecycle_step_inv: "lifecycle_inv l \<Longrightarrow> lifecycle_inv (lifecycle_step l c)"
  by (cases "(l, c)" rule: lifecycle_step.cases)
     (auto split: sum.splits intro: archiveRecord_inv restoreRecord_inv)

lemma lifecycle_step_history: "\<exists>new. lc_history (lifecycle_step l c) = lc_history l @ new"
  by (cases "(l, c)" rule: lifecycle_step.cases)
     (auto simp: archiveRecord_def restoreRecord_def Let_def split: sum.splits)

section \<open>Properties\<close>

text \<open>
  C29. The history of a record explains it. After any sequence of archive and
  restore attempts on a new record, the history alternates archive, restore,
  archive, ... starting with an archive, every entry names a non-blank trimmed
  actor and every archive a reason, the record is archived exactly when the last
  entry is an archive, the attribution fields repeat the last archive, and the
  history only ever grows.
\<close>

theorem lifecycle_explained_by_history:
  "lifecycle_inv (lifecycle_run activeLifecycle calls) \<and>
   (\<exists>new. lc_history (lifecycle_run activeLifecycle (calls @ later)) =
      lc_history (lifecycle_run activeLifecycle calls) @ new)"
proof -
  have inv: "lifecycle_inv l \<Longrightarrow> lifecycle_inv (lifecycle_run l calls)" for l
    by (induction calls arbitrary: l) (auto simp: lifecycle_run_def lifecycle_step_inv)
  have grow: "\<exists>new. lc_history (foldl lifecycle_step l later) = lc_history l @ new" for l
  proof (induction later arbitrary: l)
    case (Cons c cs)
    from Cons.IH [of "lifecycle_step l c"] lifecycle_step_history [of l c] show ?case by auto
  qed simp
  have "lifecycle_inv activeLifecycle" by (simp add: lifecycle_inv_def activeLifecycle_def)
  from inv [OF this] grow show ?thesis by (simp add: lifecycle_run_def)
qed

end
