(* ===== verification/Time_Bounded.thy ===== *)
theory Time_Bounded
  imports Iso_Date
begin

text \<open>
  What the authorization, invitation and impersonation services have in common:
  they keep time-bounded permissions, and once one of them has lapsed or was
  withdrawn, no later call may bring it back to life. The locale states the
  contract one operation at a time and derives it for every sequence of calls.
\<close>

section \<open>Instants\<close>

text \<open>
  \<open>new Date(n).toISOString()\<close>: the time value is truncated to whole milliseconds,
  and outside the range of a \<open>Date\<close> the call throws (\<open>None\<close>).
\<close>

definition time_clip :: "rat \<Rightarrow> instant option" where
  "time_clip q = (if \<bar>q\<bar> > 8640000000000000 then None
     else Some (if q < 0 then \<lceil>q\<rceil> else \<lfloor>q\<rfloor>))"

definition instant_plus :: "instant \<Rightarrow> jsnum \<Rightarrow> instant option" where
  "instant_plus now x = (case x of Num q \<Rightarrow> time_clip (of_int now + q) | _ \<Rightarrow> None)"

lemma instant_plus_le:
  "instant_plus now (Num q) = Some t \<Longrightarrow> 0 \<le> q \<Longrightarrow> 0 \<le> now \<Longrightarrow> now \<le> t \<and> of_int t \<le> of_int now + q"
  by (auto simp: instant_plus_def time_clip_def le_floor_iff split: if_splits)

section \<open>Sequences of calls\<close>

fun ok_run :: "('s \<Rightarrow> 'o \<Rightarrow> 's) \<Rightarrow> ('s \<Rightarrow> 'o \<Rightarrow> bool) \<Rightarrow> 's \<Rightarrow> 'o list \<Rightarrow> bool" where
  "ok_run step ok s [] = True"
| "ok_run step ok s (c # cs) = (ok s c \<and> ok_run step ok (step s c) cs)"

text \<open>
  A permission is \<open>known\<close> once it was created and \<open>live\<close> while it permits something.
  A call is \<open>ok\<close> if the identifiers it introduces are new.
\<close>

locale time_bounded =
  fixes step :: "'s \<Rightarrow> 'o \<Rightarrow> 's"
    and ok :: "'s \<Rightarrow> 'o \<Rightarrow> bool"
    and known :: "'s \<Rightarrow> 'i \<Rightarrow> bool"
    and live :: "'s \<Rightarrow> 'i \<Rightarrow> instant \<Rightarrow> bool"
  assumes live_earlier: "live s i t' \<Longrightarrow> t \<le> t' \<Longrightarrow> live s i t"
    and known_step: "ok s c \<Longrightarrow> known s i \<Longrightarrow> known (step s c) i"
    and no_revival: "ok s c \<Longrightarrow> known s i \<Longrightarrow> live (step s c) i t \<Longrightarrow> live s i t"
begin

lemma known_run: "ok_run step ok s cs \<Longrightarrow> known s i \<Longrightarrow> known (foldl step s cs) i"
  by (induction cs arbitrary: s) (auto intro: known_step)

lemma live_run: "ok_run step ok s cs \<Longrightarrow> known s i \<Longrightarrow> live (foldl step s cs) i t \<Longrightarrow> live s i t"
  by (induction cs arbitrary: s) (auto intro: known_step no_revival)

lemma dead_stays_dead:
  "ok_run step ok s cs \<Longrightarrow> known s i \<Longrightarrow> \<not> live s i t \<Longrightarrow> t \<le> t' \<Longrightarrow> \<not> live (foldl step s cs) i t'"
  using live_run live_earlier by blast

end

end
