(* ===== verification/Authorization.thy ===== *)
theory Authorization
  imports Time_Bounded
begin

text \<open>
  Delegated authorization grants: \<open>api/src/authorizations/authorization.interface.ts\<close> and
  \<open>authorization.service.ts\<close>. The service keeps a \<open>Map\<close> from grant ids to grants; the
  ISO strings of a grant are only parsed back, so the model stores instants. Ids
  come from \<open>randomUUID\<close> and clock readings from the caller. An operation returns the
  error or the result, and the new map, which \<open>renew\<close> may have changed before it
  throws.
\<close>

section \<open>Definitions\<close>

datatype AuthorizationStatus = Active | Expired | Revoked

datatype AuthorizationAuditKind = Granted | Renewed | RevokedBy | ExpiredBy

record AuthorizationAuditEntry =
  au_at :: instant
  au_event :: AuthorizationAuditKind
  au_actor :: string
  au_note :: "string option"

record AuthorizationGrant =
  ag_id :: string
  ag_subjectAddress :: string
  ag_scope :: string
  ag_grantedBy :: string
  ag_grantedAt :: instant
  ag_expiresAt :: instant
  ag_status :: AuthorizationStatus
  ag_renewedFromId :: "string option"
  ag_renewedById :: "string option"
  ag_revokedAt :: "instant option"
  ag_revokedBy :: "string option"
  ag_audit :: "AuthorizationAuditEntry list"

datatype AuthorizationError = not_found | already_revoked | not_active | unauthorized_actor
  | invalid_expiry | RangeError

type_synonym grants = "(string, AuthorizationGrant) js_map"

definition bad_ttl :: "jsnum \<Rightarrow> bool" where
  "bad_ttl ttlMs \<longleftrightarrow> \<not> isFinite ttlMs \<or> num_le ttlMs (num_of_int 0)"

definition new_grant ::
  "string \<Rightarrow> string \<Rightarrow> string \<Rightarrow> string \<Rightarrow> instant \<Rightarrow> instant \<Rightarrow> string option \<Rightarrow> AuthorizationGrant" where
  "new_grant uuid subject scope grantor now expires renewedFrom =
     \<lparr>ag_id = uuid, ag_subjectAddress = subject, ag_scope = scope, ag_grantedBy = grantor,
      ag_grantedAt = now, ag_expiresAt = expires, ag_status = Active, ag_renewedFromId = renewedFrom,
      ag_renewedById = None, ag_revokedAt = None, ag_revokedBy = None,
      ag_audit = [\<lparr>au_at = now, au_event = Granted, au_actor = grantor,
        au_note = map_option (\<lambda>i. ''renewed from '' @ i) renewedFrom\<rparr>]\<rparr>"

definition grant ::
  "grants \<Rightarrow> string \<Rightarrow> string \<Rightarrow> string \<Rightarrow> string \<Rightarrow> jsnum \<Rightarrow> instant \<Rightarrow>
   (AuthorizationError + AuthorizationGrant) \<times> grants" where
  "grant gs uuid subject scope grantedBy ttlMs now =
     (if bad_ttl ttlMs then (Inl invalid_expiry, gs)
      else case instant_plus now ttlMs of
             None \<Rightarrow> (Inl RangeError, gs)
           | Some expires \<Rightarrow>
               (let r = new_grant uuid subject scope grantedBy now expires None in
                (Inr r, js_set uuid r gs)))"

definition effectiveStatus :: "AuthorizationGrant \<Rightarrow> instant \<Rightarrow> AuthorizationStatus" where
  "effectiveStatus g now =
     (if ag_status g = Revoked then Revoked
      else if now \<ge> ag_expiresAt g then Expired else ag_status g)"

definition get :: "grants \<Rightarrow> string \<Rightarrow> AuthorizationError + AuthorizationGrant" where
  "get gs i = (case map_of gs i of None \<Rightarrow> Inl not_found | Some r \<Rightarrow> Inr r)"

definition isActive :: "grants \<Rightarrow> string \<Rightarrow> instant \<Rightarrow> bool" where
  "isActive gs i now = (case map_of gs i of None \<Rightarrow> False | Some r \<Rightarrow> effectiveStatus r now = Active)"

definition expire_grant :: "instant \<Rightarrow> AuthorizationGrant \<Rightarrow> AuthorizationGrant" where
  "expire_grant now r =
     (if ag_status r = Active \<and> effectiveStatus r now = Expired
      then r\<lparr>ag_status := Expired, ag_audit := ag_audit r @
        [\<lparr>au_at = now, au_event = ExpiredBy, au_actor = ''system:cleanup'', au_note = None\<rparr>]\<rparr>
      else r)"

record CleanupReport =
  cr_scannedAt :: instant
  cr_scanned :: nat
  cr_expiredIds :: "string list"

definition cleanupExpired :: "grants \<Rightarrow> instant \<Rightarrow> CleanupReport \<times> grants" where
  "cleanupExpired gs now =
     (\<lparr>cr_scannedAt = now, cr_scanned = length gs,
       cr_expiredIds = map ag_id (filter (\<lambda>r. ag_status r = Active \<and> effectiveStatus r now = Expired)
         (map snd gs))\<rparr>,
      map (map_prod id (expire_grant now)) gs)"

definition renew ::
  "grants \<Rightarrow> string \<Rightarrow> string \<Rightarrow> string \<Rightarrow> jsnum \<Rightarrow> instant \<Rightarrow>
   (AuthorizationError + AuthorizationGrant) \<times> grants" where
  "renew gs uuid i actor ttlMs now =
     (case map_of gs i of
        None \<Rightarrow> (Inl not_found, gs)
      | Some r \<Rightarrow>
          (if ag_status r = Revoked then (Inl already_revoked, gs)
           else if ag_renewedById r \<noteq> None then (Inl not_active, gs)
           else if actor \<noteq> ag_grantedBy r \<and> actor \<noteq> ag_subjectAddress r then (Inl unauthorized_actor, gs)
           else if bad_ttl ttlMs then (Inl invalid_expiry, gs)
           else
             (let r1 = r\<lparr>ag_status := effectiveStatus r now\<rparr> in
              case instant_plus now ttlMs of
                None \<Rightarrow> (Inl RangeError, js_set i r1 gs)
              | Some expires \<Rightarrow>
                  (let renewed = new_grant uuid (ag_subjectAddress r) (ag_scope r) actor now expires
                         (Some (ag_id r));
                       r2 = r1\<lparr>ag_renewedById := Some uuid, ag_audit := ag_audit r1 @
                         [\<lparr>au_at = now, au_event = Renewed, au_actor = actor, au_note = Some uuid\<rparr>]\<rparr>
                   in (Inr renewed, js_set uuid renewed (js_set i r2 gs))))))"

definition revoke ::
  "grants \<Rightarrow> string \<Rightarrow> string \<Rightarrow> instant \<Rightarrow> (AuthorizationError + AuthorizationGrant) \<times> grants" where
  "revoke gs i actor now =
     (case map_of gs i of
        None \<Rightarrow> (Inl not_found, gs)
      | Some r \<Rightarrow>
          (if ag_status r = Revoked then (Inl already_revoked, gs)
           else if actor \<noteq> ag_grantedBy r then (Inl unauthorized_actor, gs)
           else
             (let r' = r\<lparr>ag_status := Revoked, ag_revokedAt := Some now, ag_revokedBy := Some actor,
                    ag_audit := ag_audit r @
                      [\<lparr>au_at = now, au_event = RevokedBy, au_actor = actor, au_note = None\<rparr>]\<rparr>
              in (Inr r', js_set i r' gs))))"

record AuthorizationGrantView =
  av_grant :: AuthorizationGrant
  av_effectiveStatus :: AuthorizationStatus
  av_effective :: bool

definition listForSubject :: "grants \<Rightarrow> string \<Rightarrow> bool \<Rightarrow> instant \<Rightarrow> AuthorizationGrantView list" where
  "listForSubject gs subject includeInactive now =
     filter (\<lambda>v. includeInactive \<or> av_effective v)
       (map (\<lambda>g. \<lparr>av_grant = g, av_effectiveStatus = effectiveStatus g now,
                  av_effective = (effectiveStatus g now = Active)\<rparr>)
         (filter (\<lambda>g. ag_subjectAddress g = subject) (map snd gs)))"

section \<open>Sequences of calls\<close>

datatype auth_call = Grant string string string string jsnum instant
  | Renew string string string jsnum instant | Revoke string string instant | Cleanup instant

fun auth_step :: "grants \<Rightarrow> auth_call \<Rightarrow> grants" where
  "auth_step gs (Grant uuid subject scope grantor ttl now) = snd (grant gs uuid subject scope grantor ttl now)"
| "auth_step gs (Renew uuid i actor ttl now) = snd (renew gs uuid i actor ttl now)"
| "auth_step gs (Revoke i actor now) = snd (revoke gs i actor now)"
| "auth_step gs (Cleanup now) = snd (cleanupExpired gs now)"

text \<open>A new id is not in use.\<close>

fun auth_fresh :: "grants \<Rightarrow> auth_call \<Rightarrow> bool" where
  "auth_fresh gs (Grant uuid _ _ _ _ _) = (map_of gs uuid = None)"
| "auth_fresh gs (Renew uuid i _ _ _) = (map_of gs uuid = None)"
| "auth_fresh gs _ = True"

definition grant_known :: "grants \<Rightarrow> string \<Rightarrow> bool" where
  "grant_known gs i \<longleftrightarrow> map_of gs i \<noteq> None"

lemma map_of_cleanup:
  "map_of (snd (cleanupExpired gs now)) i = map_option (expire_grant now) (map_of gs i)"
  by (induction gs) (auto simp: cleanupExpired_def)

text \<open>What one call may do to a grant that exists.\<close>

definition evolves :: "AuthorizationGrant \<Rightarrow> AuthorizationGrant \<Rightarrow> bool" where
  "evolves r r' \<longleftrightarrow> ag_expiresAt r' = ag_expiresAt r \<and> ag_subjectAddress r' = ag_subjectAddress r \<and>
     ag_scope r' = ag_scope r \<and> ag_grantedBy r' = ag_grantedBy r \<and> (ag_status r = Revoked \<longrightarrow> r' = r) \<and>
     (\<forall>t. effectiveStatus r' t = Active \<longrightarrow> effectiveStatus r t = Active)"

lemma evolves_refl [simp]: "evolves r r"
  by (simp add: evolves_def)

lemma evolves_trans: "evolves r r' \<Longrightarrow> evolves r' r'' \<Longrightarrow> evolves r r''"
  unfolding evolves_def by auto

lemma evolves_expire: "evolves r (expire_grant now r)"
  by (auto simp: evolves_def expire_grant_def effectiveStatus_def)

lemma evolves_renewed:
  "ag_status r \<noteq> Revoked \<Longrightarrow>
   evolves r (r\<lparr>ag_status := effectiveStatus r now, ag_renewedById := x, ag_audit := y\<rparr>)"
  "ag_status r \<noteq> Revoked \<Longrightarrow> evolves r (r\<lparr>ag_status := effectiveStatus r now\<rparr>)"
  by (auto simp: evolves_def effectiveStatus_def)

lemma evolves_revoked:
  "ag_status r \<noteq> Revoked \<Longrightarrow>
   evolves r (r\<lparr>ag_status := Revoked, ag_revokedAt := x, ag_revokedBy := y, ag_audit := z\<rparr>)"
  by (auto simp: evolves_def effectiveStatus_def)

lemma renew_evolves:
  assumes "map_of gs uuid = None" "map_of gs i = Some r"
  shows "\<exists>r'. map_of (snd (renew gs uuid j actor ttl now)) i = Some r' \<and> evolves r r'"
proof (cases "map_of gs j")
  case (Some rj)
  with assms show ?thesis
    using evolves_renewed [of r]
    by (cases "instant_plus now ttl"; cases "i = j") (auto simp: renew_def Let_def map_of_js_set)
qed (use assms in \<open>simp add: renew_def\<close>)

lemma revoke_evolves:
  assumes "map_of gs i = Some r"
  shows "\<exists>r'. map_of (snd (revoke gs j actor now)) i = Some r' \<and> evolves r r'"
proof (cases "map_of gs j")
  case (Some rj)
  with assms show ?thesis
    using evolves_revoked [of r] by (cases "i = j") (auto simp: revoke_def Let_def map_of_js_set)
qed (use assms in \<open>simp add: revoke_def\<close>)

lemma grant_evolves:
  assumes "map_of gs uuid = None" "map_of gs i = Some r"
  shows "map_of (snd (grant gs uuid subject scope grantor ttl now)) i = Some r"
  using assms by (auto simp: grant_def Let_def map_of_js_set split: option.splits)

lemma auth_step_grant:
  assumes "auth_fresh gs c" "map_of gs i = Some r"
  shows "\<exists>r'. map_of (auth_step gs c) i = Some r' \<and> evolves r r'"
  using assms
  by (cases c) (auto simp: grant_evolves map_of_cleanup evolves_expire intro: renew_evolves revoke_evolves)

interpretation auth: time_bounded auth_step auth_fresh grant_known isActive
proof
  fix gs i t t' assume "isActive gs i t'" "t \<le> (t' :: instant)"
  then show "isActive gs i t"
    by (auto simp: isActive_def effectiveStatus_def split: option.splits if_splits)
next
  fix gs c i assume "auth_fresh gs c" "grant_known gs i"
  then show "grant_known (auth_step gs c) i"
    using auth_step_grant [of gs c i] by (auto simp: grant_known_def)
next
  fix gs c i t assume "auth_fresh gs c" "grant_known gs i" "isActive (auth_step gs c) i t"
  then show "isActive gs i t"
    using auth_step_grant [of gs c i] by (fastforce simp: grant_known_def isActive_def evolves_def split: option.splits)
qed

section \<open>Properties\<close>

text \<open>
  C22. A lapsed or revoked grant never authorizes again. If a grant exists and does
  not authorize at some time, then after any sequence of grants, renewals,
  revocations and clean-ups it does not authorize at that time or later; a renewal
  creates a new grant and never extends the old one.
\<close>

theorem lapsed_grant_stays_lapsed:
  assumes "ok_run auth_step auth_fresh gs calls" "grant_known gs i" "\<not> isActive gs i t" "t \<le> t'"
  shows "\<not> isActive (foldl auth_step gs calls) i t'"
  using assms by (rule auth.dead_stays_dead)

theorem lapsed_grant_stays_lapsed_witness:
  "\<not> isActive (foldl auth_step (snd (grant [] ''g1'' ''bob'' ''report'' ''alice'' (Num 1000) 5000))
       [Revoke ''g1'' ''bob'' 5500, Renew ''g2'' ''g1'' ''alice'' (Num 9000) 6000]) ''g1'' 7000"
  by (rule lapsed_grant_stays_lapsed [where t = 6000])
     (simp_all add: grant_def new_grant_def bad_ttl_def instant_plus_def time_clip_def Let_def
        revoke_def isActive_def grant_known_def effectiveStatus_def)

definition created_by :: "grants \<Rightarrow> auth_call \<Rightarrow> AuthorizationGrant \<Rightarrow> bool" where
  "created_by gs c g \<longleftrightarrow>
     (\<exists>uuid ttl now. c = Grant uuid (ag_subjectAddress g) (ag_scope g) (ag_grantedBy g) ttl now) \<or>
     (\<exists>uuid old r ttl now. c = Renew uuid old (ag_grantedBy g) ttl now \<and> map_of gs old = Some r \<and>
        ag_subjectAddress r = ag_subjectAddress g \<and> ag_scope r = ag_scope g \<and> ag_status r \<noteq> Revoked \<and>
        ag_grantedBy g \<in> {ag_grantedBy r, ag_subjectAddress r})"

lemma renew_new:
  assumes "map_of gs uuid = None" "map_of gs i = None"
    "map_of (snd (renew gs uuid j actor ttl now)) i = Some g"
  shows "created_by gs (Renew uuid j actor ttl now) g"
proof (cases "map_of gs j")
  case (Some r)
  with assms show ?thesis
    by (cases "instant_plus now ttl")
       (auto simp: renew_def Let_def map_of_js_set created_by_def new_grant_def split: if_splits)
qed (use assms in \<open>simp add: renew_def\<close>)

lemma auth_step_new:
  assumes "auth_fresh gs c" "map_of gs i = None" "map_of (auth_step gs c) i = Some g"
  shows "created_by gs c g"
proof (cases c)
  case (Grant uuid subject scope grantor ttl now)
  with assms show ?thesis
    by (auto simp: grant_def Let_def map_of_js_set created_by_def new_grant_def split: option.splits if_splits)
next
  case (Renew uuid j actor ttl now)
  with assms renew_new show ?thesis by simp
next
  case (Revoke j actor now)
  with assms show ?thesis by (auto simp: revoke_def Let_def map_of_js_set split: option.splits if_splits)
qed (use assms in \<open>simp add: map_of_cleanup\<close>)

lemma auth_run_evolves:
  "ok_run auth_step auth_fresh gs cs \<Longrightarrow> map_of gs i = Some r \<Longrightarrow> map_of (foldl auth_step gs cs) i = Some g \<Longrightarrow>
   evolves r g"
proof (induction cs arbitrary: gs r)
  case (Cons c cs)
  then obtain r' where "map_of (auth_step gs c) i = Some r'" "evolves r r'"
    using auth_step_grant [of gs c i r] by auto
  with Cons show ?case by (auto intro: evolves_trans)
qed simp

text \<open>
  C23. Who can extend authority. Every grant that exists after a sequence of calls
  and did not exist before was created by a \<open>grant\<close> call, or by a \<open>renew\<close> call whose
  actor was the grantor or the subject of a grant to the same subject and scope
  that was not revoked at that moment.
\<close>

theorem grants_have_an_origin:
  assumes "ok_run auth_step auth_fresh gs calls" "map_of gs i = None"
    "map_of (foldl auth_step gs calls) i = Some g"
  shows "\<exists>pre c post. calls = pre @ c # post \<and> created_by (foldl auth_step gs pre) c g"
  using assms
proof (induction calls arbitrary: gs)
  case (Cons c calls)
  show ?case
  proof (cases "map_of (auth_step gs c) i")
    case None
    then obtain pre c' post where
      "calls = pre @ c' # post" "created_by (foldl auth_step (auth_step gs c) pre) c' g"
      using Cons.IH [OF _ None] Cons.prems by auto
    then have "c # calls = (c # pre) @ c' # post \<and> created_by (foldl auth_step gs (c # pre)) c' g" by simp
    then show ?thesis by blast
  next
    case (Some r)
    then have "created_by gs c r" using auth_step_new Cons.prems by simp
    moreover have "evolves r g" using auth_run_evolves [of "auth_step gs c" calls i r g] Some Cons.prems by simp
    ultimately have "created_by gs c g" by (auto simp: created_by_def evolves_def)
    then have "c # calls = [] @ c # calls \<and> created_by (foldl auth_step gs []) c g" by simp
    then show ?thesis by blast
  qed
qed simp

theorem grants_have_an_origin_witness:
  "\<exists>pre c post. [Grant ''g1'' ''bob'' ''report'' ''alice'' (Num 1000) 5000,
       Renew ''g2'' ''g1'' ''bob'' (Num 2000) 5500] = pre @ c # post \<and>
     created_by (foldl auth_step [] pre) c
       (new_grant ''g2'' ''bob'' ''report'' ''bob'' 5500 7500 (Some ''g1''))"
  by (rule grants_have_an_origin [where i = "''g2''"])
     (simp_all add: grant_def new_grant_def bad_ttl_def instant_plus_def time_clip_def Let_def renew_def)

end
