(* ===== verification/Invitation.thy ===== *)
theory Invitation
  imports Time_Bounded
begin

text \<open>
  Invitations and collaboration roles: \<open>api/src/invitations/invitation.interface.ts\<close> and
  \<open>invitation.service.ts\<close>. The service state is the record of its three maps. Clock
  readings and the random part of an invitation id are arguments; \<open>expiresAt\<close> is
  stored as an instant. Every operation returns the error or the result together
  with the new state, since several of them change the state before they throw.
  \<open>clear\<close>, which empties the service, is not part of the runs below.
\<close>

section \<open>Definitions\<close>

datatype InvitationStatus = pending | accepted | revoked | expired

datatype CollaboratorRole = viewer | contributor | project_admin | issuer_admin

fun ROLE_RANK :: "CollaboratorRole \<Rightarrow> int" where
  "ROLE_RANK viewer = 0"
| "ROLE_RANK contributor = 1"
| "ROLE_RANK project_admin = 2"
| "ROLE_RANK issuer_admin = 3"

record Invitation =
  iv_id :: string
  iv_scope :: string
  iv_inviterAddress :: string
  iv_inviteeAddress :: string
  iv_role :: CollaboratorRole
  iv_status :: InvitationStatus
  iv_createdAt :: instant
  iv_expiresAt :: instant
  iv_acceptedAt :: "instant option"
  iv_revokedAt :: "instant option"

record CreateInvitationInput =
  ci_scope :: string
  ci_inviterAddress :: string
  ci_inviteeAddress :: string
  ci_role :: CollaboratorRole
  ci_ttlMs :: "int option"

datatype InvitationError = role_escalation_rejected | invitation_not_found | invitation_not_pending
  | invitation_expired | invitation_revoked | already_a_collaborator | rate_limited | invalid_input | RangeError

definition DEFAULT_INVITATION_TTL_MS :: int where
  "DEFAULT_INVITATION_TTL_MS = 7 * 24 * 60 * 60 * 1000"

definition INVITES_PER_WINDOW :: nat where
  "INVITES_PER_WINDOW = 5"

definition INVITE_WINDOW_MS :: int where
  "INVITE_WINDOW_MS = 60 * 60 * 1000"

record InvitationService =
  is_invitations :: "(string, Invitation) js_map"
  is_roles :: "(string, (string, CollaboratorRole) js_map) js_map"
  is_creationLog :: "(string, instant list) js_map"

definition empty_service :: InvitationService where
  "empty_service = \<lparr>is_invitations = [], is_roles = [], is_creationLog = []\<rparr>"

definition role_of :: "InvitationService \<Rightarrow> string \<Rightarrow> string \<Rightarrow> CollaboratorRole option" where
  "role_of s address scope = (case map_of (is_roles s) address of None \<Rightarrow> None | Some m \<Rightarrow> map_of m scope)"

definition rankOf :: "InvitationService \<Rightarrow> string \<Rightarrow> string \<Rightarrow> int" where
  "rankOf s address scope = (case role_of s address scope of None \<Rightarrow> -1 | Some r \<Rightarrow> ROLE_RANK r)"

definition grantRole ::
  "InvitationService \<Rightarrow> string \<Rightarrow> string \<Rightarrow> string \<Rightarrow> CollaboratorRole \<Rightarrow>
   (InvitationError + unit) \<times> InvitationService" where
  "grantRole s actor scope target role =
     (let actorRank = rankOf s actor scope in
      if actorRank \<ge> 0 \<and> actorRank < ROLE_RANK role then (Inl role_escalation_rejected, s)
      else if actorRank < 0 \<and> \<not> (actorRank < 0 \<and> role = issuer_admin) then (Inl role_escalation_rejected, s)
      else
        (let (byScope, roles) = (case map_of (is_roles s) target of
               Some m \<Rightarrow> (m, is_roles s) | None \<Rightarrow> ([], js_set target [] (is_roles s)))
         in case map_of byScope scope of
              Some existing \<Rightarrow>
                (if ROLE_RANK existing \<ge> ROLE_RANK role then (Inr (), s\<lparr>is_roles := roles\<rparr>)
                 else (Inr (), s\<lparr>is_roles := js_set target (js_set scope role byScope) roles\<rparr>))
            | None \<Rightarrow> (Inr (), s\<lparr>is_roles := js_set target (js_set scope role byScope) roles\<rparr>)))"

definition recent :: "InvitationService \<Rightarrow> string \<Rightarrow> instant \<Rightarrow> instant list" where
  "recent s inviter now =
     filter (\<lambda>ts. ts \<ge> now - INVITE_WINDOW_MS)
       (case map_of (is_creationLog s) inviter of None \<Rightarrow> [] | Some l \<Rightarrow> l)"

definition enforceThrottle ::
  "InvitationService \<Rightarrow> string \<Rightarrow> instant \<Rightarrow> (InvitationError + unit) \<times> InvitationService" where
  "enforceThrottle s inviter now =
     (let log = recent s inviter now in
      if length log \<ge> INVITES_PER_WINDOW then (Inl rate_limited, s)
      else (Inr (), s\<lparr>is_creationLog := js_set inviter (log @ [now]) (is_creationLog s)\<rparr>))"

text \<open>\<open>now.toString(36)\<close> for a time that is not negative.\<close>

definition digit36 :: "nat \<Rightarrow> char" where
  "digit36 d = (if d < 10 then char_of (48 + d) else char_of (87 + d))"

fun base36 :: "nat \<Rightarrow> string" where
  "base36 n = (if n < 36 then [digit36 n] else base36 (n div 36) @ [digit36 (n mod 36)])"

declare base36.simps [simp del]

definition invitation_id :: "string \<Rightarrow> instant \<Rightarrow> string \<Rightarrow> string" where
  "invitation_id scope now random = ''inv_'' @ scope @ ''_'' @ base36 (nat now) @ ''_'' @ random"

definition create ::
  "InvitationService \<Rightarrow> CreateInvitationInput \<Rightarrow> instant \<Rightarrow> string \<Rightarrow>
   (InvitationError + Invitation) \<times> InvitationService" where
  "create s i now random =
     (if ci_scope i = [] \<or> ci_inviterAddress i = [] \<or> ci_inviteeAddress i = [] then (Inl invalid_input, s)
      else if ci_inviterAddress i = ci_inviteeAddress i then (Inl invalid_input, s)
      else case enforceThrottle s (ci_inviterAddress i) now of
        (Inl e, s1) \<Rightarrow> (Inl e, s1)
      | (Inr _, s1) \<Rightarrow>
          (let inviterRank = rankOf s1 (ci_inviterAddress i) (ci_scope i) in
           if inviterRank < ROLE_RANK (ci_role i) \<or> inviterRank < ROLE_RANK contributor
           then (Inl role_escalation_rejected, s1)
           else if rankOf s1 (ci_inviteeAddress i) (ci_scope i) \<ge> ROLE_RANK (ci_role i)
           then (Inl already_a_collaborator, s1)
           else
             (let ttl = (case ci_ttlMs i of Some t \<Rightarrow> if t > 0 then t else DEFAULT_INVITATION_TTL_MS
                         | None \<Rightarrow> DEFAULT_INVITATION_TTL_MS)
              in case instant_plus now (num_of_int ttl) of
                   None \<Rightarrow> (Inl RangeError, s1)
                 | Some expires \<Rightarrow>
             (let ivt = \<lparr>iv_id = invitation_id (ci_scope i) now random, iv_scope = ci_scope i,
                         iv_inviterAddress = ci_inviterAddress i, iv_inviteeAddress = ci_inviteeAddress i,
                         iv_role = ci_role i, iv_status = pending, iv_createdAt = now,
                         iv_expiresAt = expires, iv_acceptedAt = None, iv_revokedAt = None\<rparr>
              in (Inr ivt, s1\<lparr>is_invitations := js_set (iv_id ivt) ivt (is_invitations s1)\<rparr>)))))"

definition put_invitation :: "Invitation \<Rightarrow> string \<Rightarrow> InvitationService \<Rightarrow> InvitationService" where
  "put_invitation v i s = s\<lparr>is_invitations := js_set i v (is_invitations s)\<rparr>"

definition accept ::
  "InvitationService \<Rightarrow> string \<Rightarrow> string \<Rightarrow> instant \<Rightarrow> (InvitationError + Invitation) \<times> InvitationService" where
  "accept s i caller now =
     (case map_of (is_invitations s) i of
        None \<Rightarrow> (Inl invitation_not_found, s)
      | Some ivt \<Rightarrow>
          (if iv_inviteeAddress ivt \<noteq> caller then (Inl invitation_not_pending, s)
           else if iv_status ivt = revoked then (Inl invitation_revoked, s)
           else if iv_status ivt = expired \<or> now \<ge> iv_expiresAt ivt
           then (Inl invitation_expired, put_invitation (ivt\<lparr>iv_status := expired\<rparr>) i s)
           else
             (let ivt' = ivt\<lparr>iv_status := accepted, iv_acceptedAt := Some now\<rparr> in
              case grantRole (put_invitation ivt' i s) (iv_inviterAddress ivt) (iv_scope ivt) caller (iv_role ivt) of
                (Inl e, s') \<Rightarrow> (Inl e, s')
              | (Inr _, s') \<Rightarrow> (Inr ivt', s'))))"

definition revoke ::
  "InvitationService \<Rightarrow> string \<Rightarrow> string \<Rightarrow> instant \<Rightarrow> (InvitationError + Invitation) \<times> InvitationService" where
  "revoke s i caller now =
     (case map_of (is_invitations s) i of
        None \<Rightarrow> (Inl invitation_not_found, s)
      | Some ivt \<Rightarrow>
          (if iv_inviterAddress ivt \<noteq> caller \<and> rankOf s caller (iv_scope ivt) \<le> ROLE_RANK (iv_role ivt)
           then (Inl role_escalation_rejected, s)
           else if iv_status ivt \<noteq> pending then (Inl invitation_not_pending, s)
           else
             (let ivt' = ivt\<lparr>iv_status := revoked, iv_revokedAt := Some now\<rparr> in
              (Inr ivt', put_invitation ivt' i s))))"

definition lapse :: "instant \<Rightarrow> Invitation \<Rightarrow> Invitation" where
  "lapse now ivt = (if iv_status ivt = pending \<and> now \<ge> iv_expiresAt ivt then ivt\<lparr>iv_status := expired\<rparr> else ivt)"

definition list_invitations ::
  "InvitationService \<Rightarrow> string option \<Rightarrow> string option \<Rightarrow> instant \<Rightarrow> Invitation list \<times> InvitationService" where
  "list_invitations s invitee scope now =
     (let invs = map (map_prod id (lapse now)) (is_invitations s);
          keep = (\<lambda>want x. case want of None \<Rightarrow> True | Some w \<Rightarrow> w = [] \<or> x = w)
      in (filter (\<lambda>v. keep invitee (iv_inviteeAddress v) \<and> keep scope (iv_scope v)) (map snd invs),
          s\<lparr>is_invitations := invs\<rparr>))"

definition get ::
  "InvitationService \<Rightarrow> string \<Rightarrow> instant \<Rightarrow> (InvitationError + Invitation) \<times> InvitationService" where
  "get s i now =
     (case map_of (is_invitations s) i of
        None \<Rightarrow> (Inl invitation_not_found, s)
      | Some ivt \<Rightarrow> (Inr (lapse now ivt), put_invitation (lapse now ivt) i s))"

definition clear :: "InvitationService \<Rightarrow> InvitationService" where
  "clear s = s\<lparr>is_invitations := [], is_roles := [], is_creationLog := []\<rparr>"

section \<open>Sequences of calls\<close>

datatype invitation_call = GrantRole string string string CollaboratorRole
  | Create CreateInvitationInput instant string | Accept string string instant
  | Revoke string string instant | List "string option" "string option" instant | Get string instant

fun invitation_step :: "InvitationService \<Rightarrow> invitation_call \<Rightarrow> InvitationService" where
  "invitation_step s (GrantRole actor scope target role) = snd (grantRole s actor scope target role)"
| "invitation_step s (Create i now random) = snd (create s i now random)"
| "invitation_step s (Accept i caller now) = snd (accept s i caller now)"
| "invitation_step s (Revoke i caller now) = snd (revoke s i caller now)"
| "invitation_step s (List invitee scope now) = snd (list_invitations s invitee scope now)"
| "invitation_step s (Get i now) = snd (get s i now)"

text \<open>The id of a new invitation is not in use.\<close>

fun invitation_fresh :: "InvitationService \<Rightarrow> invitation_call \<Rightarrow> bool" where
  "invitation_fresh s (Create i now random) =
     (map_of (is_invitations s) (invitation_id (ci_scope i) now random) = None)"
| "invitation_fresh s _ = True"

definition invitation_known :: "InvitationService \<Rightarrow> string \<Rightarrow> bool" where
  "invitation_known s i \<longleftrightarrow> map_of (is_invitations s) i \<noteq> None"

definition acceptable :: "InvitationService \<Rightarrow> string \<Rightarrow> instant \<Rightarrow> bool" where
  "acceptable s i t = (case map_of (is_invitations s) i of None \<Rightarrow> False
     | Some v \<Rightarrow> iv_status v \<noteq> revoked \<and> iv_status v \<noteq> expired \<and> t < iv_expiresAt v)"

section \<open>Roles\<close>

lemma ROLE_RANK_nonneg [simp]: "0 \<le> ROLE_RANK r" "\<not> ROLE_RANK r < 0" "ROLE_RANK r \<noteq> -1"
  "-1 < ROLE_RANK r" "-1 \<le> ROLE_RANK r" "\<not> ROLE_RANK r \<le> -1"
  by (cases r; simp)+

lemma rankOf_no_role: "rankOf s a sc < 0 \<longleftrightarrow> rankOf s a sc = -1"
  by (simp add: rankOf_def split: option.splits)

lemma grantRole_keeps: "is_invitations (snd (grantRole s actor scope target role)) = is_invitations s"
  "is_creationLog (snd (grantRole s actor scope target role)) = is_creationLog s"
  by (auto simp: grantRole_def Let_def split: option.splits prod.splits)

lemma role_of_grantRole:
  "role_of (snd (grantRole s actor scope target role)) a sc =
     (if fst (grantRole s actor scope target role) = Inr () \<and> a = target \<and> sc = scope \<and>
         rankOf s target scope < ROLE_RANK role
      then Some role else role_of s a sc)"
proof (cases "map_of (is_roles s) target")
  case None
  then show ?thesis
    by (auto simp: grantRole_def role_of_def rankOf_def Let_def map_of_js_set)
next
  case (Some m)
  then show ?thesis
    by (cases "map_of m scope") (auto simp: grantRole_def role_of_def rankOf_def Let_def map_of_js_set)
qed

lemma rankOf_grantRole:
  "rankOf (snd (grantRole s actor scope target role)) a sc =
     (if fst (grantRole s actor scope target role) = Inr () \<and> a = target \<and> sc = scope
      then max (rankOf s a sc) (ROLE_RANK role) else rankOf s a sc)"
  by (auto simp: rankOf_def role_of_grantRole max_def)

lemma grantRole_ok_iff:
  "fst (grantRole s actor scope target role) = Inr () \<longleftrightarrow>
     ROLE_RANK role \<le> rankOf s actor scope \<or> (rankOf s actor scope = -1 \<and> role = issuer_admin)"
  using rankOf_no_role [of s actor scope] ROLE_RANK_nonneg(1) [of role]
  by (auto simp: grantRole_def Let_def split: option.splits prod.splits)

text \<open>Only \<open>grantRole\<close> changes roles.\<close>

lemma rankOf_cong: "is_roles s = is_roles s' \<Longrightarrow> rankOf s = rankOf s'"
  by (simp add: fun_eq_iff rankOf_def role_of_def)

lemma roles_kept:
  "is_roles (snd (enforceThrottle s inviter now)) = is_roles s"
  "is_roles (snd (create s i now random)) = is_roles s"
  "is_roles (snd (revoke s i' caller now)) = is_roles s"
  "is_roles (snd (list_invitations s invitee scope now)) = is_roles s"
  "is_roles (snd (get s i' now)) = is_roles s"
  "is_roles (put_invitation v i' s) = is_roles s"
proof -
  show t: "is_roles (snd (enforceThrottle s inviter now)) = is_roles s" for s inviter now
    by (simp add: enforceThrottle_def Let_def)
  show "is_roles (snd (create s i now random)) = is_roles s"
    using t [of s "ci_inviterAddress i" now]
    by (auto simp: create_def Let_def split: prod.splits sum.splits option.splits)
qed (auto simp: revoke_def list_invitations_def get_def put_invitation_def Let_def split: option.splits)

lemma rankOf_accept:
  "(\<exists>v. map_of (is_invitations s) i = Some v \<and> rankOf (snd (accept s i caller now)) =
       rankOf (snd (grantRole s (iv_inviterAddress v) (iv_scope v) caller (iv_role v)))) \<or>
   rankOf (snd (accept s i caller now)) = rankOf s"
proof (cases "map_of (is_invitations s) i")
  case (Some v)
  have "rankOf (snd (grantRole (put_invitation w i s) a sc t r)) = rankOf (snd (grantRole s a sc t r))" for w a sc t r
    by (rule rankOf_cong)
       (simp add: grantRole_def rankOf_cong [OF roles_kept(6)] roles_kept Let_def split: option.splits prod.splits)
  moreover have "rankOf (put_invitation w i s) = rankOf s" for w by (rule rankOf_cong [OF roles_kept(6)])
  ultimately show ?thesis using Some
    by (auto simp: accept_def Let_def split: prod.splits sum.splits) (metis snd_conv)+
qed (simp add: accept_def)

section \<open>The invitations after a call\<close>

definition follows :: "Invitation \<Rightarrow> Invitation \<Rightarrow> bool" where
  "follows v v' \<longleftrightarrow>
     v' = v\<lparr>iv_status := iv_status v', iv_acceptedAt := iv_acceptedAt v', iv_revokedAt := iv_revokedAt v'\<rparr> \<and>
     (iv_status v \<in> {revoked, expired} \<longrightarrow> iv_status v' = iv_status v)"

lemma follows_fields:
  "follows v v' \<Longrightarrow> iv_expiresAt v' = iv_expiresAt v \<and> iv_role v' = iv_role v \<and> iv_scope v' = iv_scope v \<and>
     iv_inviterAddress v' = iv_inviterAddress v \<and>
     (iv_status v \<in> {revoked, expired} \<longrightarrow> iv_status v' = iv_status v)"
  by (cases v; cases v'; simp add: follows_def)

lemma follows_refl [simp]: "follows v v" by (simp add: follows_def)

lemma follows_lapse [simp]: "follows v (lapse now v)" by (auto simp: follows_def lapse_def)

lemma enforceThrottle_keeps: "is_invitations (snd (enforceThrottle s a now)) = is_invitations s"
  by (simp add: enforceThrottle_def Let_def)

lemma map_of_lapsed: "map_of (map (map_prod id f) m) i = map_option f (map_of m i)"
  by (induction m) auto

text \<open>A call keeps an invitation, except for its progress; \<open>create\<close> adds one.\<close>

lemma create_invitations:
  "is_invitations (snd (create s i now random)) =
     (case fst (create s i now random) of Inl _ \<Rightarrow> is_invitations s
      | Inr v \<Rightarrow> js_set (iv_id v) v (is_invitations s))"
  using enforceThrottle_keeps [of s "ci_inviterAddress i" now]
  by (auto simp: create_def Let_def split: prod.splits sum.splits option.splits)

lemma create_result:
  assumes "fst (create s i now random) = Inr v"
  shows "iv_id v = invitation_id (ci_scope i) now random \<and> iv_inviterAddress v = ci_inviterAddress i \<and>
    iv_scope v = ci_scope i \<and> iv_role v = ci_role i \<and> iv_status v = pending \<and>
    ROLE_RANK (ci_role i) \<le> rankOf s (ci_inviterAddress i) (ci_scope i)"
proof -
  have "rankOf (snd (enforceThrottle s (ci_inviterAddress i) now)) = rankOf s"
    by (rule rankOf_cong [OF roles_kept(1)])
  with assms show ?thesis
    by (cases "enforceThrottle s (ci_inviterAddress i) now")
       (auto simp: create_def Let_def split: sum.splits option.splits if_splits)
qed

lemma accept_invitations:
  "\<exists>v'. follows v v' \<and> is_invitations (snd (accept s i caller now)) = is_invitations (put_invitation v' i s) \<or>
    is_invitations (snd (accept s i caller now)) = is_invitations s"
  if "map_of (is_invitations s) i = Some v"
proof -
  have "follows v (v\<lparr>iv_status := accepted, iv_acceptedAt := Some now\<rparr>)"
    if "iv_status v \<noteq> revoked" "iv_status v \<noteq> expired"
    using that by (auto simp: follows_def)
  moreover have "follows v (v\<lparr>iv_status := expired\<rparr>)" if "iv_status v \<noteq> revoked"
    using that by (auto simp: follows_def)
  moreover have "is_invitations (snd (accept s i caller now)) = is_invitations s \<or>
      (iv_status v \<noteq> revoked \<and> iv_status v \<noteq> expired \<and> is_invitations (snd (accept s i caller now)) =
        is_invitations (put_invitation (v\<lparr>iv_status := accepted, iv_acceptedAt := Some now\<rparr>) i s)) \<or>
      (iv_status v \<noteq> revoked \<and> is_invitations (snd (accept s i caller now)) =
        is_invitations (put_invitation (v\<lparr>iv_status := expired\<rparr>) i s))"
    using \<open>map_of (is_invitations s) i = Some v\<close> grantRole_keeps(1)
    by (auto simp: accept_def Let_def split: prod.splits sum.splits) (metis snd_conv)+
  ultimately show ?thesis by blast
qed

lemma invitation_step_keeps:
  assumes "invitation_fresh s c" and v: "map_of (is_invitations s) i = Some v"
  shows "\<exists>v'. map_of (is_invitations (invitation_step s c)) i = Some v' \<and> follows v v'"
proof (cases c)
  case (Create x now random)
  with assms show ?thesis
    by (auto simp: create_invitations map_of_js_set dest: create_result split: sum.splits)
next
  case (Accept j caller now)
  show ?thesis
  proof (cases "map_of (is_invitations s) j")
    case (Some w)
    from accept_invitations [OF this, of caller now] v Some Accept show ?thesis
      by (auto simp: put_invitation_def map_of_js_set)
  qed (use v Accept in \<open>simp add: accept_def\<close>)
next
  case (Revoke j caller now)
  with v show ?thesis
    by (auto simp: revoke_def put_invitation_def map_of_js_set Let_def follows_def split: option.splits)
next
  case (Get j now)
  with v show ?thesis by (auto simp: get_def put_invitation_def map_of_js_set split: option.splits)
qed (use v in \<open>auto simp: grantRole_keeps list_invitations_def map_of_lapsed Let_def\<close>)

interpretation invite: time_bounded invitation_step invitation_fresh invitation_known acceptable
proof
  fix s i t t' assume "acceptable s i t'" "t \<le> (t' :: instant)"
  then show "acceptable s i t" by (auto simp: acceptable_def split: option.splits)
next
  fix s c i assume "invitation_fresh s c" "invitation_known s i"
  then show "invitation_known (invitation_step s c) i"
    using invitation_step_keeps [of s c i] by (auto simp: invitation_known_def)
next
  fix s c i t assume "invitation_fresh s c" "invitation_known s i" "acceptable (invitation_step s c) i t"
  then show "acceptable s i t"
    using invitation_step_keeps [of s c i]
    by (auto simp: invitation_known_def acceptable_def dest!: follows_fields split: option.splits)
qed

text \<open>
  C25. An invitation that was revoked or has expired can never be accepted again.
  If at some time an invitation is not open, then after any sequence of calls and
  at any later time, accepting it fails for every caller and changes no role.
\<close>

theorem closed_invitation_grants_nothing:
  assumes "invitation_known s i" and "\<not> acceptable s i t" and "ok_run invitation_step invitation_fresh s cs"
    and "t \<le> t'"
  defines "s' \<equiv> foldl invitation_step s cs"
  shows "(\<exists>e. fst (accept s' i caller t') = Inl e) \<and> is_roles (snd (accept s' i caller t')) = is_roles s'"
proof -
  have "\<not> acceptable s' i t'" using invite.dead_stays_dead assms by metis
  then show ?thesis
    by (auto simp: acceptable_def accept_def put_invitation_def split: option.splits)
qed

section \<open>No escalation\<close>

text \<open>Every invitation was made by someone who has at least the role it offers.\<close>

definition vouched :: "InvitationService \<Rightarrow> bool" where
  "vouched s \<longleftrightarrow> (\<forall>(i, v) \<in> set (is_invitations s).
     ROLE_RANK (iv_role v) \<le> rankOf s (iv_inviterAddress v) (iv_scope v))"

text \<open>A direct grant in the scope by someone who has no role there.\<close>

fun outsider_grant :: "string \<Rightarrow> InvitationService \<Rightarrow> invitation_call \<Rightarrow> bool" where
  "outsider_grant sc s (GrantRole actor scope target role) \<longleftrightarrow> scope = sc \<and> rankOf s actor scope = -1"
| "outsider_grant sc s _ \<longleftrightarrow> False"

lemma grantRole_le:
  assumes "ROLE_RANK role \<le> rankOf s actor scope \<or> scope \<noteq> sc" "\<forall>a. rankOf s a sc \<le> b"
  shows "rankOf (snd (grantRole s actor scope target role)) a sc \<le> b"
proof (cases "scope = sc")
  case True
  with assms have "ROLE_RANK role \<le> b" by (meson order_trans)
  with assms(2) show ?thesis by (auto simp: rankOf_grantRole)
qed (use assms(2) in \<open>simp add: rankOf_grantRole\<close>)

lemma rankOf_grows: "rankOf s a sc \<le> rankOf (invitation_step s c) a sc"
proof (cases c)
  case (Accept i caller now)
  then show ?thesis using rankOf_accept [of s i caller now] by (auto simp: rankOf_grantRole)
qed (auto simp: rankOf_grantRole rankOf_cong [OF roles_kept(2)] rankOf_cong [OF roles_kept(3)]
       rankOf_cong [OF roles_kept(4)] rankOf_cong [OF roles_kept(5)])

lemma rank_bound_step:
  assumes "vouched s" "\<not> outsider_grant sc s c" "\<forall>a. rankOf s a sc \<le> b"
  shows "rankOf (invitation_step s c) a sc \<le> b"
proof (cases c)
  case (GrantRole actor scope target role)
  show ?thesis
  proof (cases "fst (grantRole s actor scope target role) = Inr ()")
    case True
    with GrantRole assms show ?thesis by (auto simp: grantRole_ok_iff intro!: grantRole_le)
  qed (use GrantRole assms(3) in \<open>simp add: rankOf_grantRole\<close>)
next
  case (Accept i caller now)
  from rankOf_accept [of s i caller now] show ?thesis
  proof
    assume "\<exists>v. map_of (is_invitations s) i = Some v \<and> rankOf (snd (accept s i caller now)) =
       rankOf (snd (grantRole s (iv_inviterAddress v) (iv_scope v) caller (iv_role v)))"
    then show ?thesis
      using assms Accept by (fastforce simp: vouched_def dest: map_of_SomeD intro!: grantRole_le)
  qed (use assms(3) Accept in simp)
qed (use assms(3) in \<open>auto simp: rankOf_cong [OF roles_kept(2)] rankOf_cong [OF roles_kept(3)]
       rankOf_cong [OF roles_kept(4)] rankOf_cong [OF roles_kept(5)]\<close>)

definition offer :: "Invitation \<Rightarrow> CollaboratorRole \<times> string \<times> string" where
  "offer v = (iv_role v, iv_inviterAddress v, iv_scope v)"

lemma follows_offer: "follows v v' \<Longrightarrow> offer v' = offer v"
  by (drule follows_fields) (simp add: offer_def)

definition offers :: "(string, Invitation) js_map \<Rightarrow> (CollaboratorRole \<times> string \<times> string) set" where
  "offers m = (offer \<circ> snd) ` set m"

lemma offers_js_set: "offers (js_set k v m) \<subseteq> insert (offer v) (offers m)"
proof (induction m)
  case (Cons p m)
  then show ?case by (cases p) (auto simp: offers_def simp del: image_subset_iff)
qed (simp add: offers_def)

lemma offers_found: "map_of m i = Some v \<Longrightarrow> offer v \<in> offers m"
  by (force simp: offers_def dest: map_of_SomeD)

lemma put_offers:
  assumes "map_of (is_invitations s) i = Some v" "follows v v'"
  shows "offers (is_invitations (put_invitation v' i s)) \<subseteq> offers (is_invitations s)"
  using offers_js_set [of i v' "is_invitations s"] offers_found [OF assms(1)] follows_offer [OF assms(2)]
  by (auto simp: put_invitation_def)

lemma offers_step:
  "offers (is_invitations (invitation_step s c)) \<subseteq> offers (is_invitations s) \<union>
     {(r, a, sc). ROLE_RANK r \<le> rankOf s a sc}"
proof (cases c)
  case (Create i now random)
  show ?thesis
  proof (cases "fst (create s i now random)")
    case (Inr v)
    with create_result [OF Inr] Create offers_js_set [of "iv_id v" v "is_invitations s"] show ?thesis
      by (auto simp: create_invitations offer_def)
  qed (use Create in \<open>auto simp: create_invitations\<close>)
next
  case (Accept i caller now)
  show ?thesis
  proof (cases "map_of (is_invitations s) i")
    case (Some v)
    with accept_invitations [OF Some, of caller now] put_offers [OF Some] Accept show ?thesis by fastforce
  qed (use Accept in \<open>simp add: accept_def\<close>)
next
  case (Revoke i caller now)
  show ?thesis
  proof (cases "map_of (is_invitations s) i")
    case (Some v)
    have "follows v (v\<lparr>iv_status := revoked, iv_revokedAt := Some now\<rparr>)" if "iv_status v = pending"
      using that by (auto simp: follows_def)
    with put_offers [OF Some] Some Revoke show ?thesis by (auto simp: revoke_def Let_def)
  qed (use Revoke in \<open>simp add: revoke_def\<close>)
next
  case (Get i now)
  show ?thesis
  proof (cases "map_of (is_invitations s) i")
    case (Some v)
    with put_offers [OF Some follows_lapse] Get show ?thesis by (auto simp: get_def)
  qed (use Get in \<open>simp add: get_def\<close>)
next
  case (List invitee scope now)
  have "offer (lapse now v) = offer v" for v by (rule follows_offer) simp
  with List show ?thesis by (simp add: list_invitations_def Let_def offers_def image_image)
qed (simp add: grantRole_keeps)

lemma vouched_offers: "vouched s \<longleftrightarrow> offers (is_invitations s) \<subseteq> {(r, a, sc). ROLE_RANK r \<le> rankOf s a sc}"
  by (force simp: vouched_def offers_def offer_def)

lemma vouched_step: "vouched s \<Longrightarrow> vouched (invitation_step s c)"
proof -
  assume "vouched s"
  with offers_step [of s c]
  have "offers (is_invitations (invitation_step s c)) \<subseteq> {(r, a, sc). ROLE_RANK r \<le> rankOf s a sc}"
    unfolding vouched_offers by blast
  also have "\<dots> \<subseteq> {(r, a, sc). ROLE_RANK r \<le> rankOf (invitation_step s c) a sc}"
    using rankOf_grows [of s _ _ c] by (auto intro: order_trans)
  finally show ?thesis unfolding vouched_offers .
qed

text \<open>
  C24. Roles are not escalated. From a state in which every invitation was made by
  someone with at least the role it offers, as in the empty service, every
  sequence of calls keeps that so, and in a scope in which no direct grant is made by
  someone without a role there, no one ends up with a role above the highest
  that was held in the scope before.
\<close>

theorem roles_not_escalated:
  assumes "vouched s" and "\<forall>a. rankOf s a sc \<le> b"
    and "ok_run invitation_step (\<lambda>s c. \<not> outsider_grant sc s c) s cs"
  shows "vouched empty_service \<and> vouched (foldl invitation_step s cs) \<and>
    rankOf (foldl invitation_step s cs) a sc \<le> b"
proof -
  have "vouched (foldl invitation_step s cs) \<and> (\<forall>a. rankOf (foldl invitation_step s cs) a sc \<le> b)"
    using assms
  proof (induction cs arbitrary: s)
    case (Cons c cs)
    then show ?case using vouched_step rank_bound_step [of s sc c b] by auto
  qed auto
  then show ?thesis by (simp add: vouched_def empty_service_def)
qed

text \<open>
  C40. The bootstrap of a scope never closes. An address without a role in a scope
  can make itself \<open>issuer_admin\<close> there, whatever roles others hold in it.
\<close>

theorem outsider_becomes_admin:
  assumes "role_of s a sc = None"
  shows "fst (grantRole s a sc a issuer_admin) = Inr () \<and>
    role_of (snd (grantRole s a sc a issuer_admin)) a sc = Some issuer_admin"
  using assms by (simp add: role_of_grantRole grantRole_ok_iff rankOf_def)

section \<open>The throttle\<close>

fun create_times :: "string \<Rightarrow> invitation_call list \<Rightarrow> instant list" where
  "create_times a (Create i now random # cs) =
     (if ci_inviterAddress i = a then [now] else []) @ create_times a cs"
| "create_times a (_ # cs) = create_times a cs"
| "create_times a [] = []"

text \<open>The times at which \<open>a\<close> created an invitation in a sequence of calls.\<close>

fun sent :: "string \<Rightarrow> InvitationService \<Rightarrow> invitation_call list \<Rightarrow> instant list" where
  "sent a s [] = []"
| "sent a s (c # cs) =
     (case c of Create i now random \<Rightarrow>
        (if ci_inviterAddress i = a then (case fst (create s i now random) of Inr _ \<Rightarrow> [now] | Inl _ \<Rightarrow> []) else [])
      | _ \<Rightarrow> []) @ sent a (invitation_step s c) cs"

definition in_window :: "instant \<Rightarrow> instant \<Rightarrow> bool" where
  "in_window t u \<longleftrightarrow> t \<le> u \<and> u \<le> t + INVITE_WINDOW_MS"

lemma recent_cong: "is_creationLog s = is_creationLog s' \<Longrightarrow> recent s = recent s'"
  by (simp add: fun_eq_iff recent_def)

lemma log_kept:
  "is_creationLog (snd (accept s i caller now)) = is_creationLog s"
  "is_creationLog (snd (revoke s i caller now)) = is_creationLog s"
  "is_creationLog (snd (list_invitations s invitee scope now)) = is_creationLog s"
  "is_creationLog (snd (get s i now)) = is_creationLog s"
proof -
  have "is_creationLog (snd (grantRole (put_invitation v i s) a sc t r)) = is_creationLog s" for v a sc t r
    by (simp add: grantRole_keeps) (simp add: put_invitation_def)
  then show "is_creationLog (snd (accept s i caller now)) = is_creationLog s"
    by (auto simp: accept_def Let_def put_invitation_def split: option.splits prod.splits sum.splits)
       (metis snd_conv)+
qed (auto simp: revoke_def list_invitations_def get_def put_invitation_def Let_def split: option.splits)

text \<open>A call for an invitation fails and leaves the log alone, or its time enters the log.\<close>

lemma create_log:
  fixes s i now random
  defines "r \<equiv> create s i now random" and "a \<equiv> ci_inviterAddress i"
  shows "(\<exists>e. fst r = Inl e) \<and> is_creationLog (snd r) = is_creationLog s \<or>
    length (recent s a now) < INVITES_PER_WINDOW \<and>
    is_creationLog (snd r) = js_set a (recent s a now @ [now]) (is_creationLog s)"
  by (auto simp: r_def a_def create_def enforceThrottle_def Let_def split: option.splits)

lemma recent_other:
  "(\<forall>i now random. c = Create i now random \<longrightarrow> ci_inviterAddress i \<noteq> a) \<Longrightarrow>
     recent (invitation_step s c) a u = recent s a u"
proof (cases c)
  case (Create i now random)
  assume "\<forall>i now random. c = Create i now random \<longrightarrow> ci_inviterAddress i \<noteq> a"
  with Create create_log [of s i now random] show ?thesis by (auto simp: recent_def map_of_js_set)
qed (auto simp: recent_cong [OF log_kept(1)] recent_cong [OF log_kept(2)] recent_cong [OF log_kept(3)]
       recent_cong [OF log_kept(4)] recent_cong [OF grantRole_keeps(2)])

text \<open>
  The log of an inviter, read at any later time, is the part of its history that
  counts then.
\<close>

definition tracks :: "InvitationService \<Rightarrow> string \<Rightarrow> instant list \<Rightarrow> instant \<Rightarrow> bool" where
  "tracks s a hist t0 \<longleftrightarrow> (\<forall>h \<in> set hist. h \<le> t0) \<and>
     (\<forall>now \<ge> t0. recent s a now = filter (\<lambda>ts. ts \<ge> now - INVITE_WINDOW_MS) hist) \<and>
     (\<forall>t. length (filter (in_window t) hist) \<le> INVITES_PER_WINDOW)"

lemma tracks_later: "tracks s a hist t0 \<Longrightarrow> t0 \<le> t1 \<Longrightarrow> tracks s a hist t1"
  by (fastforce simp: tracks_def)

lemma tracks_create:
  assumes tr: "tracks s a hist t0" and "t0 \<le> now" and room: "length (recent s a now) < INVITES_PER_WINDOW"
    and log: "is_creationLog s' = js_set a (recent s a now @ [now]) (is_creationLog s)"
  shows "tracks s' a (hist @ [now]) now"
proof -
  have old: "recent s a now = filter (\<lambda>ts. ts \<ge> now - INVITE_WINDOW_MS) hist" and le: "\<forall>h \<in> set hist. h \<le> now"
    using tr \<open>t0 \<le> now\<close> by (auto simp: tracks_def)
  have "recent s' a u = filter (\<lambda>ts. ts \<ge> u - INVITE_WINDOW_MS) (hist @ [now])" if "now \<le> u" for u
    using that by (auto simp: recent_def [of s'] log map_of_js_set old intro!: filter_cong)
  moreover have "length (filter (in_window t) (hist @ [now])) \<le> INVITES_PER_WINDOW" for t
  proof (cases "in_window t now")
    case True
    then have "in_window t h \<Longrightarrow> now - INVITE_WINDOW_MS \<le> h" for h by (auto simp: in_window_def)
    then have "length (filter (in_window t) hist) \<le> length (recent s a now)"
      unfolding old by (metis (no_types, lifting) filter_filter filter_cong length_filter_le)
    with room True show ?thesis by simp
  qed (use tr in \<open>simp add: tracks_def\<close>)
  ultimately show ?thesis using le by (auto simp: tracks_def)
qed

lemma throttled:
  "tracks s a hist t0 \<Longrightarrow> sorted (t0 # create_times a cs) \<Longrightarrow>
     length (filter (in_window t) hist) + length (filter (in_window t) (sent a s cs)) \<le> INVITES_PER_WINDOW"
proof (induction cs arbitrary: s hist t0)
  case Nil
  then show ?case by (simp add: tracks_def)
next
  case (Cons c cs)
  show ?case
  proof (cases "\<exists>i now random. c = Create i now random \<and> ci_inviterAddress i = a")
    case True
    then obtain i now random where c: "c = Create i now random" and a: "ci_inviterAddress i = a" by blast
    from create_log [of s i now random] show ?thesis
    proof
      assume *: "(\<exists>e. fst (create s i now random) = Inl e) \<and> is_creationLog (snd (create s i now random)) = is_creationLog s"
      then have "tracks (invitation_step s c) a hist t0"
        using Cons.prems(1) recent_cong [OF conjunct2 [OF *]] by (simp add: c tracks_def)
      from Cons.IH [OF this] * Cons.prems(2) show ?thesis by (auto simp: c a)
    next
      assume *: "length (recent s (ci_inviterAddress i) now) < INVITES_PER_WINDOW \<and>
        is_creationLog (snd (create s i now random)) =
          js_set (ci_inviterAddress i) (recent s (ci_inviterAddress i) now @ [now]) (is_creationLog s)"
      have "tracks (invitation_step s c) a (hist @ [now]) now"
        using Cons.prems * by (intro tracks_create [of s a hist t0]) (auto simp: c a)
      from Cons.IH [OF this] Cons.prems(2) show ?thesis by (auto simp: c a split: sum.splits)
    qed
  next
    case False
    then have "tracks (invitation_step s c) a hist t0" "create_times a (c # cs) = create_times a cs"
      "sent a s (c # cs) = sent a (invitation_step s c) cs"
      using Cons.prems(1) recent_other [of c a s] by (cases c; auto simp: tracks_def)+
    with Cons show ?thesis by simp
  qed
qed

text \<open>
  C26. The throttle holds over every rolling window: when the calls of an inviter come
  in the order of their times, at most five of its invitations are created within any
  sixty minutes, whatever other calls come in between.
\<close>

theorem invitations_throttled:
  assumes "sorted (create_times a cs)"
  shows "length (filter (\<lambda>u. t \<le> u \<and> u \<le> t + INVITE_WINDOW_MS) (sent a empty_service cs)) \<le> INVITES_PER_WINDOW"
proof (cases "create_times a cs")
  case Nil
  have "tracks empty_service a [] t" for t by (simp add: tracks_def recent_def empty_service_def)
  from throttled [OF this] Nil show ?thesis by (simp add: in_window_def [abs_def])
next
  case (Cons t0 ts)
  have "tracks empty_service a [] t0" by (simp add: tracks_def recent_def empty_service_def)
  from throttled [OF this, of cs t] Cons assms show ?thesis by (simp add: in_window_def [abs_def])
qed

section \<open>Examples\<close>

definition example_invitation :: CreateInvitationInput where
  "example_invitation = \<lparr>ci_scope = ''p'', ci_inviterAddress = ''A'', ci_inviteeAddress = ''B'',
     ci_role = contributor, ci_ttlMs = Some 1000\<rparr>"

definition example_calls :: "invitation_call list" where
  "example_calls = [GrantRole ''A'' ''p'' ''A'' issuer_admin, Create example_invitation 50 ''x'']"

definition example_service :: InvitationService where
  "example_service = foldl invitation_step empty_service example_calls"

theorem closed_invitation_grants_nothing_witness:
  "invitation_known example_service ''inv_p_1e_x'' \<and>
   \<not> (\<exists>r. fst (accept (foldl invitation_step example_service [Get ''inv_p_1e_x'' 1050]) ''inv_p_1e_x'' ''B'' 1060) = Inr r)"
proof -
  have "invitation_known example_service ''inv_p_1e_x''" "\<not> acceptable example_service ''inv_p_1e_x'' 1050"
    "ok_run invitation_step invitation_fresh example_service [Get ''inv_p_1e_x'' 1050]"
    by code_simp+
  with closed_invitation_grants_nothing [of example_service "''inv_p_1e_x''" 1050 "[Get ''inv_p_1e_x'' 1050]" 1060 "''B''"]
  show ?thesis by fastforce
qed

theorem roles_not_escalated_witness:
  "rankOf (foldl invitation_step example_service [Accept ''inv_p_1e_x'' ''B'' 60]) ''B'' ''p'' = 1 \<and>
   rankOf (foldl invitation_step example_service [Accept ''inv_p_1e_x'' ''B'' 60]) ''B'' ''p'' \<le> 3"
proof -
  have "ROLE_RANK r \<le> 3" for r by (cases r) auto
  then have "\<forall>a. rankOf example_service a ''p'' \<le> 3" by (simp add: rankOf_def split: option.splits)
  moreover have "vouched example_service"
    "ok_run invitation_step (\<lambda>s c. \<not> outsider_grant ''p'' s c) example_service [Accept ''inv_p_1e_x'' ''B'' 60]"
    by code_simp+
  ultimately have "rankOf (foldl invitation_step example_service [Accept ''inv_p_1e_x'' ''B'' 60]) ''B'' ''p'' \<le> 3"
    using roles_not_escalated by blast
  moreover have "rankOf (foldl invitation_step example_service [Accept ''inv_p_1e_x'' ''B'' 60]) ''B'' ''p'' = 1"
    by code_simp
  ultimately show ?thesis by blast
qed

theorem outsider_becomes_admin_witness:
  "role_of example_service ''A'' ''p'' = Some issuer_admin \<and>
   role_of (snd (grantRole example_service ''M'' ''p'' ''M'' issuer_admin)) ''M'' ''p'' = Some issuer_admin"
proof -
  have "role_of example_service ''M'' ''p'' = None" "role_of example_service ''A'' ''p'' = Some issuer_admin"
    by code_simp+
  with outsider_becomes_admin show ?thesis by blast
qed

theorem invitations_throttled_witness:
  "sent ''A'' empty_service example_calls = [50] \<and>
   length (filter (\<lambda>u. 0 \<le> u \<and> u \<le> 0 + INVITE_WINDOW_MS) (sent ''A'' empty_service example_calls)) \<le> INVITES_PER_WINDOW"
proof -
  have "sorted (create_times ''A'' example_calls)" "sent ''A'' empty_service example_calls = [50]" by code_simp+
  with invitations_throttled [of "''A''" example_calls 0] show ?thesis by blast
qed

end
