(* ===== verification/Impersonation.thy ===== *)
theory Impersonation
  imports Event_Ledger Time_Bounded
begin

text \<open>
  Scoped maintainer impersonation: \<open>api/src/impersonation/impersonation.interface.ts\<close>
  and \<open>impersonation.service.ts\<close>. The state holds the sessions, the bounded audit
  list and, when a ledger is configured, the inputs given to its \<open>appendSafe\<close> in
  order (\<open>None\<close> without a ledger). The configured admin key, the clock readings and the
  session id are arguments. A \<open>Date\<close> argument is a valid date; the dates of a
  session are instants, printed where they enter a message or the ledger.
\<close>

section \<open>Definitions\<close>

record ImpersonationScope =
  sc_allowedOperations :: "string list"
  sc_allowDangerousMutations :: bool

datatype ImpersonationEndReason = explicit_end | expired | revoked

record ImpersonationSession =
  se_sessionId :: string
  se_maintainerAddress :: string
  se_targetAddress :: string
  se_scope :: ImpersonationScope
  se_reason :: string
  se_startedAt :: instant
  se_expiresAt :: instant
  se_endedAt :: "instant option"
  se_endReason :: "ImpersonationEndReason option"

datatype audit_kind = Started | Operation_allowed | Operation_denied | Ended | Expired | Revoked

record ImpersonationAuditEvent =
  ae_sessionId :: string
  ae_event :: audit_kind
  ae_at :: instant
  ae_maintainerAddress :: string
  ae_targetAddress :: string
  ae_operation :: "string option"
  ae_detail :: "string option"

datatype denial = no_active_session | denied_expired | denied_revoked | session_ended
  | operation_not_in_scope | dangerous_mutation_blocked

datatype ImpersonationDecision = Allowed | Denied denial string

record ImpersonationService =
  sv_sessions :: "(string, ImpersonationSession) js_map"
  sv_auditEvents :: "ImpersonationAuditEvent list"
  sv_ledger :: "LedgerEventInput list option"

definition new_impersonation_service :: "bool \<Rightarrow> ImpersonationService" where
  "new_impersonation_service ledger =
     \<lparr>sv_sessions = [], sv_auditEvents = [], sv_ledger = (if ledger then Some [] else None)\<rparr>"

definition MAX_SESSION_TTL_SECONDS :: int where
  "MAX_SESSION_TTL_SECONDS = 30 * 60"

definition DEFAULT_SESSION_TTL_SECONDS :: int where
  "DEFAULT_SESSION_TTL_SECONDS = 15 * 60"

definition MAX_AUDIT_EVENTS :: nat where
  "MAX_AUDIT_EVENTS = 5000"

fun event_name :: "audit_kind \<Rightarrow> string" where
  "event_name Started = ''started''"
| "event_name Operation_allowed = ''operation_allowed''"
| "event_name Operation_denied = ''operation_denied''"
| "event_name Ended = ''ended''"
| "event_name Expired = ''expired''"
| "event_name Revoked = ''revoked''"

fun reason_name :: "ImpersonationEndReason option \<Rightarrow> string" where
  "reason_name None = ''null''"
| "reason_name (Some explicit_end) = ''explicit_end''"
| "reason_name (Some expired) = ''expired''"
| "reason_name (Some revoked) = ''revoked''"

definition endedDenial :: "ImpersonationSession \<Rightarrow> denial \<times> string" where
  "endedDenial s =
     (case se_endReason s of
        Some expired \<Rightarrow> (denied_expired, ''session expired at '' @ toISOString (se_expiresAt s))
      | Some revoked \<Rightarrow> (denied_revoked, ''session was revoked'')
      | _ \<Rightarrow> (session_ended, ''session has ended''))"

definition nullable :: "string option \<Rightarrow> unknown" where
  "nullable x = (case x of None \<Rightarrow> UNull | Some v \<Rightarrow> UStr v)"

definition ledger_input ::
  "ImpersonationSession \<Rightarrow> audit_kind \<Rightarrow> string option \<Rightarrow> string option \<Rightarrow> LedgerEventInput" where
  "ledger_input s event operation detail =
     \<lparr>li_type = ''impersonation.'' @ event_name event, li_actor = se_maintainerAddress s,
      li_subjectType = ''impersonation-session'', li_subjectId = se_sessionId s,
      li_payload = Some (UPlain [(''targetAddress'', UStr (se_targetAddress s)),
        (''reason'', UStr (se_reason s)), (''expiresAt'', UStr (toISOString (se_expiresAt s))),
        (''operation'', nullable operation), (''detail'', nullable detail)]),
      li_correlationId = None, li_occurredAt = None\<rparr>"

text \<open>\<open>wall\<close> is the clock of the audit entry, which is not the \<open>now\<close> of the operation.\<close>

definition audit ::
  "ImpersonationSession \<Rightarrow> audit_kind \<Rightarrow> string option \<Rightarrow> string option \<Rightarrow> instant \<Rightarrow>
   ImpersonationService \<Rightarrow> ImpersonationService" where
  "audit s event operation detail wall sv =
     sv\<lparr>sv_auditEvents :=
          (if length (sv_auditEvents sv) \<ge> MAX_AUDIT_EVENTS then tl (sv_auditEvents sv) else sv_auditEvents sv) @
          [\<lparr>ae_sessionId = se_sessionId s, ae_event = event, ae_at = wall,
            ae_maintainerAddress = se_maintainerAddress s, ae_targetAddress = se_targetAddress s,
            ae_operation = operation, ae_detail = detail\<rparr>],
        sv_ledger := map_option (\<lambda>out. out @ [ledger_input s event operation detail]) (sv_ledger sv)\<rparr>"

text \<open>\<open>Math.min(Math.max(1, Math.floor(requested)), MAX_SESSION_TTL_SECONDS)\<close>; \<open>None\<close> is NaN.\<close>

fun clamp_ttl :: "jsnum \<Rightarrow> int option" where
  "clamp_ttl NaN = None"
| "clamp_ttl PosInf = Some MAX_SESSION_TTL_SECONDS"
| "clamp_ttl NegInf = Some 1"
| "clamp_ttl (Num q) = Some (min (max 1 \<lfloor>q\<rfloor>) MAX_SESSION_TTL_SECONDS)"

text \<open>
  A request to start a session. The scope is absent when it is missing or its list of
  operations is not an array; the flag is absent when it is undefined.
\<close>

record start_request =
  sr_maintainerAddress :: string
  sr_targetAddress :: string
  sr_scope :: "(string list \<times> bool option) option"
  sr_reason :: string
  sr_ttlSeconds :: "jsnum option"

datatype start_error = Admin_key_not_configured | Admin_access_required | targetAddress_required
  | reason_required | allowedOperations_required | Invalid_time_value

definition js_unique :: "string list \<Rightarrow> string list" where
  "js_unique xs = rev (remdups (rev xs))"

definition start ::
  "string option \<Rightarrow> ImpersonationService \<Rightarrow> start_request \<Rightarrow> instant \<Rightarrow> string \<Rightarrow> instant \<Rightarrow>
   (start_error + ImpersonationSession) \<times> ImpersonationService" where
  "start STELLAR_PUBLIC_KEY sv r now uuid wall =
     (case STELLAR_PUBLIC_KEY of
        None \<Rightarrow> (Inl Admin_key_not_configured, sv)
      | Some adminKey \<Rightarrow>
          if adminKey = [] then (Inl Admin_key_not_configured, sv)
          else if sr_maintainerAddress r \<noteq> adminKey then (Inl Admin_access_required, sv)
          else if sr_targetAddress r = [] then (Inl targetAddress_required, sv)
          else if js_trim (sr_reason r) = [] then (Inl reason_required, sv)
          else (case sr_scope r of
            None \<Rightarrow> (Inl allowedOperations_required, sv)
          | Some (operations, dangerous) \<Rightarrow>
              (let requested = (case sr_ttlSeconds r of None \<Rightarrow> num_of_int DEFAULT_SESSION_TTL_SECONDS | Some t \<Rightarrow> t)
               in case clamp_ttl requested of
                    None \<Rightarrow> (Inl Invalid_time_value, sv)
                  | Some ttl \<Rightarrow>
              (case instant_plus now (num_of_int (ttl * 1000)) of
                 None \<Rightarrow> (Inl Invalid_time_value, sv)
               | Some expiresAt \<Rightarrow>
                   (let s = \<lparr>se_sessionId = uuid, se_maintainerAddress = sr_maintainerAddress r,
                             se_targetAddress = sr_targetAddress r,
                             se_scope = \<lparr>sc_allowedOperations = js_unique operations,
                                         sc_allowDangerousMutations = (dangerous = Some True)\<rparr>,
                             se_reason = js_trim (sr_reason r), se_startedAt = now, se_expiresAt = expiresAt,
                             se_endedAt = None, se_endReason = None\<rparr>
                    in (Inr s, audit s Started None
                          (Some (''scope: '' @ join '', '' (sc_allowedOperations (se_scope s)))) wall
                          (sv\<lparr>sv_sessions := js_set uuid s (sv_sessions sv)\<rparr>)))))))"

definition endInternal :: "ImpersonationEndReason \<Rightarrow> instant \<Rightarrow> ImpersonationSession \<Rightarrow> ImpersonationSession" where
  "endInternal reason now s =
     (case se_endedAt s of Some _ \<Rightarrow> s
      | None \<Rightarrow> s\<lparr>se_endedAt := Some now, se_endReason := Some reason\<rparr>)"

definition put_session :: "string \<Rightarrow> ImpersonationSession \<Rightarrow> ImpersonationService \<Rightarrow> ImpersonationService" where
  "put_session i s sv = sv\<lparr>sv_sessions := js_set i s (sv_sessions sv)\<rparr>"

definition performOperation ::
  "ImpersonationService \<Rightarrow> string \<Rightarrow> string \<Rightarrow> bool \<Rightarrow> instant \<Rightarrow> instant \<Rightarrow>
   ImpersonationDecision \<times> ImpersonationService" where
  "performOperation sv i operation dangerous now wall =
     (case map_of (sv_sessions sv) i of
        None \<Rightarrow> (Denied no_active_session ''no such impersonation session'', sv)
      | Some s \<Rightarrow>
          if se_endedAt s \<noteq> None
          then (Denied (fst (endedDenial s)) (snd (endedDenial s)),
                audit s Operation_denied (Some operation)
                  (Some (''session already '' @ reason_name (se_endReason s))) wall sv)
          else if now \<ge> se_expiresAt s
          then (let s' = endInternal expired now s in
                (Denied denied_expired (''session expired at '' @ toISOString (se_expiresAt s')),
                 audit s' Expired (Some operation) None wall (put_session i s' sv)))
          else if operation \<notin> set (sc_allowedOperations (se_scope s))
          then (Denied operation_not_in_scope
                  (''operation '' @ [CHR 0x27] @ operation @ [CHR 0x27] @ '' is not in the session scope''),
                audit s Operation_denied (Some operation) (Some ''operation not in scope'') wall sv)
          else if dangerous \<and> \<not> sc_allowDangerousMutations (se_scope s)
          then (Denied dangerous_mutation_blocked ''dangerous mutations require an explicit session grant'',
                audit s Operation_denied (Some operation) (Some ''dangerous mutation blocked'') wall sv)
          else (Allowed, audit s Operation_allowed (Some operation) None wall sv))"

definition endBy ::
  "ImpersonationService \<Rightarrow> string \<Rightarrow> string \<Rightarrow> ImpersonationEndReason \<Rightarrow> audit_kind \<Rightarrow> instant \<Rightarrow> instant \<Rightarrow>
   bool \<times> ImpersonationService" where
  "endBy sv i byAddress endReason auditEvent now wall =
     (case map_of (sv_sessions sv) i of
        None \<Rightarrow> (False, sv)
      | Some s \<Rightarrow>
          if se_maintainerAddress s \<noteq> byAddress then (False, sv)
          else if se_endedAt s \<noteq> None then (True, sv)
          else (let s' = endInternal endReason now s in
                (True, audit s' auditEvent None None wall (put_session i s' sv))))"

definition end_session ::
  "ImpersonationService \<Rightarrow> string \<Rightarrow> string \<Rightarrow> instant \<Rightarrow> instant \<Rightarrow> bool \<times> ImpersonationService" where
  "end_session sv i byAddress now wall = endBy sv i byAddress explicit_end Ended now wall"

definition revoke ::
  "ImpersonationService \<Rightarrow> string \<Rightarrow> string \<Rightarrow> instant \<Rightarrow> instant \<Rightarrow> bool \<times> ImpersonationService" where
  "revoke sv i byAddress now wall = endBy sv i byAddress revoked Revoked now wall"

definition getSession :: "ImpersonationService \<Rightarrow> string \<Rightarrow> ImpersonationSession option" where
  "getSession sv i = map_of (sv_sessions sv) i"

definition running :: "instant \<Rightarrow> ImpersonationSession \<Rightarrow> bool" where
  "running now s \<longleftrightarrow> se_endedAt s = None \<and> se_expiresAt s > now"

definition getSessionsForTarget :: "ImpersonationService \<Rightarrow> string \<Rightarrow> instant \<Rightarrow> ImpersonationSession list" where
  "getSessionsForTarget sv target now =
     filter (\<lambda>s. se_targetAddress s = target \<and> running now s) (map snd (sv_sessions sv))"

definition getAuditTrail :: "ImpersonationService \<Rightarrow> ImpersonationAuditEvent list" where
  "getAuditTrail sv = sv_auditEvents sv"

definition getActiveSessionCount :: "ImpersonationService \<Rightarrow> instant \<Rightarrow> nat" where
  "getActiveSessionCount sv now = length (filter (running now) (map snd (sv_sessions sv)))"

definition clear :: "ImpersonationService \<Rightarrow> ImpersonationService" where
  "clear sv = sv\<lparr>sv_sessions := [], sv_auditEvents := []\<rparr>"

section \<open>Sequences of calls\<close>

datatype impersonation_call = Start "string option" start_request instant string instant
  | Perform string string bool instant instant
  | End string string instant instant | Revoke string string instant instant

fun impersonation_step :: "ImpersonationService \<Rightarrow> impersonation_call \<Rightarrow> ImpersonationService" where
  "impersonation_step sv (Start key r now uuid wall) = snd (start key sv r now uuid wall)"
| "impersonation_step sv (Perform i operation dangerous now wall) =
     snd (performOperation sv i operation dangerous now wall)"
| "impersonation_step sv (End i by_address now wall) = snd (end_session sv i by_address now wall)"
| "impersonation_step sv (Revoke i by_address now wall) = snd (revoke sv i by_address now wall)"

fun impersonation_fresh :: "ImpersonationService \<Rightarrow> impersonation_call \<Rightarrow> bool" where
  "impersonation_fresh sv (Start key r now uuid wall) = (map_of (sv_sessions sv) uuid = None)"
| "impersonation_fresh sv _ = True"

definition session_known :: "ImpersonationService \<Rightarrow> string \<Rightarrow> bool" where
  "session_known sv i \<longleftrightarrow> map_of (sv_sessions sv) i \<noteq> None"

definition usable :: "ImpersonationService \<Rightarrow> string \<Rightarrow> instant \<Rightarrow> bool" where
  "usable sv i t = (case map_of (sv_sessions sv) i of None \<Rightarrow> False | Some s \<Rightarrow> running t s)"

section \<open>Decisions\<close>

lemma sessions_audit [simp]: "sv_sessions (audit s event operation detail wall sv) = sv_sessions sv"
  by (simp add: audit_def)

lemma sessions_put [simp]: "sv_sessions (put_session i s sv) = js_set i s (sv_sessions sv)"
  by (simp add: put_session_def)


section \<open>Sessions after a call\<close>

definition session_evolves :: "ImpersonationSession \<Rightarrow> ImpersonationSession \<Rightarrow> bool" where
  "session_evolves s s' \<longleftrightarrow> s' = s \<or>
     se_endedAt s = None \<and> (\<exists>t r. s' = s\<lparr>se_endedAt := Some t, se_endReason := Some r\<rparr>)"

lemma endInternal_evolves [simp]: "session_evolves s (endInternal reason now s)"
  by (auto simp: session_evolves_def endInternal_def split: option.splits)

lemma session_evolves_refl [simp]: "session_evolves s s" by (simp add: session_evolves_def)

lemma running_evolves: "session_evolves s s' \<Longrightarrow> running t s' \<Longrightarrow> running t s"
  by (auto simp: session_evolves_def running_def)

lemma start_sessions:
  "sv_sessions (snd (start key sv r now uuid wall)) =
     (case fst (start key sv r now uuid wall) of Inl _ \<Rightarrow> sv_sessions sv
      | Inr s \<Rightarrow> js_set uuid s (sv_sessions sv))"
  by (auto simp: start_def Let_def split: option.splits prod.splits)

lemma impersonation_step_session:
  assumes "impersonation_fresh sv c" and s: "map_of (sv_sessions sv) i = Some s"
  shows "\<exists>s'. map_of (sv_sessions (impersonation_step sv c)) i = Some s' \<and> session_evolves s s'"
proof (cases c)
  case (Start key r now uuid wall)
  with assms show ?thesis by (auto simp: start_sessions map_of_js_set split: sum.splits)
next
  case (Perform j operation dangerous now wall)
  with s show ?thesis
    by (cases "map_of (sv_sessions sv) j") (auto simp: performOperation_def map_of_js_set Let_def)
next
  case (End j by_address now wall)
  with s show ?thesis
    by (cases "map_of (sv_sessions sv) j") (auto simp: end_session_def endBy_def map_of_js_set Let_def)
next
  case (Revoke j by_address now wall)
  with s show ?thesis
    by (cases "map_of (sv_sessions sv) j") (auto simp: revoke_def endBy_def map_of_js_set Let_def)
qed

interpretation session: time_bounded impersonation_step impersonation_fresh session_known usable
proof
  fix sv i t t' assume "usable sv i t'" "t \<le> (t' :: instant)"
  then show "usable sv i t" by (auto simp: usable_def running_def split: option.splits)
next
  fix sv c i assume "impersonation_fresh sv c" "session_known sv i"
  then show "session_known (impersonation_step sv c) i"
    using impersonation_step_session [of sv c i] by (auto simp: session_known_def)
next
  fix sv c i t assume "impersonation_fresh sv c" "session_known sv i" "usable (impersonation_step sv c) i t"
  then show "usable sv i t"
    using impersonation_step_session [of sv c i] running_evolves
    by (fastforce simp: session_known_def usable_def split: option.splits)
qed

lemma impersonation_run_session:
  "ok_run impersonation_step impersonation_fresh sv cs \<Longrightarrow> map_of (sv_sessions sv) i = Some s \<Longrightarrow>
     \<exists>s'. map_of (sv_sessions (foldl impersonation_step sv cs)) i = Some s' \<and> se_scope s' = se_scope s"
proof (induction cs arbitrary: sv s)
  case (Cons c cs)
  obtain s1 where "map_of (sv_sessions (impersonation_step sv c)) i = Some s1" "session_evolves s s1"
    using impersonation_step_session Cons.prems by fastforce
  with Cons.IH [of "impersonation_step sv c" s1] Cons.prems(1) show ?case by (auto simp: session_evolves_def)
qed simp

lemma allowed_usable:
  assumes "fst (performOperation sv i operation dangerous now wall) = Allowed" "map_of (sv_sessions sv) i = Some s"
  shows "usable sv i now \<and> operation \<in> set (sc_allowedOperations (se_scope s)) \<and>
    (dangerous \<longrightarrow> sc_allowDangerousMutations (se_scope s))"
  using assms by (auto simp: performOperation_def usable_def running_def Let_def split: if_splits)

lemma set_js_unique [simp]: "set (js_unique xs) = set xs" by (simp add: js_unique_def)

lemma clamp_ttl_bounds: "clamp_ttl x = Some ttl \<Longrightarrow> 1 \<le> ttl \<and> ttl \<le> MAX_SESSION_TTL_SECONDS"
  by (cases x) (auto simp: MAX_SESSION_TTL_SECONDS_def)

lemma start_session:
  assumes "fst (start key sv r now uuid wall) = Inr s"
  shows "key = Some (sr_maintainerAddress r) \<and> se_maintainerAddress s = sr_maintainerAddress r \<and>
    (\<exists>operations dangerous. sr_scope r = Some (operations, dangerous) \<and>
       se_scope s = \<lparr>sc_allowedOperations = js_unique operations, sc_allowDangerousMutations = (dangerous = Some True)\<rparr>) \<and>
    (\<exists>ttl. ttl \<le> MAX_SESSION_TTL_SECONDS \<and> instant_plus now (num_of_int (ttl * 1000)) = Some (se_expiresAt s) \<and> 1 \<le> ttl)"
  using assms
  by (auto simp: start_def Let_def simp del: clamp_ttl.simps dest!: clamp_ttl_bounds
      split: option.splits if_splits prod.splits)

text \<open>
  C19. A session is a hard bound on what its maintainer can do. Whatever calls follow
  its start, an operation under it is allowed only to a session that the holder of
  the admin key started, for an operation listed at the start, dangerous only if that was
  granted at the start, and less than thirty minutes after the start.
\<close>

theorem session_is_bounded:
  assumes started: "fst (start key sv r now uuid wall) = Inr s" and "0 \<le> now"
    and run: "ok_run impersonation_step impersonation_fresh (snd (start key sv r now uuid wall)) cs"
    and allowed: "fst (performOperation (foldl impersonation_step (snd (start key sv r now uuid wall)) cs)
                         uuid operation dangerous t wall') = Allowed"
  shows "key = Some (sr_maintainerAddress r) \<and> t < now + 30 * 60 * 1000 \<and>
    (\<exists>operations flag. sr_scope r = Some (operations, flag) \<and> operation \<in> set operations \<and>
       (dangerous \<longrightarrow> flag = Some True))"
proof -
  let ?sv = "snd (start key sv r now uuid wall)"
  have s: "map_of (sv_sessions ?sv) uuid = Some s" using started by (simp add: start_sessions map_of_js_set)
  from impersonation_run_session [OF run s] obtain s' where
    s': "map_of (sv_sessions (foldl impersonation_step ?sv cs)) uuid = Some s'" "se_scope s' = se_scope s" by blast
  from allowed_usable [OF allowed s'(1)] have use: "usable (foldl impersonation_step ?sv cs) uuid t"
    "operation \<in> set (sc_allowedOperations (se_scope s))" "dangerous \<longrightarrow> sc_allowDangerousMutations (se_scope s)"
    by (auto simp: s'(2))
  have "usable ?sv uuid t" using session.live_run [OF run _ use(1)] s by (simp add: session_known_def)
  then have "t < se_expiresAt s" using s by (simp add: usable_def running_def)
  moreover obtain ttl where "ttl \<le> MAX_SESSION_TTL_SECONDS" "instant_plus now (num_of_int (ttl * 1000)) = Some (se_expiresAt s)"
    "1 \<le> ttl" using start_session [OF started] by blast
  ultimately have "t < now + 30 * 60 * 1000"
    using instant_plus_le [of now "of_int (ttl * 1000)" "se_expiresAt s"] \<open>0 \<le> now\<close>
    by (auto simp: MAX_SESSION_TTL_SECONDS_def)
  then show ?thesis using start_session [OF started] use(2,3) by auto
qed

section \<open>The audit trail\<close>

definition audit_of :: "ImpersonationAuditEvent \<Rightarrow> string \<times> string \<times> string" where
  "audit_of e = (''impersonation.'' @ event_name (ae_event e), ae_maintainerAddress e, ae_sessionId e)"

definition input_of :: "LedgerEventInput \<Rightarrow> string \<times> string \<times> string" where
  "input_of i = (li_type i, li_actor i, li_subjectId i)"

definition mirrored :: "ImpersonationService \<Rightarrow> bool" where
  "mirrored sv \<longleftrightarrow> (case sv_ledger sv of None \<Rightarrow> False | Some out \<Rightarrow>
     map audit_of (sv_auditEvents sv) = map input_of (drop (length out - MAX_AUDIT_EVENTS) out) \<and>
     list_all (\<lambda>i. map_of LEDGER_EVENT_TYPES (li_type i) \<noteq> None) out)"

lemma ledger_input_type: "\<exists>y. map_of LEDGER_EVENT_TYPES (li_type (ledger_input s event operation detail)) = Some y"
  by (cases event; simp add: ledger_input_def LEDGER_EVENT_TYPES_def)

lemma input_of_ledger_input [simp]:
  "input_of (ledger_input s event operation detail) =
     (''impersonation.'' @ event_name event, se_maintainerAddress s, se_sessionId s)"
  by (simp add: input_of_def ledger_input_def)

lemma mirrored_audit: "mirrored sv \<Longrightarrow> mirrored (audit s event operation detail wall sv)"
proof -
  assume "mirrored sv"
  then obtain out where o: "sv_ledger sv = Some out"
    and eq: "map audit_of (sv_auditEvents sv) = map input_of (drop (length out - MAX_AUDIT_EVENTS) out)"
    and ty: "list_all (\<lambda>i. map_of LEDGER_EVENT_TYPES (li_type i) \<noteq> None) out"
    by (auto simp: mirrored_def split: option.splits)
  have len: "length (sv_auditEvents sv) = min (length out) MAX_AUDIT_EVENTS"
    using arg_cong [OF eq, of length] by auto
  have pos: "0 < MAX_AUDIT_EVENTS" by (simp add: MAX_AUDIT_EVENTS_def)
  show ?thesis
  proof (cases "length out < MAX_AUDIT_EVENTS")
    case True
    with eq len ty ledger_input_type show ?thesis
      by (simp add: mirrored_def audit_def o audit_of_def)
  next
    case False
    then have "map audit_of (tl (sv_auditEvents sv)) = map input_of (drop (Suc (length out) - MAX_AUDIT_EVENTS) out)"
      using pos by (simp add: map_tl eq drop_Suc Suc_diff_le) (simp add: map_tl [symmetric] tl_drop)
    with False len pos ty ledger_input_type show ?thesis
      by (simp add: mirrored_def audit_def o audit_of_def)
  qed
qed

lemma mirrored_sessions [simp]: "mirrored (sv\<lparr>sv_sessions := x\<rparr>) = mirrored sv"
  by (simp add: mirrored_def split: option.split)

lemma mirrored_step: "mirrored sv \<Longrightarrow> mirrored (impersonation_step sv c)"
  by (cases c) (auto simp: start_def performOperation_def end_session_def revoke_def endBy_def put_session_def Let_def
      intro!: mirrored_audit split: option.splits)


section \<open>Examples\<close>

definition example_request :: start_request where
  "example_request = \<lparr>sr_maintainerAddress = ''G'', sr_targetAddress = ''U'',
     sr_scope = Some ([''bond.read''], None), sr_reason = ''ticket 7'', sr_ttlSeconds = Some PosInf\<rparr>"

theorem session_is_bounded_witness:
  "fst (performOperation (snd (start (Some ''G'') (new_impersonation_service True) example_request 0 ''u1'' 0))
     ''u1'' ''bond.read'' False 1000 1000) = Allowed \<and> (1000 :: int) < 0 + 30 * 60 * 1000 \<and>
   ''bond.read'' \<in> set [''bond.read'']"
proof -
  let ?r = "start (Some ''G'') (new_impersonation_service True) example_request 0 ''u1'' 0"
  have run: "(case fst ?r of Inl _ \<Rightarrow> False | Inr _ \<Rightarrow> True) \<and>
      fst (performOperation (snd ?r) ''u1'' ''bond.read'' False 1000 1000) = Allowed" by code_simp
  then obtain s where s: "fst ?r = Inr s" by (auto split: sum.splits)
  have allowed: "fst (performOperation (snd ?r) ''u1'' ''bond.read'' False 1000 1000) = Allowed"
    using run by (rule conjunct2)
  from session_is_bounded [OF s, of "[]" "''bond.read''" False 1000 1000] allowed show ?thesis
    by (simp add: example_request_def)
qed

end
