(* ===== verification/Holder_Index.thy ===== *)
theory Holder_Index
  imports Prelude
begin

text \<open>
  The authoritative holder index of bonds: \<open>api/src/bonds/holder-store.ts\<close> and
  \<open>holder-index.service.ts\<close>. The contract is a parameter: \<open>ce_balance\<close> is what
  \<open>get_holder_balance\<close> answers during a call, \<open>None\<close> when the call fails or the address
  is malformed. The clock readings within one call coincide, and \<open>ce_disk_ok\<close>
  says whether the file system takes the writes of the call. The Redis set of holders
  is only written by this service, never read, and is left out.
\<close>

section \<open>The store\<close>

record HolderStoreData =
  hd_holders :: "(nat, string list) js_map"
  hd_knownAddresses :: "string list"
  hd_lastReconciled :: "(nat, instant) js_map"

definition no_data :: HolderStoreData where
  "no_data = \<lparr>hd_holders = [], hd_knownAddresses = [], hd_lastReconciled = []\<rparr>"

definition getHolders :: "HolderStoreData \<Rightarrow> nat \<Rightarrow> string list" where
  "getHolders d bondId = (case map_of (hd_holders d) bondId of None \<Rightarrow> [] | Some hs \<Rightarrow> hs)"

definition setHolders :: "nat \<Rightarrow> string list \<Rightarrow> HolderStoreData \<Rightarrow> HolderStoreData" where
  "setHolders bondId hs d = d\<lparr>hd_holders := js_set bondId (rev (remdups (rev hs))) (hd_holders d)\<rparr>"

definition addHolder :: "nat \<Rightarrow> string \<Rightarrow> HolderStoreData \<Rightarrow> HolderStoreData" where
  "addHolder bondId address d =
     (if address \<in> set (getHolders d bondId) then d
      else d\<lparr>hd_holders := js_set bondId (getHolders d bondId @ [address]) (hd_holders d)\<rparr>)"

definition removeHolder :: "nat \<Rightarrow> string \<Rightarrow> HolderStoreData \<Rightarrow> HolderStoreData" where
  "removeHolder bondId address d =
     d\<lparr>hd_holders := js_set bondId (filter (\<lambda>a. a \<noteq> address) (getHolders d bondId)) (hd_holders d)\<rparr>"

definition getKnownAddresses :: "HolderStoreData \<Rightarrow> string list" where
  "getKnownAddresses d = hd_knownAddresses d"

definition addKnownAddress :: "string \<Rightarrow> HolderStoreData \<Rightarrow> HolderStoreData" where
  "addKnownAddress address d =
     (if address \<in> set (hd_knownAddresses d) then d
      else d\<lparr>hd_knownAddresses := hd_knownAddresses d @ [address]\<rparr>)"

definition getLastReconciled :: "HolderStoreData \<Rightarrow> nat \<Rightarrow> instant" where
  "getLastReconciled d bondId = (case map_of (hd_lastReconciled d) bondId of None \<Rightarrow> 0 | Some t \<Rightarrow> t)"

definition touch :: "nat \<Rightarrow> instant \<Rightarrow> HolderStoreData \<Rightarrow> HolderStoreData" where
  "touch bondId t d = d\<lparr>hd_lastReconciled := js_set bondId t (hd_lastReconciled d)\<rparr>"

text \<open>
  What is in the index file, as \<open>JSON.parse\<close> reads it: nothing when the file cannot be
  read or parsed, and each part may be missing.
\<close>

record stored_data =
  sd_holders :: "(nat, string list) js_map option"
  sd_knownAddresses :: "string list option"
  sd_lastReconciled :: "(nat, instant) js_map option"

datatype store_kind = Memory_store | File_store

record HolderIndexService =
  hi_kind :: store_kind
  hi_data :: HolderStoreData
  hi_file :: "stored_data option"
  hi_loaded :: bool

definition createHolderStore :: "string option \<Rightarrow> string option \<Rightarrow> store_kind" where
  "createHolderStore HOLDER_INDEX_STORE NODE_ENV =
     (let kind = (case HOLDER_INDEX_STORE of Some k \<Rightarrow> k | None \<Rightarrow> []) in
      let kind = (if kind \<noteq> [] then kind else if NODE_ENV = Some ''test'' then ''memory'' else ''file'') in
      if kind = ''memory'' then Memory_store else File_store)"

definition new_index :: "store_kind \<Rightarrow> stored_data option \<Rightarrow> HolderIndexService" where
  "new_index kind f = \<lparr>hi_kind = kind, hi_data = no_data, hi_file = f, hi_loaded = False\<rparr>"

definition load_store :: "HolderIndexService \<Rightarrow> HolderIndexService" where
  "load_store s =
     (case hi_kind s of Memory_store \<Rightarrow> s
      | File_store \<Rightarrow> s\<lparr>hi_data := (case hi_file s of
            Some p \<Rightarrow> \<lparr>hd_holders = (case sd_holders p of None \<Rightarrow> [] | Some x \<Rightarrow> x),
                       hd_knownAddresses = (case sd_knownAddresses p of None \<Rightarrow> [] | Some x \<Rightarrow> x),
                       hd_lastReconciled = (case sd_lastReconciled p of None \<Rightarrow> [] | Some x \<Rightarrow> x)\<rparr>
          | None \<Rightarrow> no_data)\<rparr>)"

definition save :: "bool \<Rightarrow> HolderIndexService \<Rightarrow> HolderIndexService" where
  "save disk_ok s =
     (case hi_kind s of Memory_store \<Rightarrow> s
      | File_store \<Rightarrow> if disk_ok
          then s\<lparr>hi_file := Some \<lparr>sd_holders = Some (hd_holders (hi_data s)),
                                 sd_knownAddresses = Some (hd_knownAddresses (hi_data s)),
                                 sd_lastReconciled = Some (hd_lastReconciled (hi_data s))\<rparr>\<rparr>
          else s)"

section \<open>The service\<close>

record call_env =
  ce_now :: instant
  ce_balance :: "nat \<Rightarrow> string \<Rightarrow> int option"
  ce_disk_ok :: bool

record HolderWithBalance =
  hb_address :: string
  hb_balance :: string

definition ensureLoaded :: "HolderIndexService \<Rightarrow> HolderIndexService" where
  "ensureLoaded s = (if hi_loaded s then s else (load_store s)\<lparr>hi_loaded := True\<rparr>)"

definition on_data :: "(HolderStoreData \<Rightarrow> HolderStoreData) \<Rightarrow> HolderIndexService \<Rightarrow> HolderIndexService" where
  "on_data f s = s\<lparr>hi_data := f (hi_data s)\<rparr>"

definition recordSubscribe :: "call_env \<Rightarrow> nat \<Rightarrow> string \<Rightarrow> HolderIndexService \<Rightarrow> HolderIndexService" where
  "recordSubscribe E bondId address s =
     save (ce_disk_ok E)
       (on_data (touch bondId (ce_now E) \<circ> addKnownAddress address \<circ> addHolder bondId address) (ensureLoaded s))"

definition recordTransfer :: "call_env \<Rightarrow> nat \<Rightarrow> string \<Rightarrow> string \<Rightarrow> HolderIndexService \<Rightarrow> HolderIndexService" where
  "recordTransfer E bondId fromAddress toAddress s =
     save (ce_disk_ok E)
       (on_data (touch bondId (ce_now E) \<circ> addHolder bondId toAddress \<circ>
                 addKnownAddress toAddress \<circ> addKnownAddress fromAddress) (ensureLoaded s))"

definition getAuthoritativeHolders :: "nat \<Rightarrow> HolderIndexService \<Rightarrow> string list \<times> HolderIndexService" where
  "getAuthoritativeHolders bondId s = (let s = ensureLoaded s in (getHolders (hi_data s) bondId, s))"

text \<open>The loop of \<open>getHoldersWithBalances\<close>: the result, whether a holder was removed, the data.\<close>

fun check_holders ::
  "(string \<Rightarrow> int option) \<Rightarrow> nat \<Rightarrow> string list \<Rightarrow> HolderStoreData \<Rightarrow> HolderWithBalance list \<times> bool \<times> HolderStoreData" where
  "check_holders bal bondId [] d = ([], False, d)"
| "check_holders bal bondId (a # as) d =
     (case bal a of
        Some b \<Rightarrow>
          if b > 0 then (case check_holders bal bondId as d of
              (r, changed, d') \<Rightarrow> (\<lparr>hb_address = a, hb_balance = int_str b\<rparr> # r, changed, d'))
          else (case check_holders bal bondId as (removeHolder bondId a d) of (r, _, d') \<Rightarrow> (r, True, d'))
      | None \<Rightarrow> (case check_holders bal bondId as d of
              (r, changed, d') \<Rightarrow> (\<lparr>hb_address = a, hb_balance = ''0''\<rparr> # r, changed, d')))"

definition getHoldersWithBalances ::
  "call_env \<Rightarrow> nat \<Rightarrow> HolderIndexService \<Rightarrow> HolderWithBalance list \<times> HolderIndexService" where
  "getHoldersWithBalances E bondId s =
     (let s = ensureLoaded s in
      case check_holders (ce_balance E bondId) bondId (getHolders (hi_data s) bondId) (hi_data s) of
        (result, changed, d) \<Rightarrow>
          (result, (if changed then save (ce_disk_ok E) else id) (s\<lparr>hi_data := d\<rparr>)))"

definition reconcile_candidate ::
  "(string \<Rightarrow> int option) \<Rightarrow> nat \<Rightarrow> HolderStoreData \<Rightarrow> string \<Rightarrow> HolderStoreData" where
  "reconcile_candidate bal bondId d address =
     (case bal address of
        Some b \<Rightarrow> if b > 0 then addHolder bondId address d else removeHolder bondId address d
      | None \<Rightarrow> d)"

definition candidates :: "HolderStoreData \<Rightarrow> nat \<Rightarrow> string list \<Rightarrow> string list" where
  "candidates d bondId extra = rev (remdups (rev (getHolders d bondId @ getKnownAddresses d @ extra)))"

definition reconcileBond ::
  "call_env \<Rightarrow> nat \<Rightarrow> string list \<Rightarrow> HolderIndexService \<Rightarrow> HolderWithBalance list \<times> HolderIndexService" where
  "reconcileBond E bondId extraCandidates s =
     (let s = ensureLoaded s;
          d = foldl (reconcile_candidate (ce_balance E bondId) bondId) (hi_data s)
                (candidates (hi_data s) bondId extraCandidates)
      in getHoldersWithBalances E bondId
           (save (ce_disk_ok E) (s\<lparr>hi_data := touch bondId (ce_now E) d\<rparr>)))"

text \<open>The loop of \<open>reindexAll\<close> from a bond number on.\<close>

fun reindex_from ::
  "call_env \<Rightarrow> nat \<Rightarrow> nat \<Rightarrow> HolderIndexService \<Rightarrow> (nat \<times> HolderWithBalance list) list \<times> HolderIndexService" where
  "reindex_from E i 0 s = ([], s)"
| "reindex_from E i (Suc n) s =
     (case reconcileBond E i [] s of (r, s') \<Rightarrow>
        (case reindex_from E (Suc i) n s' of (out, s'') \<Rightarrow> ((i, r) # out, s'')))"

definition reindexAll ::
  "call_env \<Rightarrow> nat \<Rightarrow> HolderIndexService \<Rightarrow> (nat \<times> HolderWithBalance list) list \<times> HolderIndexService" where
  "reindexAll E bondCount s = reindex_from E 1 bondCount (ensureLoaded s)"

text \<open>
  The settings of \<open>getHoldersForCoupon\<close>: its options, the variable
  \<open>HOLDER_INDEX_STRICT\<close>, and \<open>HOLDER_INDEX_MAX_STALENESS_MS\<close> as \<open>Number\<close> reads it.
\<close>

record coupon_settings =
  cs_requireFresh :: "bool option"
  cs_maxStalenessMs :: "jsnum option"
  cs_strict :: "string option"
  cs_staleness_variable :: "jsnum option"

definition requires_fresh :: "coupon_settings \<Rightarrow> bool" where
  "requires_fresh o1 = (case cs_requireFresh o1 of Some b \<Rightarrow> b | None \<Rightarrow> cs_strict o1 \<noteq> Some ''false'')"

definition max_staleness :: "coupon_settings \<Rightarrow> jsnum" where
  "max_staleness o1 = (case cs_maxStalenessMs o1 of Some x \<Rightarrow> x
     | None \<Rightarrow> (case cs_staleness_variable o1 of Some x \<Rightarrow> x | None \<Rightarrow> num_of_int 3600000))"

definition is_stale :: "coupon_settings \<Rightarrow> instant \<Rightarrow> HolderStoreData \<Rightarrow> nat \<Rightarrow> bool" where
  "is_stale o1 now d bondId \<longleftrightarrow>
     (let lastReconciled = getLastReconciled d bondId in
      lastReconciled = 0 \<or> num_less (max_staleness o1) (num_of_int (now - lastReconciled)))"

text \<open>
  \<open>reconcileBond\<close> catches what the contract calls throw, and neither \<open>load\<close> nor \<open>save\<close>
  throws, so that the branch for a failed reconciliation is not reachable.
\<close>

definition getHoldersForCoupon ::
  "call_env \<Rightarrow> nat \<Rightarrow> coupon_settings \<Rightarrow> HolderIndexService \<Rightarrow> (string + string list) \<times> HolderIndexService" where
  "getHoldersForCoupon E bondId o1 s =
     (let s = ensureLoaded s;
          s = (if requires_fresh o1 \<and> is_stale o1 (ce_now E) (hi_data s) bondId
               then snd (reconcileBond E bondId [] s) else s)
      in if requires_fresh o1 \<and> getKnownAddresses (hi_data s) = [] \<and> getHolders (hi_data s) bondId = []
         then (Inl ''Refusing coupon distribution'', s)
         else (case getHoldersWithBalances E bondId s of (hs, s') \<Rightarrow> (Inr (map hb_address hs), s')))"

definition markReconciled :: "call_env \<Rightarrow> nat \<Rightarrow> HolderIndexService \<Rightarrow> HolderIndexService" where
  "markReconciled E bondId s = save (ce_disk_ok E) (on_data (touch bondId (ce_now E)) (ensureLoaded s))"

definition getStore :: "HolderIndexService \<Rightarrow> HolderStoreData" where
  "getStore s = hi_data s"

text \<open>A restart of the process keeps the file only.\<close>

definition restart :: "HolderIndexService \<Rightarrow> HolderIndexService" where
  "restart s = new_index (hi_kind s) (hi_file s)"

datatype index_call = Subscribe nat string | Transfer nat string string | Holders nat | Balances nat
  | Reconcile nat "string list" | Reindex nat | Coupon nat coupon_settings | Mark nat | Restart

fun index_step :: "HolderIndexService \<Rightarrow> call_env \<times> index_call \<Rightarrow> HolderIndexService" where
  "index_step s (E, Subscribe b a) = recordSubscribe E b a s"
| "index_step s (E, Transfer b a a') = recordTransfer E b a a' s"
| "index_step s (E, Holders b) = snd (getAuthoritativeHolders b s)"
| "index_step s (E, Balances b) = snd (getHoldersWithBalances E b s)"
| "index_step s (E, Reconcile b extra) = snd (reconcileBond E b extra s)"
| "index_step s (E, Reindex n) = snd (reindexAll E n s)"
| "index_step s (E, Coupon b o1) = snd (getHoldersForCoupon E b o1 s)"
| "index_step s (E, Mark b) = markReconciled E b s"
| "index_step s (E, Restart) = restart s"

section \<open>The store under the operations\<close>

lemma getHolders_simps [simp]:
  "getHolders (addHolder b a d) c =
     (if c = b \<and> a \<notin> set (getHolders d b) then getHolders d b @ [a] else getHolders d c)"
  "getHolders (removeHolder b a d) c = (if c = b then filter (\<lambda>x. x \<noteq> a) (getHolders d b) else getHolders d c)"
  "getHolders (touch b t d) c = getHolders d c"
  "getHolders (addKnownAddress a d) c = getHolders d c"
  by (auto simp: getHolders_def addHolder_def removeHolder_def touch_def addKnownAddress_def map_of_js_set
      split: option.splits)

lemma known_simps [simp]:
  "getKnownAddresses (addHolder b a d) = getKnownAddresses d"
  "getKnownAddresses (removeHolder b a d) = getKnownAddresses d"
  "getKnownAddresses (touch b t d) = getKnownAddresses d"
  by (auto simp: getKnownAddresses_def addHolder_def removeHolder_def touch_def)

lemma getLastReconciled_simps [simp]:
  "getLastReconciled (touch b t d) c = (if c = b then t else getLastReconciled d c)"
  "getLastReconciled (addHolder b a d) c = getLastReconciled d c"
  "getLastReconciled (removeHolder b a d) c = getLastReconciled d c"
  by (auto simp: getLastReconciled_def touch_def addHolder_def removeHolder_def map_of_js_set)

text \<open>A holder that the contract reports to have nothing is gone.\<close>

definition gone :: "(string \<Rightarrow> int option) \<Rightarrow> string \<Rightarrow> bool" where
  "gone bal a = (case bal a of None \<Rightarrow> False | Some b \<Rightarrow> b \<le> 0)"

definition with_balance :: "(string \<Rightarrow> int option) \<Rightarrow> string \<Rightarrow> HolderWithBalance" where
  "with_balance bal a = \<lparr>hb_address = a, hb_balance = (case bal a of None \<Rightarrow> ''0'' | Some b \<Rightarrow> int_str b)\<rparr>"

lemma gone_eq: "bal a = Some b \<Longrightarrow> gone bal a \<longleftrightarrow> \<not> 0 < b" "bal a = None \<Longrightarrow> \<not> gone bal a"
  by (auto simp: gone_def)

lemma check_holders_result: "fst (check_holders bal b as d) = map (with_balance bal) (filter (\<lambda>a. \<not> gone bal a) as)"
  by (induction as arbitrary: d) (auto simp: gone_eq with_balance_def split_beta split: option.splits)

lemma check_holders_data:
  "getHolders (snd (snd (check_holders bal b as d))) c =
     (if c = b then filter (\<lambda>x. \<not> (x \<in> set as \<and> gone bal x)) (getHolders d b) else getHolders d c)"
proof (induction as arbitrary: d c)
  case (Cons a as)
  show ?case
  proof (cases "gone bal a")
    case True
    then show ?thesis
      by (auto simp: Cons.IH split_beta gone_eq intro!: filter_cong split: option.splits)
  next
    case False
    then show ?thesis
      by (auto simp: Cons.IH split_beta gone_eq intro!: filter_cong split: option.splits)
  qed
qed simp

lemma check_holders_unchanged: "\<not> fst (snd (check_holders bal b as d)) \<Longrightarrow> snd (snd (check_holders bal b as d)) = d"
  by (induction as arbitrary: d) (auto simp: split_beta split: option.splits if_splits)

lemma check_holders_other:
  "getKnownAddresses (snd (snd (check_holders bal b as d))) = getKnownAddresses d"
  "getLastReconciled (snd (snd (check_holders bal b as d))) c = getLastReconciled d c"
  by (induction as arbitrary: d) (auto simp: split_beta split: option.splits)

text \<open>The reconciliation loop.\<close>

lemma reconcile_candidate_simps [simp]:
  "getHolders (reconcile_candidate bal b d a) c =
     (if c \<noteq> b then getHolders d c
      else if gone bal a then filter (\<lambda>x. x \<noteq> a) (getHolders d b)
      else if bal a \<noteq> None \<and> a \<notin> set (getHolders d b) then getHolders d b @ [a] else getHolders d b)"
  "getKnownAddresses (reconcile_candidate bal b d a) = getKnownAddresses d"
  by (auto simp: reconcile_candidate_def gone_eq split: option.splits)

lemma reconcile_loop:
  "set (getHolders (foldl (reconcile_candidate bal b) d cs) b) =
     {a \<in> set (getHolders d b). \<not> (a \<in> set cs \<and> gone bal a)} \<union> {a \<in> set cs. bal a \<noteq> None \<and> \<not> gone bal a}"
  by (induction cs arbitrary: d) auto

lemma reconcile_loop_other:
  "c \<noteq> b \<Longrightarrow> getHolders (foldl (reconcile_candidate bal b) d cs) c = getHolders d c"
  "getKnownAddresses (foldl (reconcile_candidate bal b) d cs) = getKnownAddresses d"
  by (induction cs arbitrary: d) auto

lemma set_candidates [simp]: "set (candidates d b extra) = set (getHolders d b) \<union> set (getKnownAddresses d) \<union> set extra"
  by (auto simp: candidates_def)

section \<open>No holder is listed twice\<close>

definition lists_distinct :: "HolderStoreData \<Rightarrow> bool" where
  "lists_distinct d \<longleftrightarrow> (\<forall>b. distinct (getHolders d b))"

definition stored_as :: "stored_data \<Rightarrow> HolderStoreData" where
  "stored_as p = \<lparr>hd_holders = (case sd_holders p of None \<Rightarrow> [] | Some x \<Rightarrow> x),
     hd_knownAddresses = (case sd_knownAddresses p of None \<Rightarrow> [] | Some x \<Rightarrow> x),
     hd_lastReconciled = (case sd_lastReconciled p of None \<Rightarrow> [] | Some x \<Rightarrow> x)\<rparr>"

definition index_inv :: "HolderIndexService \<Rightarrow> bool" where
  "index_inv s \<longleftrightarrow> lists_distinct (hi_data s) \<and> (case hi_file s of None \<Rightarrow> True | Some p \<Rightarrow> lists_distinct (stored_as p))"

lemma no_data_distinct [simp]: "lists_distinct no_data"
  by (simp add: lists_distinct_def getHolders_def no_data_def)

lemma inv_load: "index_inv s \<Longrightarrow> index_inv (load_store s)"
  by (auto simp: index_inv_def load_store_def stored_as_def split: store_kind.splits option.splits)

lemma inv_ensureLoaded: "index_inv s \<Longrightarrow> index_inv (ensureLoaded s)"
  using inv_load [of s] by (auto simp: ensureLoaded_def index_inv_def)

lemma inv_save: "index_inv s \<Longrightarrow> index_inv (save ok s)"
  by (auto simp: index_inv_def save_def stored_as_def lists_distinct_def getHolders_def split: store_kind.splits)

lemma inv_data: "index_inv s \<Longrightarrow> lists_distinct d \<Longrightarrow> index_inv (s\<lparr>hi_data := d\<rparr>)"
  by (simp add: index_inv_def)

lemma distinct_ops:
  "lists_distinct d \<Longrightarrow> lists_distinct (addHolder b a d)"
  "lists_distinct d \<Longrightarrow> lists_distinct (removeHolder b a d)"
  "lists_distinct d \<Longrightarrow> lists_distinct (touch b t d)"
  "lists_distinct d \<Longrightarrow> lists_distinct (addKnownAddress a d)"
  "lists_distinct d \<Longrightarrow> lists_distinct (reconcile_candidate bal b d a)"
  "lists_distinct d \<Longrightarrow> lists_distinct (snd (snd (check_holders bal b as d)))"
  by (auto simp: lists_distinct_def check_holders_data)

lemma distinct_loop: "lists_distinct d \<Longrightarrow> lists_distinct (foldl (reconcile_candidate bal b) d cs)"
  by (induction cs arbitrary: d) (auto intro: distinct_ops)

lemma inv_getHoldersWithBalances: "index_inv s \<Longrightarrow> index_inv (snd (getHoldersWithBalances E b s))"
proof -
  assume "index_inv s"
  then have s: "index_inv (ensureLoaded s)" by (rule inv_ensureLoaded)
  then have "lists_distinct (hi_data (ensureLoaded s))" by (simp add: index_inv_def)
  with s show ?thesis
    by (auto simp: getHoldersWithBalances_def Let_def split_beta intro!: inv_save inv_data distinct_ops)
qed

lemma inv_reconcileBond: "index_inv s \<Longrightarrow> index_inv (snd (reconcileBond E b extra s))"
proof -
  assume "index_inv s"
  then have s: "index_inv (ensureLoaded s)" by (rule inv_ensureLoaded)
  then have "lists_distinct (hi_data (ensureLoaded s))" by (simp add: index_inv_def)
  with s show ?thesis
    by (auto simp: reconcileBond_def Let_def intro!: inv_getHoldersWithBalances inv_save inv_data distinct_ops distinct_loop)
qed

lemma inv_on_data:
  "index_inv s \<Longrightarrow> (\<And>d. lists_distinct d \<Longrightarrow> lists_distinct (f d)) \<Longrightarrow> index_inv (save ok (on_data f (ensureLoaded s)))"
  unfolding on_data_def by (rule inv_save, drule inv_ensureLoaded, rule inv_data) (auto simp: index_inv_def)

lemma inv_reindex: "index_inv s \<Longrightarrow> index_inv (snd (reindex_from E i n s))"
  by (induction n arbitrary: i s) (auto simp: split_beta inv_reconcileBond)

lemma inv_getHoldersForCoupon: "index_inv s \<Longrightarrow> index_inv (snd (getHoldersForCoupon E b o1 s))"
  by (auto simp: getHoldersForCoupon_def Let_def split_beta
      intro!: inv_getHoldersWithBalances inv_reconcileBond inv_ensureLoaded)

lemma inv_index_step: "index_inv s \<Longrightarrow> index_inv (index_step s c)"
proof (induction s c rule: index_step.induct)
  case (9 s E)
  then show ?case by (simp add: restart_def new_index_def index_inv_def)
qed (auto simp: recordSubscribe_def recordTransfer_def getAuthoritativeHolders_def reindexAll_def markReconciled_def Let_def
      intro!: inv_on_data inv_ensureLoaded inv_getHoldersWithBalances inv_reconcileBond inv_reindex inv_getHoldersForCoupon
        distinct_ops)

section \<open>The holders of a coupon\<close>

text \<open>The index that \<open>getHoldersForCoupon\<close> reads the holders from.\<close>

definition refreshed :: "call_env \<Rightarrow> nat \<Rightarrow> coupon_settings \<Rightarrow> HolderIndexService \<Rightarrow> HolderIndexService" where
  "refreshed E b o1 s = (if requires_fresh o1 \<and> is_stale o1 (ce_now E) (hi_data (ensureLoaded s)) b
     then snd (reconcileBond E b [] (ensureLoaded s)) else ensureLoaded s)"

lemma save_keeps [simp]: "hi_data (save ok s) = hi_data s" "hi_loaded (save ok s) = hi_loaded s" "hi_kind (save ok s) = hi_kind s"
  by (auto simp: save_def split: store_kind.splits)

lemma ensureLoaded_loaded [simp]: "hi_loaded s \<Longrightarrow> ensureLoaded s = s" "hi_loaded (ensureLoaded s)"
  by (auto simp: ensureLoaded_def)

lemma getHoldersWithBalances_loaded:
  assumes "hi_loaded s"
  shows "fst (getHoldersWithBalances E b s) =
      map (with_balance (ce_balance E b)) (filter (\<lambda>a. \<not> gone (ce_balance E b) a) (getHolders (hi_data s) b))"
    "hi_data (snd (getHoldersWithBalances E b s)) =
      snd (snd (check_holders (ce_balance E b) b (getHolders (hi_data s) b) (hi_data s)))"
    "hi_loaded (snd (getHoldersWithBalances E b s))"
  using assms by (auto simp: getHoldersWithBalances_def Let_def split_beta check_holders_result)

lemma reconcileBond_data:
  fixes E s b extra
  defines "d \<equiv> hi_data (ensureLoaded s)"
  shows "set (getHolders (hi_data (snd (reconcileBond E b extra s))) b) =
      {a \<in> set (candidates d b extra). \<not> gone (ce_balance E b) a \<and>
        (ce_balance E b a \<noteq> None \<or> a \<in> set (getHolders d b))}"
    "getKnownAddresses (hi_data (snd (reconcileBond E b extra s))) = getKnownAddresses d"
    "getLastReconciled (hi_data (snd (reconcileBond E b extra s))) b = ce_now E"
    "hi_loaded (snd (reconcileBond E b extra s))"
  by (auto simp: d_def reconcileBond_def Let_def getHoldersWithBalances_loaded check_holders_data
      reconcile_loop reconcile_loop_other check_holders_other)

lemma refreshed_loaded: "hi_loaded (refreshed E b o1 s)"
  by (simp add: refreshed_def reconcileBond_data)

lemma coupon_addresses:
  "fst (getHoldersForCoupon E b o1 s) =
     (if requires_fresh o1 \<and> getKnownAddresses (hi_data (refreshed E b o1 s)) = [] \<and>
         getHolders (hi_data (refreshed E b o1 s)) b = []
      then Inl ''Refusing coupon distribution''
      else Inr (filter (\<lambda>a. \<not> gone (ce_balance E b) a) (getHolders (hi_data (refreshed E b o1 s)) b)))"
proof -
  have "fst (getHoldersForCoupon E b o1 s) =
     (if requires_fresh o1 \<and> getKnownAddresses (hi_data (refreshed E b o1 s)) = [] \<and>
         getHolders (hi_data (refreshed E b o1 s)) b = []
      then Inl ''Refusing coupon distribution''
      else Inr (map hb_address (fst (getHoldersWithBalances E b (refreshed E b o1 s)))))"
    by (simp add: getHoldersForCoupon_def refreshed_def Let_def split_beta)
  then show ?thesis
    by (simp add: getHoldersWithBalances_loaded [OF refreshed_loaded] with_balance_def comp_def)
qed

lemma inv_run: "index_inv (foldl index_step (new_index kind None) cs)"
proof -
  have "index_inv (new_index kind None)" by (simp add: index_inv_def new_index_def)
  then show ?thesis by (induction cs rule: rev_induct) (simp_all add: inv_index_step)
qed

lemma inv_refreshed: "index_inv s \<Longrightarrow> lists_distinct (hi_data (refreshed E b o1 s))"
  using inv_reconcileBond [of "ensureLoaded s" E b "[]"] inv_ensureLoaded [of s]
  by (auto simp: refreshed_def index_inv_def)

text \<open>
  C9. The list a coupon is paid by is right when the contract answers. After any
  calls, restarts and lost writes, the returned list names no one twice and
  only addresses with a positive balance, and if the index was stale it
  names every address the index ever recorded that has a positive balance.
\<close>

theorem coupon_holders_exact:
  fixes E b o1 cs kind
  defines "s \<equiv> foldl index_step (new_index kind None) cs"
  assumes answers: "\<forall>a. ce_balance E b a \<noteq> None" and hs: "fst (getHoldersForCoupon E b o1 s) = Inr hs"
  shows "distinct hs \<and> set hs \<subseteq> {a. \<exists>x > 0. ce_balance E b a = Some x} \<and>
    (requires_fresh o1 \<and> is_stale o1 (ce_now E) (hi_data (ensureLoaded s)) b \<longrightarrow>
       set hs = {a \<in> set (getHolders (hi_data (ensureLoaded s)) b) \<union> set (getKnownAddresses (hi_data (ensureLoaded s))).
                   \<exists>x > 0. ce_balance E b a = Some x})"
proof -
  have eq: "hs = filter (\<lambda>a. \<not> gone (ce_balance E b) a) (getHolders (hi_data (refreshed E b o1 s)) b)"
    using hs by (simp add: coupon_addresses split: if_splits)
  have pos: "\<not> gone (ce_balance E b) a \<longleftrightarrow> (\<exists>x > 0. ce_balance E b a = Some x)" for a
    using answers by (auto simp: gone_def split: option.splits)
  have "distinct hs"
    using inv_refreshed [OF inv_run, of E b o1 kind cs] by (simp add: eq s_def lists_distinct_def)
  moreover have "set hs = {a \<in> set (getHolders (hi_data (ensureLoaded s)) b) \<union> set (getKnownAddresses (hi_data (ensureLoaded s))).
      \<exists>x > 0. ce_balance E b a = Some x}"
    if "requires_fresh o1 \<and> is_stale o1 (ce_now E) (hi_data (ensureLoaded s)) b"
    using that answers by (auto simp: eq pos refreshed_def reconcileBond_data)
  ultimately show ?thesis by (auto simp: eq pos)
qed

text \<open>
  C37. A stale index is never refused while the contract is unreachable. When no balance
  can be read, an index that is stale, but has seen an address, is marked as
  reconciled now, and the list it held before is what the coupon is paid by.
\<close>

theorem stale_index_passes:
  assumes "\<forall>a. ce_balance E b a = None" and "requires_fresh o1"
    and "is_stale o1 (ce_now E) (hi_data (ensureLoaded s)) b" and "getKnownAddresses (hi_data (ensureLoaded s)) \<noteq> []"
  shows "(case fst (getHoldersForCoupon E b o1 s) of Inl _ \<Rightarrow> False
      | Inr hs \<Rightarrow> set hs = set (getHolders (hi_data (ensureLoaded s)) b)) \<and>
    getLastReconciled (hi_data (snd (getHoldersForCoupon E b o1 s))) b = ce_now E"
proof -
  have none: "\<not> gone (ce_balance E b) a" for a using assms(1) by (simp add: gone_def)
  have "set (getHolders (hi_data (refreshed E b o1 s)) b) = set (getHolders (hi_data (ensureLoaded s)) b)"
    "getKnownAddresses (hi_data (refreshed E b o1 s)) \<noteq> []"
    using assms none by (auto simp: refreshed_def reconcileBond_data)
  moreover have "getLastReconciled (hi_data (refreshed E b o1 s)) b = ce_now E"
    using assms by (simp add: refreshed_def reconcileBond_data)
  moreover have "snd (getHoldersForCoupon E b o1 s) = snd (getHoldersWithBalances E b (refreshed E b o1 s))"
    using assms(2-4) calculation(2) by (simp add: getHoldersForCoupon_def refreshed_def Let_def split_beta)
  ultimately show ?thesis
    by (simp add: coupon_addresses none getHoldersWithBalances_loaded [OF refreshed_loaded] check_holders_other)
qed

section \<open>Restarts\<close>

definition in_sync :: "HolderIndexService \<Rightarrow> bool" where
  "in_sync s \<longleftrightarrow> hi_kind s = File_store \<and> (hi_loaded s \<longrightarrow> hi_data (load_store s) = hi_data s)"

lemma in_sync_save [simp]: "in_sync (save True s) \<longleftrightarrow> hi_kind s = File_store"
  by (auto simp: in_sync_def save_def load_store_def split: store_kind.splits)

lemma kind_ensureLoaded [simp]: "hi_kind (ensureLoaded s) = hi_kind s"
  by (simp add: ensureLoaded_def load_store_def split: store_kind.splits)

lemma in_sync_ensureLoaded: "in_sync s \<Longrightarrow> in_sync (ensureLoaded s)"
  by (auto simp: in_sync_def ensureLoaded_def load_store_def split: store_kind.splits option.splits)

lemma kind_getHoldersWithBalances [simp]: "hi_kind (snd (getHoldersWithBalances E b s)) = hi_kind s"
  by (simp add: getHoldersWithBalances_def Let_def split_beta)

lemma in_sync_getHoldersWithBalances:
  "ce_disk_ok E \<Longrightarrow> in_sync s \<Longrightarrow> in_sync (snd (getHoldersWithBalances E b s))"
proof -
  assume E: "ce_disk_ok E" and "in_sync s"
  then have s: "in_sync (ensureLoaded s)" by (simp add: in_sync_ensureLoaded)
  then show ?thesis
    using E check_holders_unchanged [of "ce_balance E b" b "getHolders (hi_data (ensureLoaded s)) b" "hi_data (ensureLoaded s)"]
    by (auto simp: getHoldersWithBalances_def Let_def split_beta) (simp add: in_sync_def)
qed

lemma in_sync_reconcileBond: "ce_disk_ok E \<Longrightarrow> in_sync s \<Longrightarrow> in_sync (snd (reconcileBond E b extra s))"
  by (auto simp: reconcileBond_def Let_def intro!: in_sync_getHoldersWithBalances) (simp add: in_sync_def)

lemma in_sync_reindex: "ce_disk_ok E \<Longrightarrow> in_sync s \<Longrightarrow> in_sync (snd (reindex_from E i n s))"
  by (induction n arbitrary: i s) (auto simp: split_beta in_sync_reconcileBond)

lemma in_sync_step: "in_sync s \<Longrightarrow> ce_disk_ok (fst c) \<Longrightarrow> in_sync (index_step s c)"
proof (induction s c rule: index_step.induct)
  case (9 s E)
  then show ?case by (simp add: restart_def new_index_def in_sync_def)
next
  case (7 s E b o1)
  then show ?case
    by (auto simp: getHoldersForCoupon_def Let_def split_beta
        intro!: in_sync_getHoldersWithBalances in_sync_reconcileBond in_sync_ensureLoaded)
qed (auto simp: recordSubscribe_def recordTransfer_def getAuthoritativeHolders_def reindexAll_def markReconciled_def
      on_data_def Let_def
      intro!: in_sync_ensureLoaded in_sync_getHoldersWithBalances in_sync_reconcileBond in_sync_reindex,
      auto simp: in_sync_def)

text \<open>
  C10. The index file holds all of the index. When every write succeeds, a restart at any
  point of any sequence of calls reads back the very index that was in memory.
\<close>

theorem restart_loses_nothing:
  fixes cs
  defines "s \<equiv> foldl index_step (new_index File_store None) cs"
  assumes "\<forall>c \<in> set cs. ce_disk_ok (fst c)"
  shows "hi_data (ensureLoaded (restart s)) = hi_data (ensureLoaded s)"
proof -
  have "in_sync (new_index File_store None)" by (simp add: in_sync_def new_index_def)
  with assms(2) have "in_sync s"
    unfolding s_def by (induction cs rule: rev_induct) (simp_all add: in_sync_step)
  then show ?thesis
    by (auto simp: in_sync_def restart_def new_index_def ensureLoaded_def load_store_def)
qed

section \<open>Examples\<close>

definition example_env :: call_env where
  "example_env = \<lparr>ce_now = 5000000, ce_balance = (\<lambda>b a. Some (if a = ''A'' then 7 else 0)), ce_disk_ok = True\<rparr>"

definition example_settings :: coupon_settings where
  "example_settings = \<lparr>cs_requireFresh = Some True, cs_maxStalenessMs = None, cs_strict = None, cs_staleness_variable = None\<rparr>"

definition example_calls :: "(call_env \<times> index_call) list" where
  "example_calls = [(example_env\<lparr>ce_now := 1000\<rparr>, Subscribe 1 ''A''), (example_env\<lparr>ce_now := 2000\<rparr>, Transfer 1 ''A'' ''B'')]"

theorem coupon_holders_exact_witness:
  "fst (getHoldersForCoupon example_env 1 example_settings (foldl index_step (new_index File_store None) example_calls)) = Inr [''A''] \<and>
   distinct [''A'']"
proof -
  have r: "fst (getHoldersForCoupon example_env 1 example_settings
      (foldl index_step (new_index File_store None) example_calls)) = Inr [''A'']" by code_simp
  moreover have "\<forall>a. ce_balance example_env 1 a \<noteq> None" by (simp add: example_env_def)
  ultimately show ?thesis using coupon_holders_exact by blast
qed

theorem stale_index_passes_witness:
  "getLastReconciled (hi_data (snd (getHoldersForCoupon (example_env\<lparr>ce_balance := \<lambda>b a. None\<rparr>) 1 example_settings
     (foldl index_step (new_index File_store None) example_calls)))) 1 = 5000000"
proof -
  let ?E = "example_env\<lparr>ce_balance := \<lambda>b a. None\<rparr>" and ?s = "foldl index_step (new_index File_store None) example_calls"
  have "\<forall>a. ce_balance ?E 1 a = None" by simp
  moreover have "requires_fresh example_settings" "is_stale example_settings (ce_now ?E) (hi_data (ensureLoaded ?s)) 1"
    "getKnownAddresses (hi_data (ensureLoaded ?s)) \<noteq> []" by code_simp+
  moreover have "ce_now ?E = 5000000" by (simp add: example_env_def)
  ultimately show ?thesis using stale_index_passes by metis
qed

theorem restart_loses_nothing_witness:
  "getHolders (hi_data (ensureLoaded (restart (foldl index_step (new_index File_store None) example_calls)))) 1 = [''A'', ''B'']"
proof -
  have "\<forall>c \<in> set example_calls. ce_disk_ok (fst c)" by code_simp
  then have "hi_data (ensureLoaded (restart (foldl index_step (new_index File_store None) example_calls))) =
      hi_data (ensureLoaded (foldl index_step (new_index File_store None) example_calls))"
    by (rule restart_loses_nothing)
  moreover have "getHolders (hi_data (ensureLoaded (foldl index_step (new_index File_store None) example_calls))) 1 = [''A'', ''B'']"
    by code_simp
  ultimately show ?thesis by simp
qed

end
