(* ===== verification/Compliance.thy ===== *)
theory Compliance
  imports Big_Int Iso_Date Time_Bounded
begin

text \<open>
  Who may buy a bond: the sanctions lists (\<open>api/src/compliance/services/sanctions.service.ts\<close>),
  the versioned rules (\<open>rules/default-ruleset.ts\<close>, \<open>services/compliance-rules.engine.ts\<close>), the
  signed attestations (\<open>services/compliance-attestation.service.ts\<close>) and the gate of a
  subscription (\<open>verifySubscriptionEligibility\<close> of \<open>api/src/bonds/bonds.service.ts\<close>). The
  Ed25519 keys, SHA-256 and the KYC store are parameters. Strings that are upper-cased are ASCII.
\<close>

section \<open>Data\<close>

datatype KycStatus = NONE | PENDING | VERIFIED | ACCREDITED | EXPIRED | REJECTED

datatype TrancheType = STANDARD | RESTRICTED_ACCREDITED | GREEN_INSTITUTIONAL

record JurisdictionRule =
  jr_jurisdiction :: string
  jr_name :: string
  jr_allowedTranches :: "TrancheType list"
  jr_minimumKycStatus :: KycStatus
  jr_requireAccreditationForRestricted :: bool
  jr_maxRetailOfferingCap :: "string option"
  jr_requiresSanctionsCheck :: bool
  jr_isSanctionedOrEmbargoed :: bool

record VersionedRuleset =
  vr_version :: string
  vr_effectiveDate :: string
  vr_auditHash :: string
  vr_jurisdictions :: "(string, JurisdictionRule) js_map"
  vr_defaultRule :: JurisdictionRule

record kyc_record =
  kr_status :: KycStatus
  kr_expiresAt :: "instant option"

record EligibilityEvaluationContext =
  ec_investorAddress :: string
  ec_jurisdiction :: string
  ec_tranche :: TrancheType
  ec_bondId :: int
  ec_purchaseAmount :: "string option"
  ec_kycRecord :: "kyc_record option"

record EvaluatedRuleResult =
  er_ruleName :: string
  er_passed :: bool
  er_reason :: "string option"

datatype decision_code = ELIGIBLE | ACCREDITATION_REQUIRED | SANCTIONED_ADDRESS | SANCTIONED_JURISDICTION
  | KYC_REQUIRED | KYC_EXPIRED | OFFERING_CAP_EXCEEDED | TRANCHE_NOT_PERMITTED

record EligibilityDecision =
  ed_eligible :: bool
  ed_code :: decision_code
  ed_reason :: "string option"
  ed_rulesetVersion :: string
  ed_jurisdiction :: string
  ed_tranche :: TrancheType
  ed_requiresAttestation :: bool
  ed_evaluatedRules :: "EvaluatedRuleResult list"

fun kyc_name :: "KycStatus \<Rightarrow> string" where
  "kyc_name NONE = ''none''"
| "kyc_name PENDING = ''pending''"
| "kyc_name VERIFIED = ''verified''"
| "kyc_name ACCREDITED = ''accredited''"
| "kyc_name EXPIRED = ''expired''"
| "kyc_name REJECTED = ''rejected''"

fun tranche_name :: "TrancheType \<Rightarrow> string" where
  "tranche_name STANDARD = ''STANDARD''"
| "tranche_name RESTRICTED_ACCREDITED = ''RESTRICTED_ACCREDITED''"
| "tranche_name GREEN_INSTITUTIONAL = ''GREEN_INSTITUTIONAL''"

definition upper_char :: "char \<Rightarrow> char" where
  "upper_char c = (let n = (of_char c :: nat) in if 97 \<le> n \<and> n \<le> 122 then char_of (n - 32) else c)"

definition toUpperCase :: "string \<Rightarrow> string" where
  "toUpperCase s = map upper_char s"

text \<open>\<open>Set.prototype.add\<close>.\<close>

definition set_add :: "'a \<Rightarrow> 'a list \<Rightarrow> 'a list" where
  "set_add x xs = (if x \<in> set xs then xs else xs @ [x])"

section \<open>Sanctions\<close>

record SanctionsService =
  ss_addresses :: "string list"
  ss_countries :: "string list"
  ss_lastRefreshedAt :: instant
  ss_maxStalenessHours :: rat
  ss_alertRaised :: bool

definition SEED_SANCTIONED_ADDRESSES :: "string list" where
  "SEED_SANCTIONED_ADDRESSES = [''GBANXSANCTIONEDADDRESS00000000000000000000000000000000000'',
     ''GSANCTIONEDWALLETOFAC0000000000000000000000000000000000000'']"

definition SEED_SANCTIONED_COUNTRIES :: "string list" where
  "SEED_SANCTIONED_COUNTRIES = [''KP'', ''IR'', ''CU'', ''SY'', ''RU-DNR'', ''RU-LNR'']"

text \<open>\<open>SANCTIONS_MAX_STALENESS_HOURS\<close> as \<open>Number\<close> reads it, when it is a finite number.\<close>

definition new_sanctions :: "instant \<Rightarrow> rat option \<Rightarrow> SanctionsService" where
  "new_sanctions now configuredHours =
     \<lparr>ss_addresses = SEED_SANCTIONED_ADDRESSES, ss_countries = SEED_SANCTIONED_COUNTRIES, ss_lastRefreshedAt = now,
      ss_maxStalenessHours = (case configuredHours of None \<Rightarrow> 24 | Some h \<Rightarrow> if h > 0 then h else 24),
      ss_alertRaised = False\<rparr>"

definition isStale :: "SanctionsService \<Rightarrow> instant \<Rightarrow> bool" where
  "isStale s now \<longleftrightarrow> of_int (now - ss_lastRefreshedAt s) / (1000 * 60 * 60) \<ge> ss_maxStalenessHours s"

definition checkAndAlertStaleness :: "SanctionsService \<Rightarrow> instant \<Rightarrow> bool \<times> SanctionsService" where
  "checkAndAlertStaleness s now =
     (let stale = isStale s now in
      (stale, if stale \<and> \<not> ss_alertRaised s then s\<lparr>ss_alertRaised := True\<rparr>
              else if \<not> stale then s\<lparr>ss_alertRaised := False\<rparr> else s))"

record sanctions_check =
  sk_sanctioned :: bool
  sk_list :: "string option"
  sk_reason :: "string option"

definition checkSanctions ::
  "SanctionsService \<Rightarrow> string \<Rightarrow> string option \<Rightarrow> instant \<Rightarrow> sanctions_check \<times> SanctionsService" where
  "checkSanctions s address country now =
     (let s' = snd (checkAndAlertStaleness s now) in
      (if address \<in> set (ss_addresses s')
       then \<lparr>sk_sanctioned = True, sk_list = Some ''OFAC_SDN_ADDRESS'',
             sk_reason = Some (''Wallet address '' @ address @ '' is listed on active sanctions lists.'')\<rparr>
       else (case country of
          Some c \<Rightarrow>
            if c \<noteq> [] \<and> toUpperCase c \<in> set (ss_countries s')
            then \<lparr>sk_sanctioned = True, sk_list = Some ''OFAC_COMPREHENSIVE_SANCTIONS'',
                  sk_reason = Some (''Jurisdiction '' @ toUpperCase c @
                    '' is subject to comprehensive international sanctions/embargo.'')\<rparr>
            else \<lparr>sk_sanctioned = False, sk_list = None, sk_reason = None\<rparr>
        | None \<Rightarrow> \<lparr>sk_sanctioned = False, sk_list = None, sk_reason = None\<rparr>), s'))"

definition isSanctioned :: "SanctionsService \<Rightarrow> string \<Rightarrow> bool" where
  "isSanctioned s address \<longleftrightarrow> address \<in> set (ss_addresses s)"

definition addSanctionedAddress :: "SanctionsService \<Rightarrow> string \<Rightarrow> SanctionsService" where
  "addSanctionedAddress s address = s\<lparr>ss_addresses := set_add address (ss_addresses s)\<rparr>"

record SanctionsStatus =
  st_isStale :: bool
  st_lastRefreshedAt :: string
  st_entryCount :: nat
  st_refreshCadence :: string
  st_maxStalenessHours :: rat
  st_alertRaised :: bool

definition sanctions_status :: "SanctionsService \<Rightarrow> instant \<Rightarrow> SanctionsStatus" where
  "sanctions_status s now =
     \<lparr>st_isStale = isStale s now, st_lastRefreshedAt = toISOString (ss_lastRefreshedAt s),
      st_entryCount = length (ss_addresses s) + length (ss_countries s), st_refreshCadence = ''0 0 * * *'',
      st_maxStalenessHours = ss_maxStalenessHours s, st_alertRaised = (ss_alertRaised s \<or> isStale s now)\<rparr>"

definition refreshSanctionsList ::
  "SanctionsService \<Rightarrow> string list option \<Rightarrow> string list option \<Rightarrow> instant option \<Rightarrow> instant \<Rightarrow>
   SanctionsStatus \<times> SanctionsService" where
  "refreshSanctionsList s additionalAddresses additionalCountries resetLastRefreshedAt now =
     (let s' = s\<lparr>ss_addresses := foldl (\<lambda>xs a. set_add a xs) (ss_addresses s)
                    (case additionalAddresses of None \<Rightarrow> [] | Some as \<Rightarrow> as),
                 ss_countries := foldl (\<lambda>xs c. set_add (toUpperCase c) xs) (ss_countries s)
                    (case additionalCountries of None \<Rightarrow> [] | Some cs \<Rightarrow> cs),
                 ss_lastRefreshedAt := (case resetLastRefreshedAt of None \<Rightarrow> now | Some t \<Rightarrow> t),
                 ss_alertRaised := False\<rparr>
      in (sanctions_status s' now, s'))"

definition simulateStaleness :: "SanctionsService \<Rightarrow> int \<Rightarrow> instant \<Rightarrow> SanctionsService" where
  "simulateStaleness s hoursAgo now =
     snd (checkAndAlertStaleness (s\<lparr>ss_lastRefreshedAt := now - hoursAgo * 3600 * 1000\<rparr>) now)"

section \<open>Rules\<close>

definition open_rule :: "string \<Rightarrow> string \<Rightarrow> TrancheType list \<Rightarrow> string \<Rightarrow> JurisdictionRule" where
  "open_rule j name tranches cap =
     \<lparr>jr_jurisdiction = j, jr_name = name, jr_allowedTranches = tranches, jr_minimumKycStatus = VERIFIED,
      jr_requireAccreditationForRestricted = True, jr_maxRetailOfferingCap = Some cap,
      jr_requiresSanctionsCheck = True, jr_isSanctionedOrEmbargoed = False\<rparr>"

definition embargoed_rule :: "string \<Rightarrow> string \<Rightarrow> JurisdictionRule" where
  "embargoed_rule j name =
     \<lparr>jr_jurisdiction = j, jr_name = name, jr_allowedTranches = [], jr_minimumKycStatus = ACCREDITED,
      jr_requireAccreditationForRestricted = True, jr_maxRetailOfferingCap = None,
      jr_requiresSanctionsCheck = True, jr_isSanctionedOrEmbargoed = True\<rparr>"

definition JURISDICTIONS :: "(string, JurisdictionRule) js_map" where
  "JURISDICTIONS =
    [(''US'', open_rule ''US'' ''United States (SEC Reg D / Reg S)'' [STANDARD, RESTRICTED_ACCREDITED] ''10000''),
     (''EU'', open_rule ''EU'' ''European Union (MiFID II / Prospectus Reg)''
        [STANDARD, RESTRICTED_ACCREDITED, GREEN_INSTITUTIONAL] ''25000''),
     (''SG'', open_rule ''SG'' ''Singapore (MAS SFA Regulated)'' [STANDARD, RESTRICTED_ACCREDITED] ''20000''),
     (''GB'', open_rule ''GB'' ''United Kingdom (FCA FSMA)''
        [STANDARD, RESTRICTED_ACCREDITED, GREEN_INSTITUTIONAL] ''25000''),
     (''KP'', embargoed_rule ''KP'' ''North Korea (OFAC Embargoed)''),
     (''IR'', embargoed_rule ''IR'' ''Iran (OFAC Embargoed)'')]"

definition DEFAULT_RULE :: JurisdictionRule where
  "DEFAULT_RULE = open_rule ''GLOBAL'' ''Standard International Jurisdiction Fallback''
     [STANDARD, RESTRICTED_ACCREDITED] ''10000''"

definition rule_json :: "JurisdictionRule \<Rightarrow> JsonValue" where
  "rule_json r = JObj ([(''jurisdiction'', JStr (jr_jurisdiction r)), (''name'', JStr (jr_name r)),
     (''allowedTranches'', JArr (map (JStr \<circ> tranche_name) (jr_allowedTranches r))),
     (''minimumKycStatus'', JStr (kyc_name (jr_minimumKycStatus r))),
     (''requireAccreditationForRestricted'', JBool (jr_requireAccreditationForRestricted r))] @
     (case jr_maxRetailOfferingCap r of None \<Rightarrow> [] | Some c \<Rightarrow> [(''maxRetailOfferingCap'', JStr c)]) @
     [(''requiresSanctionsCheck'', JBool (jr_requiresSanctionsCheck r)),
      (''isSanctionedOrEmbargoed'', JBool (jr_isSanctionedOrEmbargoed r))])"

text \<open>The jurisdictions of a ruleset enter the hash in the order of their codes.\<close>

definition computeRulesetAuditHash ::
  "(string \<Rightarrow> string) \<Rightarrow> string \<Rightarrow> string \<Rightarrow> (string, JurisdictionRule) js_map \<Rightarrow> JurisdictionRule \<Rightarrow> string" where
  "computeRulesetAuditHash sha version effectiveDate jurisdictions defaultRule =
     sha (json_stringify (JObj [(''version'', JStr version), (''effectiveDate'', JStr effectiveDate),
       (''jurisdictions'', JObj (canonical_entries (map (map_prod id rule_json) jurisdictions))),
       (''defaultRule'', rule_json defaultRule)]))"

definition CANONICAL_RULESET_V2026_1 :: "(string \<Rightarrow> string) \<Rightarrow> VersionedRuleset" where
  "CANONICAL_RULESET_V2026_1 sha =
     \<lparr>vr_version = ''2026.1'', vr_effectiveDate = ''2026-09-01T00:00:00.000Z'',
      vr_auditHash = computeRulesetAuditHash sha ''2026.1'' ''2026-09-01T00:00:00.000Z'' JURISDICTIONS DEFAULT_RULE,
      vr_jurisdictions = JURISDICTIONS, vr_defaultRule = DEFAULT_RULE\<rparr>"

record ComplianceRulesEngine =
  en_rulesets :: "(string, VersionedRuleset) js_map"
  en_activeVersion :: string
  en_sanctions :: SanctionsService

definition registerRuleset :: "VersionedRuleset \<Rightarrow> ComplianceRulesEngine \<Rightarrow> ComplianceRulesEngine" where
  "registerRuleset r e = e\<lparr>en_rulesets := js_set (vr_version r) r (en_rulesets e)\<rparr>"

definition new_engine :: "(string \<Rightarrow> string) \<Rightarrow> SanctionsService \<Rightarrow> ComplianceRulesEngine" where
  "new_engine sha sanctions =
     registerRuleset (CANONICAL_RULESET_V2026_1 sha)
       \<lparr>en_rulesets = [], en_activeVersion = vr_version (CANONICAL_RULESET_V2026_1 sha), en_sanctions = sanctions\<rparr>"

text \<open>\<open>None\<close> would be \<open>undefined\<close>, and using it a thrown \<open>TypeError\<close>.\<close>

definition getActiveRuleset :: "ComplianceRulesEngine \<Rightarrow> VersionedRuleset option" where
  "getActiveRuleset e = map_of (en_rulesets e) (en_activeVersion e)"

definition getRuleset :: "ComplianceRulesEngine \<Rightarrow> string option \<Rightarrow> VersionedRuleset option" where
  "getRuleset e version =
     (case version of
        None \<Rightarrow> getActiveRuleset e
      | Some v \<Rightarrow> if v \<noteq> [] \<and> map_of (en_rulesets e) v \<noteq> None then map_of (en_rulesets e) v else getActiveRuleset e)"

definition rule_in :: "VersionedRuleset \<Rightarrow> string \<Rightarrow> JurisdictionRule" where
  "rule_in r jurisdiction =
     (case map_of (vr_jurisdictions r) (toUpperCase jurisdiction) of None \<Rightarrow> vr_defaultRule r | Some x \<Rightarrow> x)"

definition getJurisdictionRule ::
  "ComplianceRulesEngine \<Rightarrow> string \<Rightarrow> string option \<Rightarrow> JurisdictionRule option" where
  "getJurisdictionRule e jurisdiction rulesetVersion =
     map_option (\<lambda>r. rule_in r jurisdiction) (getRuleset e rulesetVersion)"

section \<open>Eligibility\<close>

datatype compliance_error = TypeError | SyntaxError | RangeError | Forbidden string

definition passed :: "string \<Rightarrow> EvaluatedRuleResult" where
  "passed name = \<lparr>er_ruleName = name, er_passed = True, er_reason = None\<rparr>"

definition failed :: "string \<Rightarrow> string option \<Rightarrow> EvaluatedRuleResult" where
  "failed name reason = \<lparr>er_ruleName = name, er_passed = False, er_reason = reason\<rparr>"

definition refusal ::
  "decision_code \<Rightarrow> string option \<Rightarrow> VersionedRuleset \<Rightarrow> string \<Rightarrow> TrancheType \<Rightarrow> bool \<Rightarrow> EvaluatedRuleResult list \<Rightarrow>
   EligibilityDecision" where
  "refusal code reason r jurisdiction tranche requiresAttestation rules =
     \<lparr>ed_eligible = False, ed_code = code, ed_reason = reason, ed_rulesetVersion = vr_version r,
      ed_jurisdiction = jurisdiction, ed_tranche = tranche, ed_requiresAttestation = requiresAttestation,
      ed_evaluatedRules = rules\<rparr>"

text \<open>Step 6 of \<open>evaluateEligibility\<close>, the cap for retail investors, and the final decision.\<close>

definition cap_step ::
  "VersionedRuleset \<Rightarrow> JurisdictionRule \<Rightarrow> string \<Rightarrow> TrancheType \<Rightarrow> KycStatus \<Rightarrow> string option \<Rightarrow>
   EvaluatedRuleResult list \<Rightarrow> compliance_error + EligibilityDecision" where
  "cap_step r rule jurisdiction tranche kycStatus purchaseAmount rules =
     (let accept = (\<lambda>rules. \<lparr>ed_eligible = True, ed_code = ELIGIBLE, ed_reason = None, ed_rulesetVersion = vr_version r,
            ed_jurisdiction = jurisdiction, ed_tranche = tranche,
            ed_requiresAttestation = (tranche = RESTRICTED_ACCREDITED), ed_evaluatedRules = rules\<rparr>) in
      case (jr_maxRetailOfferingCap rule, purchaseAmount) of
        (Some c, Some a) \<Rightarrow>
          if kycStatus \<noteq> ACCREDITED \<and> c \<noteq> [] \<and> a \<noteq> []
          then (case (BigInt c, BigInt a) of
            (Some cap, Some amount) \<Rightarrow>
              if amount > cap
              then Inr (refusal OFFERING_CAP_EXCEEDED
                     (Some (''Investment amount '' @ int_str amount @ '' exceeds the non-accredited investor cap of '' @
                            int_str cap @ '' for '' @ jurisdiction @ ''.''))
                     r jurisdiction tranche False
                     (rules @ [failed ''RETAIL_OFFERING_CAP_CHECK'' (Some (''Purchase amount '' @ int_str amount @
                        '' exceeds jurisdiction retail cap '' @ int_str cap @ ''.''))]))
              else Inr (accept (rules @ [passed ''RETAIL_OFFERING_CAP_CHECK'']))
          | _ \<Rightarrow> Inl SyntaxError)
          else Inr (accept rules)
      | _ \<Rightarrow> Inr (accept rules))"

text \<open>Steps 4 to 6: the KYC record, accreditation, the cap.\<close>

definition kyc_steps ::
  "VersionedRuleset \<Rightarrow> JurisdictionRule \<Rightarrow> string \<Rightarrow> EligibilityEvaluationContext \<Rightarrow> instant \<Rightarrow>
   EvaluatedRuleResult list \<Rightarrow> compliance_error + EligibilityDecision" where
  "kyc_steps r rule jurisdiction c now rules =
     (let tranche = ec_tranche c;
          kycStatus = (case ec_kycRecord c of None \<Rightarrow> NONE | Some k \<Rightarrow> kr_status k);
          expiresAt = (case ec_kycRecord c of None \<Rightarrow> None | Some k \<Rightarrow> kr_expiresAt k)
      in if (case expiresAt of None \<Rightarrow> False | Some t \<Rightarrow> t \<noteq> 0 \<and> t < now)
         then Inr (refusal KYC_EXPIRED (Some ''KYC verification has expired; re-verification is required.'')
                r jurisdiction tranche False
                (rules @ [failed ''KYC_EXPIRATION_CHECK''
                            (Some ''KYC verification has expired; re-verification is required.'')]))
         else (let rules = rules @ [passed ''KYC_EXPIRATION_CHECK''] in
           if \<not> (kycStatus = VERIFIED \<or> kycStatus = ACCREDITED)
           then Inr (refusal KYC_REQUIRED
                  (Some (''KYC verification is required before investing in bond '' @ int_str (ec_bondId c) @ ''.''))
                  r jurisdiction tranche False
                  (rules @ [failed ''MINIMUM_KYC_STATUS_CHECK''
                     (Some (''Requires completed KYC verification (Current: '' @ kyc_name kycStatus @ '').''))]))
           else (let rules = rules @ [passed ''MINIMUM_KYC_STATUS_CHECK''] in
             if tranche = RESTRICTED_ACCREDITED \<and> jr_requireAccreditationForRestricted rule
             then (if kycStatus \<noteq> ACCREDITED
               then Inr (refusal ACCREDITATION_REQUIRED
                      (Some (''Investor does not have accredited status required for restricted tranche '' @
                             tranche_name tranche @ '' in '' @ jurisdiction @ ''.''))
                      r jurisdiction tranche True
                      (rules @ [failed ''ACCREDITED_INVESTOR_REQUIREMENT''
                         (Some (''Tranche '' @ tranche_name tranche @ '' in jurisdiction '' @ jurisdiction @
                                '' requires accredited investor status.''))]))
               else cap_step r rule jurisdiction tranche kycStatus (ec_purchaseAmount c)
                      (rules @ [passed ''ACCREDITED_INVESTOR_REQUIREMENT'']))
             else cap_step r rule jurisdiction tranche kycStatus (ec_purchaseAmount c) rules)))"

definition evaluateEligibility ::
  "ComplianceRulesEngine \<Rightarrow> EligibilityEvaluationContext \<Rightarrow> instant \<Rightarrow>
   (compliance_error + EligibilityDecision) \<times> ComplianceRulesEngine" where
  "evaluateEligibility e c now =
     (case getActiveRuleset e of
        None \<Rightarrow> (Inl TypeError, e)
      | Some r \<Rightarrow>
          (let jurisdiction = toUpperCase (if ec_jurisdiction c = [] then ''GLOBAL'' else ec_jurisdiction c);
               tranche = ec_tranche c in
           case getJurisdictionRule e jurisdiction (Some (vr_version r)) of
             None \<Rightarrow> (Inl TypeError, e)
           | Some rule \<Rightarrow>
          (case checkSanctions (en_sanctions e) (ec_investorAddress c) (Some jurisdiction) now of
             (check, sanctions) \<Rightarrow>
          (let e' = e\<lparr>en_sanctions := sanctions\<rparr> in
           (if sk_sanctioned check
            then Inr (refusal (if sk_list check = Some ''OFAC_COMPREHENSIVE_SANCTIONS'' then SANCTIONED_JURISDICTION
                               else SANCTIONED_ADDRESS)
                   (sk_reason check) r jurisdiction tranche False [failed ''SANCTIONS_SCREENING'' (sk_reason check)])
            else (let rules = [passed ''SANCTIONS_SCREENING''] in
              if jr_isSanctionedOrEmbargoed rule
              then Inr (refusal SANCTIONED_JURISDICTION
                     (Some (''Jurisdiction '' @ jurisdiction @ '' is blocked under international sanctions.''))
                     r jurisdiction tranche False
                     (rules @ [failed ''EMBARGOED_JURISDICTION_CHECK''
                        (Some (''Jurisdiction '' @ jurisdiction @ '' is blocked from all offerings.''))]))
              else (let rules = rules @ [passed ''EMBARGOED_JURISDICTION_CHECK''] in
                if tranche \<notin> set (jr_allowedTranches rule)
                then Inr (refusal TRANCHE_NOT_PERMITTED
                       (Some (''Tranche '' @ tranche_name tranche @ '' cannot be offered to investors in '' @ jurisdiction @ ''.''))
                       r jurisdiction tranche False
                       (rules @ [failed ''TRANCHE_ALLOWED_FOR_JURISDICTION''
                          (Some (''Tranche '' @ tranche_name tranche @ '' is not permitted for offering in jurisdiction '' @
                                 jurisdiction @ ''.''))]))
                else kyc_steps r rule jurisdiction c now (rules @ [passed ''TRANCHE_ALLOWED_FOR_JURISDICTION'']))),
            e')))))"

text \<open>A partial rule; the cap can be set to \<open>undefined\<close>.\<close>

record rule_update =
  ru_name :: "string option"
  ru_allowedTranches :: "TrancheType list option"
  ru_minimumKycStatus :: "KycStatus option"
  ru_requireAccreditationForRestricted :: "bool option"
  ru_maxRetailOfferingCap :: "string option option"
  ru_requiresSanctionsCheck :: "bool option"
  ru_isSanctionedOrEmbargoed :: "bool option"

definition updated :: "'a option \<Rightarrow> 'a \<Rightarrow> 'a" where
  "updated u x = (case u of None \<Rightarrow> x | Some y \<Rightarrow> y)"

definition apply_update :: "rule_update \<Rightarrow> string \<Rightarrow> JurisdictionRule \<Rightarrow> JurisdictionRule" where
  "apply_update u j r =
     \<lparr>jr_jurisdiction = j, jr_name = updated (ru_name u) (jr_name r),
      jr_allowedTranches = updated (ru_allowedTranches u) (jr_allowedTranches r),
      jr_minimumKycStatus = updated (ru_minimumKycStatus u) (jr_minimumKycStatus r),
      jr_requireAccreditationForRestricted =
        updated (ru_requireAccreditationForRestricted u) (jr_requireAccreditationForRestricted r),
      jr_maxRetailOfferingCap = updated (ru_maxRetailOfferingCap u) (jr_maxRetailOfferingCap r),
      jr_requiresSanctionsCheck = updated (ru_requiresSanctionsCheck u) (jr_requiresSanctionsCheck r),
      jr_isSanctionedOrEmbargoed = updated (ru_isSanctionedOrEmbargoed u) (jr_isSanctionedOrEmbargoed r)\<rparr>"

definition updateJurisdictionRule ::
  "(string \<Rightarrow> string) \<Rightarrow> ComplianceRulesEngine \<Rightarrow> string \<Rightarrow> rule_update \<Rightarrow> instant \<Rightarrow>
   (compliance_error + VersionedRuleset) \<times> ComplianceRulesEngine" where
  "updateJurisdictionRule sha e jurisdiction u now =
     (case getActiveRuleset e of
        None \<Rightarrow> (Inl TypeError, e)
      | Some r \<Rightarrow>
          (let upper = toUpperCase jurisdiction in
           case getJurisdictionRule e upper (Some (vr_version r)) of
             None \<Rightarrow> (Inl TypeError, e)
           | Some currentRule \<Rightarrow>
               (let js = js_set upper (apply_update u upper currentRule) (vr_jurisdictions r);
                    version = vr_version r @ ''.upd'';
                    r' = \<lparr>vr_version = version, vr_effectiveDate = toISOString now,
                          vr_auditHash = computeRulesetAuditHash sha version (toISOString now) js (vr_defaultRule r),
                          vr_jurisdictions = js, vr_defaultRule = vr_defaultRule r\<rparr>
                in (Inr r', (registerRuleset r' e)\<lparr>en_activeVersion := version\<rparr>))))"

record TransferEligibilityContext =
  tc_fromAddress :: string
  tc_toAddress :: string
  tc_fromJurisdiction :: string
  tc_toJurisdiction :: string
  tc_bondId :: int
  tc_tranche :: TrancheType
  tc_amount :: string
  tc_toKycRecord :: "kyc_record option"

definition reason_text :: "string option \<Rightarrow> string" where
  "reason_text r = (case r of None \<Rightarrow> ''undefined'' | Some s \<Rightarrow> s)"

definition evaluateTransferEligibility ::
  "ComplianceRulesEngine \<Rightarrow> TransferEligibilityContext \<Rightarrow> instant \<Rightarrow>
   (compliance_error + EligibilityDecision) \<times> ComplianceRulesEngine" where
  "evaluateTransferEligibility e c now =
     (case evaluateEligibility e \<lparr>ec_investorAddress = tc_toAddress c, ec_jurisdiction = tc_toJurisdiction c,
             ec_tranche = tc_tranche c, ec_bondId = tc_bondId c, ec_purchaseAmount = Some (tc_amount c),
             ec_kycRecord = tc_toKycRecord c\<rparr> now of
        (Inl err, e') \<Rightarrow> (Inl err, e')
      | (Inr d, e') \<Rightarrow>
          if \<not> ed_eligible d
          then (Inr (d\<lparr>ed_reason := Some (''Secondary transfer recipient non-compliant: '' @ reason_text (ed_reason d))\<rparr>), e')
          else (case checkSanctions (en_sanctions e') (tc_fromAddress c) (Some (tc_fromJurisdiction c)) now of
            (check, sanctions) \<Rightarrow>
              (if sk_sanctioned check
               then Inr \<lparr>ed_eligible = False, ed_code = SANCTIONED_ADDRESS,
                         ed_reason = Some (''Secondary transfer sender is sanctioned: '' @ reason_text (sk_reason check)),
                         ed_rulesetVersion = en_activeVersion e', ed_jurisdiction = tc_fromJurisdiction c,
                         ed_tranche = tc_tranche c, ed_requiresAttestation = False,
                         ed_evaluatedRules = [failed ''SENDER_SANCTIONS_CHECK'' (sk_reason check)]\<rparr>
               else Inr d, e'\<lparr>en_sanctions := sanctions\<rparr>)))"

datatype PostRuleChangeComplianceStatus = COMPLIANT | NON_COMPLIANT_GRACE_PERIOD | NON_COMPLIANT_EXPIRED

record PostRuleChangeComplianceCheck =
  pc_status :: PostRuleChangeComplianceStatus
  pc_gracePeriodExpiresAt :: "instant option"
  pc_forcedSaleWindowDays :: "int option"
  pc_actionRequired :: "string option"
  pc_violations :: "EvaluatedRuleResult list"

text \<open>The holder, bond, tranche, amount and jurisdiction are those of the context.\<close>

definition evaluatePostRuleChangeCompliance ::
  "ComplianceRulesEngine \<Rightarrow> EligibilityEvaluationContext \<Rightarrow> instant \<Rightarrow> instant option \<Rightarrow> int option \<Rightarrow> instant \<Rightarrow>
   (compliance_error + PostRuleChangeComplianceCheck) \<times> ComplianceRulesEngine" where
  "evaluatePostRuleChangeCompliance e c holdingAcquired ruleChanged gracePeriodDays now =
     (case evaluateEligibility e c now of
        (Inl err, e') \<Rightarrow> (Inl err, e')
      | (Inr d, e') \<Rightarrow>
          if ed_eligible d
          then (Inr \<lparr>pc_status = COMPLIANT, pc_gracePeriodExpiresAt = None, pc_forcedSaleWindowDays = None,
                     pc_actionRequired = None, pc_violations = []\<rparr>, e')
          else (let graceDays = (case gracePeriodDays of None \<Rightarrow> 30 | Some g \<Rightarrow> g);
                    baseTime = (case ruleChanged of None \<Rightarrow> holdingAcquired | Some t \<Rightarrow> t);
                    expires = baseTime + graceDays * 86400 * 1000;
                    violations = filter (\<lambda>r. \<not> er_passed r) (ed_evaluatedRules d)
                in if now < expires
                   then (case time_clip (of_int expires) of
                       None \<Rightarrow> (Inl RangeError, e')
                     | Some t \<Rightarrow>
                      (Inr \<lparr>pc_status = NON_COMPLIANT_GRACE_PERIOD, pc_gracePeriodExpiresAt = Some expires,
                             pc_forcedSaleWindowDays = Some graceDays,
                             pc_actionRequired = Some (''Holder must sell/divest position or update compliance status before grace period expires at '' @
                               toISOString t),
                             pc_violations = violations\<rparr>, e'))
                   else (Inr \<lparr>pc_status = NON_COMPLIANT_EXPIRED, pc_gracePeriodExpiresAt = Some expires,
                              pc_forcedSaleWindowDays = Some graceDays,
                              pc_actionRequired = Some ''Grace period expired. Position frozen for secondary accumulation; forced liquidation or governance resolution required.'',
                              pc_violations = violations\<rparr>, e')))"

section \<open>Attestations\<close>

record EligibilityAttestationPayload =
  ap_investorAddress :: string
  ap_bondId :: int
  ap_tranche :: TrancheType
  ap_jurisdiction :: string
  ap_kycStatus :: KycStatus
  ap_rulesetVersion :: string
  ap_issuedAt :: int
  ap_expiresAt :: int
  ap_nonce :: string

record SignedEligibilityAttestation =
  sg_payload :: "EligibilityAttestationPayload option"
  sg_signature :: string
  sg_signerPublicKey :: string

text \<open>
  The compliance key pair and \<open>Keypair.fromPublicKey(k).verify\<close>, which throws (\<open>Inl\<close>) for a
  malformed key. Signatures are in hexadecimal.
\<close>

record signing_keys =
  key_public :: string
  key_sign :: "string \<Rightarrow> string"
  key_verify :: "string \<Rightarrow> string \<Rightarrow> string \<Rightarrow> string + bool"

definition attestationTtlSeconds :: int where
  "attestationTtlSeconds = 3600"

definition serializePayload :: "EligibilityAttestationPayload \<Rightarrow> string" where
  "serializePayload p = json_stringify (JObj [(''bondId'', JNum (ap_bondId p)), (''expiresAt'', JNum (ap_expiresAt p)),
     (''investorAddress'', JStr (ap_investorAddress p)), (''issuedAt'', JNum (ap_issuedAt p)),
     (''jurisdiction'', JStr (ap_jurisdiction p)), (''kycStatus'', JStr (kyc_name (ap_kycStatus p))),
     (''nonce'', JStr (ap_nonce p)), (''rulesetVersion'', JStr (ap_rulesetVersion p)),
     (''tranche'', JStr (tranche_name (ap_tranche p)))])"

record attestation_request =
  ar_investorAddress :: string
  ar_bondId :: int
  ar_tranche :: "TrancheType option"
  ar_jurisdiction :: "string option"
  ar_purchaseAmount :: "string option"

definition or_default :: "string \<Rightarrow> string option \<Rightarrow> string" where
  "or_default d s = (case s of None \<Rightarrow> d | Some x \<Rightarrow> if x = [] then d else x)"

definition issueAttestation ::
  "signing_keys \<Rightarrow> (string \<Rightarrow> kyc_record option) \<Rightarrow> ComplianceRulesEngine \<Rightarrow> attestation_request \<Rightarrow> instant \<Rightarrow> string \<Rightarrow>
   (compliance_error + SignedEligibilityAttestation) \<times> ComplianceRulesEngine" where
  "issueAttestation K kycStore e i now nonce =
     (let tranche = (case ar_tranche i of None \<Rightarrow> STANDARD | Some t \<Rightarrow> t);
          jurisdiction = toUpperCase (or_default ''US'' (ar_jurisdiction i)) in
      case kycStore (ar_investorAddress i) of
        None \<Rightarrow> (Inl (Forbidden (''No KYC record found for address: '' @ ar_investorAddress i)), e)
      | Some k \<Rightarrow>
          (case evaluateEligibility e \<lparr>ec_investorAddress = ar_investorAddress i, ec_jurisdiction = jurisdiction,
                  ec_tranche = tranche, ec_bondId = ar_bondId i, ec_purchaseAmount = ar_purchaseAmount i,
                  ec_kycRecord = Some k\<rparr> now of
             (Inl err, e') \<Rightarrow> (Inl err, e')
           | (Inr d, e') \<Rightarrow>
               if \<not> ed_eligible d
               then (Inl (Forbidden (''Investor eligibility evaluation failed: '' @ reason_text (ed_reason d))), e')
               else (let t = now div 1000;
                         p = \<lparr>ap_investorAddress = ar_investorAddress i, ap_bondId = ar_bondId i, ap_tranche = tranche,
                              ap_jurisdiction = jurisdiction, ap_kycStatus = kr_status k,
                              ap_rulesetVersion = ed_rulesetVersion d, ap_issuedAt = t,
                              ap_expiresAt = t + attestationTtlSeconds, ap_nonce = nonce\<rparr>
                     in (Inr \<lparr>sg_payload = Some p, sg_signature = key_sign K (serializePayload p),
                              sg_signerPublicKey = key_public K\<rparr>, e'))))"

datatype AttestationVerificationResult = Valid EligibilityAttestationPayload | Invalid string

text \<open>An error is the \<open>RangeError\<close> of printing an expiry that is no date.\<close>

definition verifyAttestation ::
  "signing_keys \<Rightarrow> SignedEligibilityAttestation \<Rightarrow> string \<Rightarrow> int \<Rightarrow> TrancheType option \<Rightarrow> instant \<Rightarrow>
   compliance_error + AttestationVerificationResult" where
  "verifyAttestation K a expectedInvestor expectedBondId expectedTranche now =
     (case sg_payload a of
        None \<Rightarrow> Inr (Invalid ''Attestation payload or signature is missing'')
      | Some p \<Rightarrow>
          if sg_signature a = [] then Inr (Invalid ''Attestation payload or signature is missing'')
          else if ap_investorAddress p \<noteq> expectedInvestor
          then Inr (Invalid (''Attestation investor '' @ ap_investorAddress p @ '' does not match expected investor '' @ expectedInvestor))
          else if ap_bondId p \<noteq> expectedBondId
          then Inr (Invalid (''Attestation bondId '' @ int_str (ap_bondId p) @ '' does not match expected bondId '' @ int_str expectedBondId))
          else if (case expectedTranche of None \<Rightarrow> False | Some t \<Rightarrow> ap_tranche p \<noteq> t)
          then Inr (Invalid ''Attestation tranche does not match requested tranche'')
          else if now div 1000 \<ge> ap_expiresAt p
          then (case time_clip (of_int (ap_expiresAt p * 1000)) of
              None \<Rightarrow> Inl RangeError
            | Some t \<Rightarrow> Inr (Invalid (''Attestation expired at '' @ toISOString t)))
          else (case key_verify K (if sg_signerPublicKey a = [] then key_public K else sg_signerPublicKey a)
                       (serializePayload p) (sg_signature a) of
              Inl err \<Rightarrow> Inr (Invalid (''Signature verification error: '' @ err))
            | Inr ok \<Rightarrow> if ok then Inr (Valid p) else Inr (Invalid ''Cryptographic signature verification failed'')))"

section \<open>The gate of a subscription\<close>

record SubscribeDto =
  sd_amount :: int
  sd_investorAddress :: string
  sd_tranche :: "TrancheType option"
  sd_jurisdiction :: "string option"
  sd_attestation :: "SignedEligibilityAttestation option"

text \<open>The services are optional; \<open>K\<close> stands for the attestation service.\<close>

definition attestation_gate ::
  "signing_keys option \<Rightarrow> int \<Rightarrow> SubscribeDto \<Rightarrow> instant \<Rightarrow> compliance_error + unit" where
  "attestation_gate K bondId dto now =
     (let check = (\<lambda>a. case K of
            None \<Rightarrow> Inr ()
          | Some K \<Rightarrow> (case verifyAttestation K a (sd_investorAddress dto) bondId (sd_tranche dto) now of
              Inl err \<Rightarrow> Inl err
            | Inr (Valid _) \<Rightarrow> Inr ()
            | Inr (Invalid reason) \<Rightarrow> Inl (Forbidden (''Eligibility attestation verification failed: '' @ reason)))) in
      if sd_tranche dto = Some RESTRICTED_ACCREDITED
      then (case sd_attestation dto of
          None \<Rightarrow> Inl (Forbidden ''Restricted tranche requires a signed eligibility attestation issued after KYC completion'')
        | Some a \<Rightarrow> check a)
      else (case sd_attestation dto of None \<Rightarrow> Inr () | Some a \<Rightarrow> check a))"

definition subscription_context :: "int \<Rightarrow> SubscribeDto \<Rightarrow> EligibilityEvaluationContext" where
  "subscription_context bondId dto =
     (let payload = (case sd_attestation dto of None \<Rightarrow> None | Some a \<Rightarrow> sg_payload a) in
      \<lparr>ec_investorAddress = sd_investorAddress dto,
       ec_jurisdiction = or_default (or_default ''GLOBAL'' (map_option ap_jurisdiction payload)) (sd_jurisdiction dto),
       ec_tranche = (case sd_tranche dto of None \<Rightarrow> STANDARD | Some t \<Rightarrow> t), ec_bondId = bondId,
       ec_purchaseAmount = Some (int_str (sd_amount dto)),
       ec_kycRecord = map_option (\<lambda>p. \<lparr>kr_status = ap_kycStatus p, kr_expiresAt = None\<rparr>) payload\<rparr>)"

definition verifySubscriptionEligibility ::
  "signing_keys option \<Rightarrow> ComplianceRulesEngine option \<Rightarrow> int \<Rightarrow> SubscribeDto \<Rightarrow> instant \<Rightarrow>
   (compliance_error + unit) \<times> ComplianceRulesEngine option" where
  "verifySubscriptionEligibility K eng bondId dto now =
     (if (case eng of None \<Rightarrow> False | Some e \<Rightarrow> isSanctioned (en_sanctions e) (sd_investorAddress dto))
      then (Inl (Forbidden (''Investor address '' @ sd_investorAddress dto @ '' is blocked under active sanctions screening'')), eng)
      else (case attestation_gate K bondId dto now of
        Inl err \<Rightarrow> (Inl err, eng)
      | Inr _ \<Rightarrow>
          (case eng of
             None \<Rightarrow> (Inr (), eng)
           | Some e \<Rightarrow>
               if or_default [] (sd_jurisdiction dto) = [] \<and> sd_attestation dto = None then (Inr (), eng)
               else (case evaluateEligibility e (subscription_context bondId dto) now of
                   (Inl err, e') \<Rightarrow> (Inl err, Some e')
                 | (Inr d, e') \<Rightarrow>
                     if ed_eligible d then (Inr (), Some e')
                     else (Inl (Forbidden (''Investor eligibility check failed: '' @ reason_text (ed_reason d))), Some e')))))"

section \<open>The rules engine\<close>

definition engine_ok :: "ComplianceRulesEngine \<Rightarrow> bool" where
  "engine_ok e \<longleftrightarrow> (case getActiveRuleset e of None \<Rightarrow> False | Some r \<Rightarrow> vr_version r = en_activeVersion e)"

lemma new_engine_ok: "engine_ok (new_engine sha s)"
  by (simp add: engine_ok_def getActiveRuleset_def new_engine_def registerRuleset_def CANONICAL_RULESET_V2026_1_def)

lemma active_rule:
  "getActiveRuleset e = Some r \<Longrightarrow> engine_ok e \<Longrightarrow> getJurisdictionRule e j (Some (vr_version r)) = Some (rule_in r j)"
  by (auto simp: engine_ok_def getJurisdictionRule_def getRuleset_def getActiveRuleset_def)

lemma upper_char_idem: "upper_char (upper_char c) = upper_char c"
proof -
  have "(of_char c - 32) mod 256 = (of_char c :: nat) - 32"
    using nat_of_char_less_256 [of c] by (intro mod_less) linarith
  then show ?thesis by (auto simp: upper_char_def Let_def)
qed

lemma toUpperCase_idem [simp]: "toUpperCase (toUpperCase s) = toUpperCase s"
  by (simp add: toUpperCase_def upper_char_idem)

lemma rule_in_upper [simp]: "rule_in r (toUpperCase j) = rule_in r j"
  by (simp add: rule_in_def)

lemma checkSanctions_result:
  "sk_sanctioned (fst (checkSanctions s a c now)) \<longleftrightarrow> a \<in> set (ss_addresses s) \<or>
     (case c of None \<Rightarrow> False | Some c \<Rightarrow> c \<noteq> [] \<and> toUpperCase c \<in> set (ss_countries s))"
  by (auto simp: checkSanctions_def checkAndAlertStaleness_def Let_def split: option.splits)

text \<open>Who may invest, as the documentation of the rules has it.\<close>

definition context_jurisdiction :: "EligibilityEvaluationContext \<Rightarrow> string" where
  "context_jurisdiction c = toUpperCase (if ec_jurisdiction c = [] then ''GLOBAL'' else ec_jurisdiction c)"

definition context_status :: "EligibilityEvaluationContext \<Rightarrow> KycStatus" where
  "context_status c = (case ec_kycRecord c of None \<Rightarrow> NONE | Some k \<Rightarrow> kr_status k)"

definition within_cap :: "JurisdictionRule \<Rightarrow> EligibilityEvaluationContext \<Rightarrow> bool" where
  "within_cap rule c =
     (case (or_default [] (jr_maxRetailOfferingCap rule), or_default [] (ec_purchaseAmount c)) of
        (cap, amount) \<Rightarrow> cap = [] \<or> amount = [] \<or>
          (case (BigInt cap, BigInt amount) of (Some m, Some n) \<Rightarrow> n \<le> m | _ \<Rightarrow> False))"

definition may_invest :: "SanctionsService \<Rightarrow> VersionedRuleset \<Rightarrow> EligibilityEvaluationContext \<Rightarrow> instant \<Rightarrow> bool" where
  "may_invest s r c now \<longleftrightarrow>
     (let j = context_jurisdiction c; rule = rule_in r j; k = context_status c in
      ec_investorAddress c \<notin> set (ss_addresses s) \<and> j \<notin> set (ss_countries s) \<and> \<not> jr_isSanctionedOrEmbargoed rule \<and>
      ec_tranche c \<in> set (jr_allowedTranches rule) \<and>
      (case ec_kycRecord c of None \<Rightarrow> True
       | Some kyc \<Rightarrow> (case kr_expiresAt kyc of None \<Rightarrow> True | Some t \<Rightarrow> t = 0 \<or> now \<le> t)) \<and>
      k \<in> {VERIFIED, ACCREDITED} \<and>
      (ec_tranche c = RESTRICTED_ACCREDITED \<and> jr_requireAccreditationForRestricted rule \<longrightarrow> k = ACCREDITED) \<and>
      (k = ACCREDITED \<or> within_cap rule c))"

lemma context_jurisdiction_nonempty: "context_jurisdiction c \<noteq> []"
  by (simp add: context_jurisdiction_def toUpperCase_def)

definition accepted :: "compliance_error + EligibilityDecision \<Rightarrow> bool" where
  "accepted d = (case d of Inl _ \<Rightarrow> False | Inr d \<Rightarrow> ed_eligible d)"

lemma cap_step_accepted:
  "accepted (cap_step r rule j t k (ec_purchaseAmount c) rules) \<longleftrightarrow> k = ACCREDITED \<or> within_cap rule c"
  by (auto simp: accepted_def cap_step_def within_cap_def or_default_def refusal_def Let_def split: option.splits)

lemma kyc_steps_accepted:
  "accepted (kyc_steps r rule j c now rules) \<longleftrightarrow>
     (case ec_kycRecord c of None \<Rightarrow> True
       | Some kyc \<Rightarrow> (case kr_expiresAt kyc of None \<Rightarrow> True | Some t \<Rightarrow> t = 0 \<or> now \<le> t)) \<and>
     context_status c \<in> {VERIFIED, ACCREDITED} \<and>
     (ec_tranche c = RESTRICTED_ACCREDITED \<and> jr_requireAccreditationForRestricted rule \<longrightarrow> context_status c = ACCREDITED) \<and>
     (context_status c = ACCREDITED \<or> within_cap rule c)"
proof -
  have refused: "\<not> accepted (Inr (refusal code reason r j t a rules))" for code reason t a rules
    by (simp add: accepted_def refusal_def)
  have "(case expiresAt of None \<Rightarrow> False | Some t \<Rightarrow> t \<noteq> 0 \<and> t < now) \<longleftrightarrow>
      \<not> (case expiresAt of None \<Rightarrow> True | Some t \<Rightarrow> t = 0 \<or> now \<le> t)" for expiresAt
    by (auto split: option.splits)
  then show ?thesis
    by (cases "ec_kycRecord c")
       (simp_all add: kyc_steps_def Let_def refused cap_step_accepted context_status_def)
qed

lemma evaluateEligibility_eq:
  fixes e r c now
  assumes "engine_ok e" "getActiveRuleset e = Some r"
  defines "j \<equiv> context_jurisdiction c"
  shows "accepted (fst (evaluateEligibility e c now)) \<longleftrightarrow>
    \<not> sk_sanctioned (fst (checkSanctions (en_sanctions e) (ec_investorAddress c) (Some j) now)) \<and>
    \<not> jr_isSanctionedOrEmbargoed (rule_in r j) \<and> ec_tranche c \<in> set (jr_allowedTranches (rule_in r j)) \<and>
    accepted (kyc_steps r (rule_in r j) j c now [passed ''SANCTIONS_SCREENING'', passed ''EMBARGOED_JURISDICTION_CHECK'',
      passed ''TRANCHE_ALLOWED_FOR_JURISDICTION''])"
proof -
  have refused: "\<not> accepted (Inr (refusal code reason r j t a rules))" for code reason t a rules
    by (simp add: accepted_def refusal_def)
  have "getJurisdictionRule e j (Some (vr_version r)) = Some (rule_in r j)" using assms by (simp add: active_rule)
  then show ?thesis
    using assms(2) unfolding evaluateEligibility_def j_def [unfolded context_jurisdiction_def, symmetric] Let_def
    by (simp add: split_beta refused)
qed

lemma evaluate_may_invest:
  assumes "engine_ok e" "getActiveRuleset e = Some r"
  shows "accepted (fst (evaluateEligibility e c now)) \<longleftrightarrow> may_invest (en_sanctions e) r c now"
  using context_jurisdiction_nonempty [of c]
  by (simp add: evaluateEligibility_eq [OF assms] checkSanctions_result kyc_steps_accepted
      may_invest_def Let_def) (auto simp: context_jurisdiction_def)


subsection \<open>Governance\<close>

datatype engine_call = Evaluate EligibilityEvaluationContext instant | Update string rule_update instant
  | Refresh "string list option" "string list option" "instant option" instant

fun engine_step :: "(string \<Rightarrow> string) \<Rightarrow> ComplianceRulesEngine \<Rightarrow> engine_call \<Rightarrow> ComplianceRulesEngine" where
  "engine_step sha e (Evaluate c now) = snd (evaluateEligibility e c now)"
| "engine_step sha e (Update j u now) = snd (updateJurisdictionRule sha e j u now)"
| "engine_step sha e (Refresh as cs t now) = e\<lparr>en_sanctions := snd (refreshSanctionsList (en_sanctions e) as cs t now)\<rparr>"

lemma evaluate_keeps:
  "en_rulesets (snd (evaluateEligibility e c now)) = en_rulesets e"
  "en_activeVersion (snd (evaluateEligibility e c now)) = en_activeVersion e"
  by (auto simp: evaluateEligibility_def Let_def split_beta split: option.splits)

lemma engine_ok_step: "engine_ok e \<Longrightarrow> engine_ok (engine_step sha e c)"
proof (cases c)
  case (Update j u now)
  assume "engine_ok e"
  with Update show ?thesis
    by (auto simp: engine_ok_def getActiveRuleset_def updateJurisdictionRule_def registerRuleset_def Let_def map_of_js_set
        split: option.splits)
qed (auto simp: engine_ok_def getActiveRuleset_def evaluate_keeps split: option.splits)

lemma kyc_steps_no_TypeError: "kyc_steps r rule j c now rules \<noteq> Inl TypeError"
  by (auto simp: kyc_steps_def cap_step_def Let_def split: option.splits)


section \<open>Attestations and the gate\<close>

lemma issued_attestation:
  assumes "fst (issueAttestation K kyc e i t0 nonce) = Inr a"
  shows "\<exists>p k. kyc (ar_investorAddress i) = Some k \<and> ap_kycStatus p = kr_status k \<and>
    a = \<lparr>sg_payload = Some p, sg_signature = key_sign K (serializePayload p), sg_signerPublicKey = key_public K\<rparr> \<and>
    ap_investorAddress p = ar_investorAddress i \<and> ap_bondId p = ar_bondId i \<and>
    ap_tranche p = (case ar_tranche i of None \<Rightarrow> STANDARD | Some x \<Rightarrow> x) \<and>
    ap_expiresAt p = t0 div 1000 + attestationTtlSeconds"
proof (cases "kyc (ar_investorAddress i)")
  case (Some k)
  then show ?thesis
    using assms by (auto simp: issueAttestation_def Let_def split: prod.splits sum.splits if_splits)
qed (use assms in \<open>simp add: issueAttestation_def Let_def\<close>)

text \<open>
  C14. An issued attestation verifies. If signatures of the compliance key verify under its
  public key, then what \<open>issueAttestation\<close> returns is accepted for the same investor, bond and
  tranche until its hour is over, and its payload names the investor, the bond, the tranche
  and the status of the KYC record.
\<close>

theorem issued_attestation_verifies:
  assumes law: "\<And>m. key_sign K m \<noteq> [] \<and> key_verify K (key_public K) m (key_sign K m) = Inr True"
    and issued: "fst (issueAttestation K kyc e i t0 nonce) = Inr a"
    and unexpired: "t div 1000 < t0 div 1000 + 3600" and tranche: "tr = None \<or> tr = Some (case ar_tranche i of None \<Rightarrow> STANDARD | Some x \<Rightarrow> x)"
  shows "\<exists>p. verifyAttestation K a (ar_investorAddress i) (ar_bondId i) tr t = Inr (Valid p) \<and>
    map_option kr_status (kyc (ar_investorAddress i)) = Some (ap_kycStatus p)"
proof -
  obtain p k where p: "kyc (ar_investorAddress i) = Some k" "ap_kycStatus p = kr_status k"
    "a = \<lparr>sg_payload = Some p, sg_signature = key_sign K (serializePayload p), sg_signerPublicKey = key_public K\<rparr>"
    "ap_investorAddress p = ar_investorAddress i" "ap_bondId p = ar_bondId i"
    "ap_tranche p = (case ar_tranche i of None \<Rightarrow> STANDARD | Some x \<Rightarrow> x)" "ap_expiresAt p = t0 div 1000 + 3600"
    using issued_attestation [OF issued] by (auto simp: attestationTtlSeconds_def)
  have "\<not> ap_expiresAt p \<le> t div 1000" "\<not> (case tr of None \<Rightarrow> False | Some x \<Rightarrow> ap_tranche p \<noteq> x)"
    using unexpired tranche p(6,7) by auto
  then have "verifyAttestation K a (ar_investorAddress i) (ar_bondId i) tr t = Inr (Valid p)"
    using law [of "serializePayload p"] by (cases "key_public K") (simp_all add: verifyAttestation_def p(3-5))
  with p(1,2) show ?thesis by simp
qed

text \<open>
  C38. Anyone can attest to themselves. An attestation that names its own signing key is checked against
  that key, so that whoever holds any key whose signatures verify passes as accredited
  for any investor, bond and tranche.
\<close>

theorem self_signed_attestation_accepted:
  assumes "pk \<noteq> []" and "sig \<noteq> []" and "key_verify K pk (serializePayload p) sig = Inr True"
    and "now div 1000 < ap_expiresAt p"
  shows "verifyAttestation K \<lparr>sg_payload = Some p, sg_signature = sig, sg_signerPublicKey = pk\<rparr>
    (ap_investorAddress p) (ap_bondId p) (Some (ap_tranche p)) now = Inr (Valid p)"
  using assms by (simp add: verifyAttestation_def)

text \<open>
  C13. What the gate of a subscription enforces. With the rules engine configured, a subscription passes
  exactly when the investor's address is not sanctioned, an attestation that is given or that a
  restricted tranche needs verifies, and, if a jurisdiction or an attestation is given, the
  rules find the investor eligible. Without either, no rule is evaluated: any address that
  is not sanctioned may subscribe to the other tranches.
\<close>

theorem subscription_gate_exact:
  assumes "engine_ok e" and "getActiveRuleset e = Some r"
  shows "fst (verifySubscriptionEligibility (Some K) (Some e) b dto now) = Inr () \<longleftrightarrow>
    sd_investorAddress dto \<notin> set (ss_addresses (en_sanctions e)) \<and>
    (case sd_attestation dto of
       None \<Rightarrow> sd_tranche dto \<noteq> Some RESTRICTED_ACCREDITED \<and>
         (or_default [] (sd_jurisdiction dto) = [] \<or> may_invest (en_sanctions e) r (subscription_context b dto) now)
     | Some a \<Rightarrow> (\<exists>p. verifyAttestation K a (sd_investorAddress dto) b (sd_tranche dto) now = Inr (Valid p)) \<and>
         may_invest (en_sanctions e) r (subscription_context b dto) now)"
proof -
  let ?ev = "evaluateEligibility e (subscription_context b dto) now"
  have el: "may_invest (en_sanctions e) r (subscription_context b dto) now \<longleftrightarrow> accepted (fst ?ev)"
    by (simp add: evaluate_may_invest [OF assms])
  have gate: "attestation_gate (Some K) b dto now = Inr () \<longleftrightarrow> (case sd_attestation dto of
       None \<Rightarrow> sd_tranche dto \<noteq> Some RESTRICTED_ACCREDITED
     | Some a \<Rightarrow> (\<exists>p. verifyAttestation K a (sd_investorAddress dto) b (sd_tranche dto) now = Inr (Valid p)))"
    by (auto simp: attestation_gate_def Let_def split: option.splits sum.splits AttestationVerificationResult.splits)
  have "fst (verifySubscriptionEligibility (Some K) (Some e) b dto now) = Inr () \<longleftrightarrow>
      \<not> isSanctioned (en_sanctions e) (sd_investorAddress dto) \<and> attestation_gate (Some K) b dto now = Inr () \<and>
      (or_default [] (sd_jurisdiction dto) = [] \<and> sd_attestation dto = None \<or> accepted (fst ?ev))"
    by (cases ?ev) (auto simp: verifySubscriptionEligibility_def accepted_def split: sum.splits)
  then show ?thesis unfolding gate el by (auto simp: isSanctioned_def split: option.splits)
qed

section \<open>Examples\<close>

definition example_ruleset :: VersionedRuleset where
  "example_ruleset = \<lparr>vr_version = ''1'', vr_effectiveDate = [], vr_auditHash = [], vr_jurisdictions = [],
     vr_defaultRule = DEFAULT_RULE\<rparr>"

definition example_engine :: ComplianceRulesEngine where
  "example_engine = \<lparr>en_rulesets = [(''1'', example_ruleset)], en_activeVersion = ''1'',
     en_sanctions = \<lparr>ss_addresses = [''X''], ss_countries = [''KP''], ss_lastRefreshedAt = 0, ss_maxStalenessHours = 24,
       ss_alertRaised = False\<rparr>\<rparr>"

text \<open>A signature is valid if it is the key's name followed by the message.\<close>

definition example_keys :: signing_keys where
  "example_keys = \<lparr>key_public = ''C'', key_sign = (\<lambda>m. CHR ''C'' # m), key_verify = (\<lambda>pk m s. Inr (s = pk @ m))\<rparr>"

definition example_purchase :: EligibilityEvaluationContext where
  "example_purchase = \<lparr>ec_investorAddress = ''A'', ec_jurisdiction = ''us'', ec_tranche = STANDARD, ec_bondId = 1,
     ec_purchaseAmount = Some ''10000'', ec_kycRecord = Some \<lparr>kr_status = VERIFIED, kr_expiresAt = None\<rparr>\<rparr>"

definition example_attestation_request :: attestation_request where
  "example_attestation_request = \<lparr>ar_investorAddress = ''A'', ar_bondId = 1, ar_tranche = None, ar_jurisdiction = None,
     ar_purchaseAmount = Some ''5000''\<rparr>"

definition example_kyc :: "string \<Rightarrow> kyc_record option" where
  "example_kyc a = Some \<lparr>kr_status = VERIFIED, kr_expiresAt = None\<rparr>"

definition example_claim :: EligibilityAttestationPayload where
  "example_claim = \<lparr>ap_investorAddress = ''M'', ap_bondId = 1, ap_tranche = RESTRICTED_ACCREDITED, ap_jurisdiction = ''US'',
     ap_kycStatus = ACCREDITED, ap_rulesetVersion = [], ap_issuedAt = 0, ap_expiresAt = 9, ap_nonce = []\<rparr>"

lemma example_engine_active:
  "engine_ok example_engine \<and> getActiveRuleset example_engine = Some example_ruleset"
  by (simp add: example_engine_def engine_ok_def getActiveRuleset_def example_ruleset_def)


theorem issued_attestation_verifies_witness:
  "case fst (issueAttestation example_keys example_kyc example_engine example_attestation_request 0 ''n'') of
     Inl _ \<Rightarrow> False
   | Inr a \<Rightarrow> (\<exists>p. verifyAttestation example_keys a ''A'' 1 None 1000000 = Inr (Valid p))"
proof -
  let ?r = "fst (issueAttestation example_keys example_kyc example_engine example_attestation_request 0 ''n'')"
  have "case ?r of Inl _ \<Rightarrow> False | Inr _ \<Rightarrow> True" by code_simp
  then obtain a where a: "?r = Inr a" by (auto split: sum.splits)
  have "\<exists>p. verifyAttestation example_keys a (ar_investorAddress example_attestation_request)
      (ar_bondId example_attestation_request) None 1000000 = Inr (Valid p)"
    using issued_attestation_verifies [OF _ a, of 1000000 None] by (auto simp: example_keys_def)
  with a show ?thesis by (simp add: example_attestation_request_def)
qed

theorem self_signed_attestation_accepted_witness:
  "verifyAttestation example_keys
     \<lparr>sg_payload = Some example_claim, sg_signature = CHR ''M'' # serializePayload example_claim, sg_signerPublicKey = ''M''\<rparr>
     ''M'' 1 (Some RESTRICTED_ACCREDITED) 0 = Inr (Valid example_claim)"
proof -
  have p: "ap_investorAddress example_claim = ''M''" "ap_bondId example_claim = 1"
    "ap_tranche example_claim = RESTRICTED_ACCREDITED" "ap_expiresAt example_claim = 9"
    by (simp_all add: example_claim_def)
  have "key_verify example_keys ''M'' (serializePayload example_claim) (CHR ''M'' # serializePayload example_claim) = Inr True"
    by (simp add: example_keys_def)
  from self_signed_attestation_accepted [OF _ _ this, of 0] show ?thesis by (simp add: p)
qed

theorem subscription_gate_exact_witness:
  "fst (verifySubscriptionEligibility (Some example_keys) (Some example_engine) 1
     \<lparr>sd_amount = 99999999, sd_investorAddress = ''M'', sd_tranche = None, sd_jurisdiction = None, sd_attestation = None\<rparr> 0) = Inr ()"
proof -
  have "''M'' \<notin> set (ss_addresses (en_sanctions example_engine))" by code_simp
  then show ?thesis
    using subscription_gate_exact [of example_engine example_ruleset example_keys 1
      "\<lparr>sd_amount = 99999999, sd_investorAddress = ''M'', sd_tranche = None, sd_jurisdiction = None, sd_attestation = None\<rparr>" 0]
      example_engine_active
    by (simp add: or_default_def)
qed

end
