(* ===== verification/Bonds_Service.thy ===== *)
theory Bonds_Service
  imports Holder_Index Compliance
begin

text \<open>
  The operations of \<open>api/src/bonds/bonds.service.ts\<close> that change state: subscriptions, transfers,
  claims, redemptions, maturity, sweeping, and the distribution of coupons in
  batches. The chain and everything else outside the process is a world of an
  arbitrary type, and the calls that reach it are parameters: contract calls, the
  nonce counter and the oracle report. The holder index and the
  compliance gate are the models of the other theories. Calls to the contracts, the nonce counter,
  the Redis cache and the compliance snapshots are recorded in a trace, in order. Amounts are
  integers, which the responses print in decimal.
\<close>

section \<open>Environment and state\<close>

datatype ReportStatus = Pending | Verified | Challenged | Rejected

datatype invocation = Subscribe_call string nat int | Transfer_call string string nat int
  | Claim_credits string nat | Redeem_call string nat int | Mature_bond string nat | Sweep_undistributed string nat
  | Distribute_coupon string nat int "string list" int
  | Distribute_coupon_batch string nat int "string list" int int int int

text \<open>The fields of a contract result that the service reads.\<close>

record invocation_result =
  ir_value :: int
  ir_totalCredits :: "int option"
  ir_holderCount :: "int option"
  ir_transactionHash :: "string option"

datatype bond_error = ContractException "int option" string string | OtherError string | NotAnError
  | BadRequest string | Conflict string | Refused compliance_error | MissingKey string

datatype effect = Invoke invocation | Nonce string string | Del string | DelPattern string
  | Capture string string nat

record 'w bond_env =
  be_admin :: "string option"
  be_investor_key :: bool
  be_issuer :: string
  be_couponEngine :: string
  be_nonce :: "string \<Rightarrow> string \<Rightarrow> 'w \<Rightarrow> (bond_error + int) \<times> 'w"
  be_invoke :: "invocation \<Rightarrow> 'w \<Rightarrow> (bond_error + invocation_result) \<times> 'w"
  be_report :: "('w \<Rightarrow> int \<Rightarrow> bond_error + ReportStatus) option"
  be_index :: "'w \<Rightarrow> call_env"
  be_strict :: "string option"
  be_staleness :: "jsnum option"
  be_keys :: "signing_keys option"
  be_snapshots :: bool

record 'w bonds_state =
  bs_world :: 'w
  bs_index :: HolderIndexService
  bs_engine :: "ComplianceRulesEngine option"
  bs_trace :: "effect list"

definition record_effects :: "effect list \<Rightarrow> 'w bonds_state \<Rightarrow> 'w bonds_state" where
  "record_effects es s = s\<lparr>bs_trace := bs_trace s @ es\<rparr>"

definition invokeContractMethod ::
  "'w bond_env \<Rightarrow> invocation \<Rightarrow> 'w bonds_state \<Rightarrow> (bond_error + invocation_result) \<times> 'w bonds_state" where
  "invokeContractMethod E c s =
     (case be_invoke E c (bs_world s) of (r, w) \<Rightarrow> (r, record_effects [Invoke c] (s\<lparr>bs_world := w\<rparr>)))"

definition next_nonce ::
  "'w bond_env \<Rightarrow> string \<Rightarrow> string \<Rightarrow> 'w bonds_state \<Rightarrow> (bond_error + int) \<times> 'w bonds_state" where
  "next_nonce E contract address s =
     (case be_nonce E contract address (bs_world s) of
        (r, w) \<Rightarrow> (r, record_effects [Nonce contract address] (s\<lparr>bs_world := w\<rparr>)))"

text \<open>A nonce is reserved, then the contract is called.\<close>

definition with_nonce_invoke ::
  "'w bond_env \<Rightarrow> string \<Rightarrow> string \<Rightarrow> (int \<Rightarrow> invocation) \<Rightarrow> 'w bonds_state \<Rightarrow>
   (bond_error + invocation_result) \<times> 'w bonds_state" where
  "with_nonce_invoke E contract address c s =
     (case next_nonce E contract address s of
        (Inl e, s1) \<Rightarrow> (Inl e, s1)
      | (Inr n, s1) \<Rightarrow> invokeContractMethod E (c n) s1)"

definition bond_key :: "nat \<Rightarrow> string" where
  "bond_key i = ''bond:'' @ nat_str i"

definition portfolio_keys :: "string \<Rightarrow> effect list" where
  "portfolio_keys address = (if address = [] then [] else [Del (''portfolio:'' @ address)])"

definition capture :: "'w bond_env \<Rightarrow> string \<Rightarrow> string \<Rightarrow> nat \<Rightarrow> effect list" where
  "capture E eventId eventType i = (if be_snapshots E then [Capture eventId eventType i] else [])"

definition hash_text :: "string option \<Rightarrow> string" where
  "hash_text h = (case h of None \<Rightarrow> [] | Some x \<Rightarrow> x)"

section \<open>Investor operations\<close>

record SubscriptionResponse =
  sp_bondId :: nat
  sp_investorAddress :: string
  sp_amount :: int
  sp_transactionHash :: string

definition subscribe ::
  "'w bond_env \<Rightarrow> nat \<Rightarrow> SubscribeDto \<Rightarrow> 'w bonds_state \<Rightarrow> (bond_error + SubscriptionResponse) \<times> 'w bonds_state" where
  "subscribe E i dto s =
     (if \<not> be_investor_key E then (Inl (MissingKey ''investor''), s)
      else (case verifySubscriptionEligibility (be_keys E) (bs_engine s) (int i) dto (ce_now (be_index E (bs_world s))) of
        (Inl e, eng) \<Rightarrow> (Inl (Refused e), s\<lparr>bs_engine := eng\<rparr>)
      | (Inr _, eng) \<Rightarrow>
          (case with_nonce_invoke E (be_issuer E) (sd_investorAddress dto)
                  (\<lambda>_. Subscribe_call (sd_investorAddress dto) i (sd_amount dto)) (s\<lparr>bs_engine := eng\<rparr>) of
             (Inl e, s1) \<Rightarrow> (Inl e, s1)
           | (Inr r, s1) \<Rightarrow>
               (let s2 = record_effects [Del (bond_key i)] s1;
                    s3 = s2\<lparr>bs_index := recordSubscribe (be_index E (bs_world s2)) i (sd_investorAddress dto) (bs_index s2)\<rparr>;
                    s4 = record_effects (portfolio_keys (sd_investorAddress dto) @
                           capture E (bond_key i @ '':subscription:'' @ hash_text (ir_transactionHash r)) ''BOND_SUBSCRIBED'' i) s3
                in (Inr \<lparr>sp_bondId = i, sp_investorAddress = sd_investorAddress dto, sp_amount = sd_amount dto,
                         sp_transactionHash = hash_text (ir_transactionHash r)\<rparr>, s4)))))"

definition transfer ::
  "'w bond_env \<Rightarrow> nat \<Rightarrow> string \<Rightarrow> string \<Rightarrow> int \<Rightarrow> 'w bonds_state \<Rightarrow> (bond_error + string) \<times> 'w bonds_state" where
  "transfer E i fromAddress toAddress amount s =
     (if \<not> be_investor_key E then (Inl (MissingKey ''investor''), s)
      else (case with_nonce_invoke E (be_issuer E) fromAddress (\<lambda>_. Transfer_call fromAddress toAddress i amount) s of
        (Inl e, s1) \<Rightarrow> (Inl e, s1)
      | (Inr r, s1) \<Rightarrow>
          (Inr (hash_text (ir_transactionHash r)),
           record_effects (portfolio_keys fromAddress @ portfolio_keys toAddress)
             (s1\<lparr>bs_index := recordTransfer (be_index E (bs_world s1)) i fromAddress toAddress (bs_index s1)\<rparr>))))"

definition claimCredits ::
  "'w bond_env \<Rightarrow> nat \<Rightarrow> string \<Rightarrow> 'w bonds_state \<Rightarrow> (bond_error + int \<times> string) \<times> 'w bonds_state" where
  "claimCredits E i investorAddress s =
     (if \<not> be_investor_key E then (Inl (MissingKey ''investor''), s)
      else (case with_nonce_invoke E (be_couponEngine E) investorAddress (\<lambda>_. Claim_credits investorAddress i) s of
        (Inl e, s1) \<Rightarrow> (Inl e, s1)
      | (Inr r, s1) \<Rightarrow>
          (Inr (ir_value r, hash_text (ir_transactionHash r)), record_effects (portfolio_keys investorAddress) s1)))"

definition BondAlreadyMatured :: int where
  "BondAlreadyMatured = 5"

definition BondNotFound :: int where
  "BondNotFound = 4"

definition mapBondError :: "bond_error \<Rightarrow> nat \<Rightarrow> bond_error" where
  "mapBondError error i =
     (case error of
        ContractException code detail message \<Rightarrow>
          if code = Some BondAlreadyMatured then BadRequest (''Bond '' @ nat_str i @ '' is already matured'')
          else if code = Some BondNotFound then BadRequest (''Bond '' @ nat_str i @ '' not found'')
          else BadRequest (if detail = [] then message else detail)
      | NotAnError \<Rightarrow> BadRequest ''Failed to mature bond''
      | e \<Rightarrow> e)"

definition redeem ::
  "'w bond_env \<Rightarrow> nat \<Rightarrow> string \<Rightarrow> int \<Rightarrow> 'w bonds_state \<Rightarrow> (bond_error + string) \<times> 'w bonds_state" where
  "redeem E i investorAddress amount s =
     (if \<not> be_investor_key E then (Inl (MissingKey ''investor''), s)
      else (case next_nonce E (be_issuer E) investorAddress s of
        (Inl e, s1) \<Rightarrow> (Inl e, s1)
      | (Inr _, s1) \<Rightarrow>
          (case invokeContractMethod E (Redeem_call investorAddress i amount) s1 of
             (Inl e, s2) \<Rightarrow> (Inl (mapBondError e i), s2)
           | (Inr r, s2) \<Rightarrow>
               (Inr (hash_text (ir_transactionHash r)),
                record_effects (portfolio_keys investorAddress @ [Del (bond_key i)]) s2))))"

section \<open>Admin operations\<close>

definition sweepUndistributed ::
  "'w bond_env \<Rightarrow> nat \<Rightarrow> 'w bonds_state \<Rightarrow> (bond_error + int \<times> string) \<times> 'w bonds_state" where
  "sweepUndistributed E i s =
     (case be_admin E of
        None \<Rightarrow> (Inl (MissingKey ''admin''), s)
      | Some admin \<Rightarrow>
          (case with_nonce_invoke E (be_couponEngine E) admin (\<lambda>_. Sweep_undistributed admin i) s of
             (Inl e, s1) \<Rightarrow> (Inl e, s1)
           | (Inr r, s1) \<Rightarrow> (Inr (ir_value r, hash_text (ir_transactionHash r)), s1)))"

text \<open>\<open>build\<close> stands for \<open>buildBondResponse\<close>, which only reads the chain.\<close>

definition mature ::
  "'w bond_env \<Rightarrow> ('w \<Rightarrow> bond_error + 'r) \<Rightarrow> nat \<Rightarrow> 'w bonds_state \<Rightarrow> (bond_error + 'r) \<times> 'w bonds_state" where
  "mature E build i s =
     (case be_admin E of
        None \<Rightarrow> (Inl (MissingKey ''admin''), s)
      | Some admin \<Rightarrow>
          (case next_nonce E (be_issuer E) admin s of
             (Inl e, s1) \<Rightarrow> (Inl e, s1)
           | (Inr _, s1) \<Rightarrow>
               (case invokeContractMethod E (Mature_bond admin i) s1 of
                  (Inl e, s2) \<Rightarrow> (Inl (mapBondError e i), s2)
                | (Inr r, s2) \<Rightarrow>
                    (let s3 = record_effects [Del (bond_key i), DelPattern ''portfolio:*''] s2 in
                     case build (bs_world s3) of
                       Inl e \<Rightarrow> (Inl e, s3)
                     | Inr bond \<Rightarrow> (Inr bond, record_effects (capture E (bond_key i @ '':matured'') ''BOND_MATURED'' i) s3)))))"

section \<open>Coupons\<close>

definition MAX_SAFE_BATCH_SIZE :: int where
  "MAX_SAFE_BATCH_SIZE = 50"

definition coupon_holders ::
  "'w bond_env \<Rightarrow> nat \<Rightarrow> bool \<Rightarrow> 'w bonds_state \<Rightarrow> (bond_error + string list) \<times> 'w bonds_state" where
  "coupon_holders E i requireFresh s =
     (case getHoldersForCoupon (be_index E (bs_world s)) i
             \<lparr>cs_requireFresh = Some requireFresh, cs_maxStalenessMs = None, cs_strict = be_strict E,
              cs_staleness_variable = be_staleness E\<rparr> (bs_index s) of
        (r, x) \<Rightarrow> (map_sum Conflict id r, s\<lparr>bs_index := x\<rparr>))"

definition report_problem :: "'w bond_env \<Rightarrow> int \<Rightarrow> 'w bonds_state \<Rightarrow> bond_error option" where
  "report_problem E reportId s =
     (case be_report E of
        None \<Rightarrow> None
      | Some getReport \<Rightarrow>
          (case getReport (bs_world s) reportId of
             Inl e \<Rightarrow> Some e
           | Inr Challenged \<Rightarrow> Some (BadRequest ''Cannot distribute coupon: report is currently Challenged'')
           | Inr Rejected \<Rightarrow> Some (BadRequest ''Cannot distribute coupon: report was Rejected'')
           | Inr _ \<Rightarrow> None))"

record CouponBatchStatusResponse =
  bt_cursor :: nat
  bt_totalHolders :: nat
  bt_distributed :: bool
  bt_totalCreditsEarned :: int
  bt_undistributed :: int
  bt_remainingHolders :: nat

text \<open>
  \<open>info\<close> is what \<open>get_period_info\<close> answers: the credits earned, whether the period is
  distributed, the undistributed rest; \<open>None\<close> when the call fails.
\<close>

definition getCouponBatchStatus ::
  "'w bond_env \<Rightarrow> ('w \<Rightarrow> (int option \<times> bool \<times> int option) option) \<Rightarrow> nat \<Rightarrow> 'w bonds_state \<Rightarrow>
   (bond_error + CouponBatchStatusResponse) \<times> 'w bonds_state" where
  "getCouponBatchStatus E info i s =
     (case coupon_holders E i False s of
        (Inl e, s1) \<Rightarrow> (Inl e, s1)
      | (Inr hs, s1) \<Rightarrow>
          (Inr (case info (bs_world s1) of
             Some (credits, distributed, rest) \<Rightarrow>
               (let cursor = (if distributed then length hs else 0) in
                \<lparr>bt_cursor = cursor, bt_totalHolders = length hs, bt_distributed = distributed,
                 bt_totalCreditsEarned = (case credits of None \<Rightarrow> 0 | Some c \<Rightarrow> c),
                 bt_undistributed = (case rest of None \<Rightarrow> 0 | Some c \<Rightarrow> c), bt_remainingHolders = length hs - cursor\<rparr>)
           | None \<Rightarrow> \<lparr>bt_cursor = 0, bt_totalHolders = length hs, bt_distributed = False, bt_totalCreditsEarned = 0,
                      bt_undistributed = 0, bt_remainingHolders = length hs\<rparr>), s1))"

record DistributeCouponBatchDto =
  db_periodIndex :: int
  db_reportId :: int
  db_offset :: int
  db_limit :: int

record CouponBatchDistributionResponse =
  cb_offset :: int
  cb_limit :: int
  cb_cursor :: int
  cb_batchComplete :: bool
  cb_totalCredits :: int
  cb_transactionHash :: string

definition distributeCouponBatch ::
  "'w bond_env \<Rightarrow> nat \<Rightarrow> DistributeCouponBatchDto \<Rightarrow> 'w bonds_state \<Rightarrow>
   (bond_error + CouponBatchDistributionResponse) \<times> 'w bonds_state" where
  "distributeCouponBatch E i dto s =
     (case be_admin E of
        None \<Rightarrow> (Inl (MissingKey ''admin''), s)
      | Some admin \<Rightarrow>
     (case next_nonce E (be_couponEngine E) admin s of
        (Inl e, s1) \<Rightarrow> (Inl e, s1)
      | (Inr nonce, s1) \<Rightarrow>
     (if db_limit dto > 100 then (Inl (BadRequest ''Batch limit exceeds maximum allowed limit of 100''), s1)
      else (case coupon_holders E i True s1 of
        (Inl e, s2) \<Rightarrow> (Inl e, s2)
      | (Inr hs, s2) \<Rightarrow>
     (if db_offset dto > int (length hs) then (Inl (BadRequest ''Batch offset exceeds total holder count''), s2)
      else (case report_problem E (db_reportId dto) s2 of
        Some e \<Rightarrow> (Inl e, s2)
      | None \<Rightarrow>
     (let effectiveLimit = min (db_limit dto) (int (length hs) - db_offset dto) in
      case invokeContractMethod E (Distribute_coupon_batch admin i (db_periodIndex dto) hs (db_reportId dto)
             (db_offset dto) effectiveLimit nonce) s2 of
        (Inl e, s3) \<Rightarrow> (Inl e, s3)
      | (Inr r, s3) \<Rightarrow>
          (let newCursor = db_offset dto + effectiveLimit;
               batchComplete = newCursor \<ge> int (length hs)
           in (Inr \<lparr>cb_offset = db_offset dto, cb_limit = effectiveLimit, cb_cursor = newCursor,
                    cb_batchComplete = batchComplete,
                    cb_totalCredits = (case ir_totalCredits r of None \<Rightarrow> 0 | Some c \<Rightarrow> c),
                    cb_transactionHash = hash_text (ir_transactionHash r)\<rparr>,
               if batchComplete
               then record_effects (capture E (bond_key i @ '':coupon:'' @ int_str (db_periodIndex dto)) ''COUPON_DISTRIBUTED'' i) s3
               else s3)))))))))"

text \<open>The loop of \<open>distributeCoupon\<close> over the batches; \<open>None\<close> if it never ends.\<close>

partial_function (option) batch_loop ::
  "'w bond_env \<Rightarrow> nat \<Rightarrow> int \<Rightarrow> int \<Rightarrow> nat \<Rightarrow> int \<Rightarrow> int \<Rightarrow> 'w bonds_state \<Rightarrow>
   ((bond_error + int) \<times> 'w bonds_state) option" where
  "batch_loop E i periodIndex reportId n offset totalCredits s =
     (if offset < int n
      then (case distributeCouponBatch E i \<lparr>db_periodIndex = periodIndex, db_reportId = reportId, db_offset = offset,
                   db_limit = min MAX_SAFE_BATCH_SIZE (int n - offset)\<rparr> s of
          (Inl e, s') \<Rightarrow> Some (Inl e, s')
        | (Inr r, s') \<Rightarrow> batch_loop E i periodIndex reportId n (cb_cursor r) (cb_totalCredits r) s')
      else Some (Inr totalCredits, s))"

declare batch_loop.simps [code]

record CouponDistributionResponse =
  cd_periodIndex :: int
  cd_totalCredits :: int
  cd_holderCount :: int

definition distributeCoupon ::
  "'w bond_env \<Rightarrow> nat \<Rightarrow> int \<Rightarrow> int \<Rightarrow> 'w bonds_state \<Rightarrow>
   ((bond_error + CouponDistributionResponse) \<times> 'w bonds_state) option" where
  "distributeCoupon E i periodIndex reportId s =
     (case be_admin E of
        None \<Rightarrow> Some (Inl (MissingKey ''admin''), s)
      | Some admin \<Rightarrow>
     (case coupon_holders E i True s of
        (Inl e, s1) \<Rightarrow> Some (Inl e, s1)
      | (Inr hs, s1) \<Rightarrow>
     (case report_problem E reportId s1 of
        Some e \<Rightarrow> Some (Inl e, s1)
      | None \<Rightarrow>
     (if int (length hs) > MAX_SAFE_BATCH_SIZE
      then map_option (\<lambda>(r, s2). (case r of Inl e \<Rightarrow> Inl e
             | Inr credits \<Rightarrow> Inr \<lparr>cd_periodIndex = periodIndex, cd_totalCredits = credits, cd_holderCount = int (length hs)\<rparr>, s2))
             (batch_loop E i periodIndex reportId (length hs) 0 0 s1)
      else
     (case with_nonce_invoke E (be_couponEngine E) admin (\<lambda>_. Distribute_coupon admin i periodIndex hs reportId) s1 of
        (Inl e, s2) \<Rightarrow> Some (Inl e, s2)
      | (Inr r, s2) \<Rightarrow>
          Some (Inr \<lparr>cd_periodIndex = periodIndex, cd_totalCredits = (case ir_totalCredits r of None \<Rightarrow> 0 | Some c \<Rightarrow> c),
                     cd_holderCount = (case ir_holderCount r of None \<Rightarrow> 0 | Some c \<Rightarrow> c)\<rparr>,
                record_effects (capture E (bond_key i @ '':coupon:'' @ int_str periodIndex) ''COUPON_DISTRIBUTED'' i) s2))))))"

section \<open>Subscriptions\<close>

fun invocations :: "effect list \<Rightarrow> invocation list" where
  "invocations [] = []"
| "invocations (Invoke c # es) = c # invocations es"
| "invocations (_ # es) = invocations es"

lemma invocations_append [simp]: "invocations (xs @ ys) = invocations xs @ invocations ys"
  by (induction xs rule: invocations.induct) auto

lemma invocations_cache [simp]: "invocations (portfolio_keys a) = []" "invocations (capture E x y i) = []"
  by (auto simp: portfolio_keys_def capture_def)

lemma trace_simps [simp]:
  "bs_trace (record_effects es s) = bs_trace s @ es" "bs_index (record_effects es s) = bs_index s"
  "bs_world (record_effects es s) = bs_world s" "bs_engine (record_effects es s) = bs_engine s"
  by (simp_all add: record_effects_def)

lemma with_nonce_invoke_effects:
  "invocations (bs_trace (snd (with_nonce_invoke E contract address c s))) =
     invocations (bs_trace s) @ (case be_nonce E contract address (bs_world s) of (Inl _, _) \<Rightarrow> [] | (Inr n, _) \<Rightarrow> [c n])"
  "bs_index (snd (with_nonce_invoke E contract address c s)) = bs_index s"
  by (auto simp: with_nonce_invoke_def next_nonce_def invokeContractMethod_def split: prod.splits sum.splits)

lemma with_nonce_invoke_ok:
  "fst (with_nonce_invoke E contract address c s) = Inr r \<Longrightarrow> \<exists>n w. be_nonce E contract address (bs_world s) = (Inr n, w)"
  by (auto simp: with_nonce_invoke_def next_nonce_def split: prod.splits sum.splits)

lemma recorded_subscriber:
  "address \<in> set (getHolders (hi_data (recordSubscribe X i address s)) i) \<and>
   address \<in> set (getKnownAddresses (hi_data (recordSubscribe X i address s)))"
proof
  show "address \<in> set (getHolders (hi_data (recordSubscribe X i address s)) i)"
    by (simp add: recordSubscribe_def on_data_def)
  show "address \<in> set (getKnownAddresses (hi_data (recordSubscribe X i address s)))"
    by (simp add: recordSubscribe_def on_data_def) (simp add: getKnownAddresses_def addKnownAddress_def)
qed

text \<open>
  C8. A subscription is gated, invoked once and indexed. One that the gate refuses calls no contract
  and changes no index. One that succeeds passed the gate, called \<open>subscribe\<close> on the contract
  exactly once with the given investor, bond and amount, and left the investor among the
  recorded holders of the bond and the known addresses.
\<close>

theorem subscription_effects:
  fixes E i dto s
  defines "gate \<equiv> fst (verifySubscriptionEligibility (be_keys E) (bs_engine s) (int i) dto (ce_now (be_index E (bs_world s))))"
    and "s' \<equiv> snd (subscribe E i dto s)"
  shows "(gate \<noteq> Inr () \<longrightarrow> (\<exists>e. fst (subscribe E i dto s) = Inl e) \<and>
       invocations (bs_trace s') = invocations (bs_trace s) \<and> bs_index s' = bs_index s) \<and>
    ((\<exists>r. fst (subscribe E i dto s) = Inr r) \<longrightarrow> gate = Inr () \<and>
       invocations (bs_trace s') = invocations (bs_trace s) @ [Subscribe_call (sd_investorAddress dto) i (sd_amount dto)] \<and>
       sd_investorAddress dto \<in> set (getHolders (hi_data (bs_index s')) i) \<and>
       sd_investorAddress dto \<in> set (getKnownAddresses (hi_data (bs_index s'))))"
proof -
  let ?v = "verifySubscriptionEligibility (be_keys E) (bs_engine s) (int i) dto (ce_now (be_index E (bs_world s)))"
  let ?a = "sd_investorAddress dto"
  let ?n = "with_nonce_invoke E (be_issuer E) ?a (\<lambda>_. Subscribe_call ?a i (sd_amount dto)) (s\<lparr>bs_engine := snd ?v\<rparr>)"
  have inv: "fst ?n = Inr r \<Longrightarrow> invocations (bs_trace (snd ?n)) = invocations (bs_trace s) @ [Subscribe_call ?a i (sd_amount dto)]" for r
    using with_nonce_invoke_ok [of E "be_issuer E" ?a _ "s\<lparr>bs_engine := snd ?v\<rparr>"] by (fastforce simp: with_nonce_invoke_effects)
  consider (refused) e where "be_investor_key E" "fst ?v = Inl e" | (nokey) "\<not> be_investor_key E"
    | (failed) e where "be_investor_key E" "fst ?v = Inr ()" "fst ?n = Inl e"
    | (succeeded) r where "be_investor_key E" "fst ?v = Inr ()" "fst ?n = Inr r"
    by (cases "fst ?v"; cases "fst ?n") auto
  then show ?thesis
  proof cases
    case (succeeded r)
    with inv [OF succeeded(3)] recorded_subscriber [of ?a _ i] show ?thesis
      by (cases ?v; cases ?n) (simp add: gate_def s'_def subscribe_def Let_def)
  qed (cases ?v; cases ?n; simp add: gate_def s'_def subscribe_def)+
qed

section \<open>The batches of a coupon\<close>

text \<open>The batches among the contract calls: the list of holders, the offset and the limit.\<close>

fun batches :: "invocation list \<Rightarrow> (string list \<times> int \<times> int) list" where
  "batches [] = []"
| "batches (Distribute_coupon_batch a i p hs r off m n # cs) = (hs, off, m) # batches cs"
| "batches (_ # cs) = batches cs"

lemma batches_append [simp]: "batches (xs @ ys) = batches xs @ batches ys"
  by (induction xs rule: batches.induct) auto

definition slice :: "string list \<times> int \<times> int \<Rightarrow> string list" where
  "slice b = (case b of (hs, off, m) \<Rightarrow> take (nat m) (drop (nat off) hs))"

text \<open>
  While \<open>P\<close> holds, the nonce counter and the contract answer, the report is not contested,
  and the holder index names the same holders; and \<open>P\<close> goes on to hold.
\<close>

definition steady :: "'w bond_env \<Rightarrow> nat \<Rightarrow> int \<Rightarrow> string list \<Rightarrow> ('w bonds_state \<Rightarrow> bool) \<Rightarrow> bool" where
  "steady E i reportId hs P \<longleftrightarrow> be_admin E \<noteq> None \<and>
     (\<forall>s. P s \<longrightarrow>
        (\<forall>contract address. case next_nonce E contract address s of (Inl _, _) \<Rightarrow> False | (Inr _, s') \<Rightarrow> P s') \<and>
        (case coupon_holders E i True s of (Inl _, _) \<Rightarrow> False | (Inr h, s') \<Rightarrow> h = hs \<and> P s') \<and>
        report_problem E reportId s = None \<and>
        (\<forall>c. case invokeContractMethod E c s of (Inl _, _) \<Rightarrow> False | (Inr _, s') \<Rightarrow> P s') \<and>
        (\<forall>es. P (record_effects es s)))"

lemma steady_steps:
  assumes "steady E i reportId hs P" "P s"
  shows "\<exists>n s'. next_nonce E contract address s = (Inr n, s') \<and> P s' \<and> invocations (bs_trace s') = invocations (bs_trace s)"
    "\<exists>s'. coupon_holders E i True s = (Inr hs, s') \<and> P s' \<and> bs_trace s' = bs_trace s"
    "report_problem E reportId s = None"
    "\<exists>r s'. invokeContractMethod E c s = (Inr r, s') \<and> P s' \<and> bs_trace s' = bs_trace s @ [Invoke c]"
    "P (record_effects es s)"
proof -
  have st: "case next_nonce E contract address s of (Inl _, _) \<Rightarrow> False | (Inr _, s') \<Rightarrow> P s'"
    "case coupon_holders E i True s of (Inl _, _) \<Rightarrow> False | (Inr h, s') \<Rightarrow> h = hs \<and> P s'"
    "case invokeContractMethod E c s of (Inl _, _) \<Rightarrow> False | (Inr _, s') \<Rightarrow> P s'"
    and rest: "report_problem E reportId s = None" "P (record_effects es s)"
    using assms by (auto simp: steady_def)
  show "\<exists>n s'. next_nonce E contract address s = (Inr n, s') \<and> P s' \<and> invocations (bs_trace s') = invocations (bs_trace s)"
    using st(1) by (auto simp: next_nonce_def split: prod.splits sum.splits)
  show "\<exists>s'. coupon_holders E i True s = (Inr hs, s') \<and> P s' \<and> bs_trace s' = bs_trace s"
    using st(2) by (auto simp: coupon_holders_def split: prod.splits sum.splits)
  show "\<exists>r s'. invokeContractMethod E c s = (Inr r, s') \<and> P s' \<and> bs_trace s' = bs_trace s @ [Invoke c]"
    using st(3) by (auto simp: invokeContractMethod_def split: prod.splits sum.splits)
  show "report_problem E reportId s = None" "P (record_effects es s)" by (fact rest)+
qed

lemma steady_batch:
  assumes st: "steady E i reportId hs P" and "P s" and limit: "limit \<le> 100" and off: "off \<le> int (length hs)"
    and m: "m = min limit (int (length hs) - off)"
  shows "\<exists>r s'. distributeCouponBatch E i
      \<lparr>db_periodIndex = p, db_reportId = reportId, db_offset = off, db_limit = limit\<rparr> s = (Inr r, s') \<and> P s' \<and>
    cb_cursor r = off + m \<and>
    batches (invocations (bs_trace s')) = batches (invocations (bs_trace s)) @ [(hs, off, m)]"
proof -
  obtain admin where a: "be_admin E = Some admin" using st by (auto simp: steady_def)
  obtain n s1 where 1: "next_nonce E (be_couponEngine E) admin s = (Inr n, s1)" "P s1"
    "invocations (bs_trace s1) = invocations (bs_trace s)" using steady_steps(1) [OF st \<open>P s\<close>] by metis
  obtain s2 where 2: "coupon_holders E i True s1 = (Inr hs, s2)" "P s2" "bs_trace s2 = bs_trace s1"
    using steady_steps(2) [OF st 1(2)] by metis
  let ?c = "Distribute_coupon_batch admin i p hs reportId off m n"
  obtain r s3 where 3: "invokeContractMethod E ?c s2 = (Inr r, s3)" "P s3" "bs_trace s3 = bs_trace s2 @ [Invoke ?c]"
    using steady_steps(4) [OF st 2(2)] by metis
  show ?thesis
    using limit off 3 steady_steps(5) [OF st 3(2)]
    by (simp add: distributeCouponBatch_def a 1 2 steady_steps(3) [OF st 2(2)] m Let_def)
qed

lemma steady_loop:
  assumes st: "steady E i reportId hs P"
  shows "P s \<Longrightarrow> 0 \<le> off \<Longrightarrow> off \<le> int (length hs) \<Longrightarrow>
    \<exists>credits s' bs. batch_loop E i p reportId (length hs) off t s = Some (Inr credits, s') \<and>
      batches (invocations (bs_trace s')) = batches (invocations (bs_trace s)) @ bs \<and>
      concat (map slice bs) = drop (nat off) hs \<and> list_all (\<lambda>(h, o1, l). h = hs \<and> 0 < l \<and> l \<le> 50) bs"
proof (induction "length hs - nat off" arbitrary: off t s rule: less_induct)
  case less
  show ?case
  proof (cases "off < int (length hs)")
    case True
    define m where "m = min 50 (int (length hs) - off)"
    let ?dto = "\<lparr>db_periodIndex = p, db_reportId = reportId, db_offset = off, db_limit = m\<rparr>"
    have "m \<le> 100" "m = min m (int (length hs) - off)" "off \<le> int (length hs)" using True by (auto simp: m_def)
    from steady_batch [OF st less.prems(1) this(1,3,2)]
    obtain r s1 where 1: "distributeCouponBatch E i ?dto s = (Inr r, s1)" "P s1" "cb_cursor r = off + m"
      "batches (invocations (bs_trace s1)) = batches (invocations (bs_trace s)) @ [(hs, off, m)]" by blast
    have m: "0 < m" "m \<le> 50" "off + m \<le> int (length hs)" using True by (auto simp: m_def)
    then obtain credits s' bs where 2:
      "batch_loop E i p reportId (length hs) (off + m) (cb_totalCredits r) s1 = Some (Inr credits, s')"
      "batches (invocations (bs_trace s')) = batches (invocations (bs_trace s1)) @ bs"
      "concat (map slice bs) = drop (nat (off + m)) hs" "list_all (\<lambda>(h, o1, l). h = hs \<and> 0 < l \<and> l \<le> 50) bs"
      using less.hyps [of "off + m" s1 "cb_totalCredits r"] 1(2) less.prems True by fastforce
    have "min MAX_SAFE_BATCH_SIZE (int (length hs) - off) = m" by (simp add: m_def MAX_SAFE_BATCH_SIZE_def)
    then have "batch_loop E i p reportId (length hs) off t s = Some (Inr credits, s')"
      by (subst batch_loop.simps) (simp only: True if_True 1(1) prod.case sum.case 1(3) 2(1))
    moreover have "slice (hs, off, m) @ drop (nat (off + m)) hs = drop (nat off) hs"
    proof -
      have "nat (off + m) = nat m + nat off" using less.prems m by simp
      then show ?thesis using append_take_drop_id [of "nat m" "drop (nat off) hs"] by (simp add: slice_def)
    qed
    ultimately show ?thesis
      using 1(4) 2 m by (intro exI [of _ credits] exI [of _ s'] exI [of _ "(hs, off, m) # bs"]) simp
  next
    case False
    then show ?thesis using less.prems by (subst batch_loop.simps) simp
  qed
qed

text \<open>
  C7. A coupon over many holders reaches each of them. While the calls succeed and the holder list
  stays as it is, distributing over more than fifty holders ends, every batch is cut from that one list
  and names at most fifty holders, and the batches in order make up the whole list.
\<close>

theorem coupon_batches_cover:
  assumes "steady E i reportId hs P" and "P s" and "length hs > 50"
  shows "\<exists>r s' bs. distributeCoupon E i periodIndex reportId s = Some (Inr r, s') \<and>
    cd_holderCount r = int (length hs) \<and>
    batches (invocations (bs_trace s')) = batches (invocations (bs_trace s)) @ bs \<and>
    concat (map slice bs) = hs \<and> list_all (\<lambda>(h, off, l). h = hs \<and> 0 < l \<and> l \<le> 50) bs"
proof -
  obtain admin where a: "be_admin E = Some admin" using assms(1) by (auto simp: steady_def)
  obtain s1 where 1: "coupon_holders E i True s = (Inr hs, s1)" "P s1" "bs_trace s1 = bs_trace s"
    using steady_steps(2) [OF assms(1,2)] by metis
  from steady_loop [OF assms(1) 1(2), of 0 periodIndex 0] obtain credits s' bs where
    "batch_loop E i periodIndex reportId (length hs) 0 0 s1 = Some (Inr credits, s')"
    "batches (invocations (bs_trace s')) = batches (invocations (bs_trace s1)) @ bs"
    "concat (map slice bs) = hs" "list_all (\<lambda>(h, off, l). h = hs \<and> 0 < l \<and> l \<le> 50) bs" by auto
  then show ?thesis
    using assms(3) 1 steady_steps(3) [OF assms(1) 1(2)]
    by (simp add: distributeCoupon_def a MAX_SAFE_BATCH_SIZE_def)
qed

section \<open>Examples\<close>

definition example_holders :: "string list" where
  "example_holders = map nat_str [0..<51]"

definition example_index :: HolderIndexService where
  "example_index = \<lparr>hi_kind = Memory_store,
     hi_data = \<lparr>hd_holders = [(1, example_holders)], hd_knownAddresses = [''A''], hd_lastReconciled = [(1, 1)]\<rparr>,
     hi_file = None, hi_loaded = True\<rparr>"

definition example_bond_env :: "unit bond_env" where
  "example_bond_env = \<lparr>be_admin = Some ''G'', be_investor_key = True, be_issuer = ''I'', be_couponEngine = ''E'',
     be_nonce = (\<lambda>_ _ w. (Inr 0, w)),
     be_invoke = (\<lambda>_ w. (Inr \<lparr>ir_value = 0, ir_totalCredits = Some 9, ir_holderCount = None, ir_transactionHash = None\<rparr>, w)),
     be_report = None, be_index = (\<lambda>_. \<lparr>ce_now = 2, ce_balance = (\<lambda>_ _. Some 1), ce_disk_ok = True\<rparr>),
     be_strict = None, be_staleness = None, be_keys = None, be_snapshots = False\<rparr>"

definition example_state :: "unit bonds_state" where
  "example_state = \<lparr>bs_world = (), bs_index = example_index, bs_engine = None, bs_trace = []\<rparr>"

lemma example_holders_read:
  "getHoldersForCoupon (be_index example_bond_env ()) 1
     \<lparr>cs_requireFresh = Some True, cs_maxStalenessMs = None, cs_strict = None, cs_staleness_variable = None\<rparr> example_index =
   (Inr example_holders, example_index)"
  by code_simp

lemma example_steady: "steady example_bond_env 1 7 example_holders (\<lambda>s. bs_index s = example_index)"
  using example_holders_read
  by (auto simp: steady_def next_nonce_def coupon_holders_def invokeContractMethod_def report_problem_def example_bond_env_def)

theorem coupon_batches_cover_witness:
  "\<exists>r s' bs. distributeCoupon example_bond_env 1 3 7 example_state = Some (Inr r, s') \<and>
     batches (invocations (bs_trace s')) = bs \<and> concat (map slice bs) = example_holders"
proof -
  have "length example_holders > 50" by (simp add: example_holders_def)
  moreover have "bs_index example_state = example_index" "bs_trace example_state = []" by (simp_all add: example_state_def)
  ultimately show ?thesis using coupon_batches_cover [OF example_steady, of example_state 3] by fastforce
qed

theorem subscription_effects_witness:
  "let dto = \<lparr>sd_amount = 5, sd_investorAddress = ''B'', sd_tranche = None, sd_jurisdiction = None, sd_attestation = None\<rparr> in
   ''B'' \<in> set (getHolders (hi_data (bs_index (snd (subscribe example_bond_env 1 dto example_state)))) 1)"
proof -
  let ?dto = "\<lparr>sd_amount = 5, sd_investorAddress = ''B'', sd_tranche = None, sd_jurisdiction = None, sd_attestation = None\<rparr>"
  have "case fst (subscribe example_bond_env 1 ?dto example_state) of Inl _ \<Rightarrow> False | Inr _ \<Rightarrow> True" by code_simp
  then have "\<exists>r. fst (subscribe example_bond_env 1 ?dto example_state) = Inr r" by (auto split: sum.splits)
  then show ?thesis using subscription_effects [of example_bond_env example_state 1 ?dto] by simp
qed

subsection \<open>A list that shifts between two batches\<close>

text \<open>
  A contract as the coupon engine behaves: a batch that reaches the end of the list it is given closes
  the period, and a closed period refuses further batches. The world counts the batches and says whether the
  period is closed. Of fifty-two holders the first one has sold its bonds once a batch was paid.
\<close>

definition shifting_invoke :: "invocation \<Rightarrow> nat \<times> bool \<Rightarrow> (bond_error + invocation_result) \<times> nat \<times> bool" where
  "shifting_invoke c w =
     (case w of (k, over) \<Rightarrow>
        if over then (Inl (ContractException (Some 9) [] ''Overflow''), w)
        else (case c of
          Distribute_coupon_batch a i p hs r off m n \<Rightarrow>
            (Inr \<lparr>ir_value = 0, ir_totalCredits = Some 9, ir_holderCount = None, ir_transactionHash = None\<rparr>,
             (Suc k, off + m = int (length hs)))
        | _ \<Rightarrow> (Inl NotAnError, w)))"

definition shifting_env :: "(nat \<times> bool) bond_env" where
  "shifting_env = \<lparr>be_admin = Some ''G'', be_investor_key = True, be_issuer = ''I'', be_couponEngine = ''E'',
     be_nonce = (\<lambda>_ _ w. (Inr 0, w)), be_invoke = shifting_invoke, be_report = None,
     be_index = (\<lambda>w. \<lparr>ce_now = 2, ce_balance = (\<lambda>_ a. Some (if a = ''0'' \<and> fst w > 0 then 0 else 1)), ce_disk_ok = True\<rparr>),
     be_strict = None, be_staleness = None, be_keys = None, be_snapshots = False\<rparr>"

definition shifting_state :: "(nat \<times> bool) bonds_state" where
  "shifting_state = \<lparr>bs_world = (0, False),
     bs_index = example_index\<lparr>hi_data := \<lparr>hd_holders = [(1, map nat_str [0..<52])], hd_knownAddresses = [''A''],
       hd_lastReconciled = [(1, 1)]\<rparr>\<rparr>, bs_engine = None, bs_trace = []\<rparr>"


end
