(* ===== verification/Redis_Client.thy ===== *)
theory Redis_Client
  imports Prelude
begin

text \<open>
  The Redis client of \<open>api/src/common/services/redis.service.ts\<close> and what it means for
  several API processes to use one Redis server at the same time.

  An asynchronous method is a program: a tree of awaited requests, each with the rest of
  the method as a function of the response. \<open>await\<close> is therefore the only place where
  another process can run, exactly as between two Redis commands of the real service. The
  Redis server is a parameter (\<open>exec\<close>, \<open>expire\<close>) whose documented command behaviour is the
  locale \<open>redis_server\<close>; an in-memory server interprets it. A command may succeed, fail
  before it reached the server, or be executed with its reply lost.

  A stored text is represented by the value whose JSON it is; a key holds either a text or
  a set, and the two are kept apart. Besides Redis a program may await an external call
  (an HTTP handler, a contract), whose answers are arbitrary and recorded in a log.

  The second half is a rely-guarantee calculus for such programs: each process is proved
  against what the others may do between its commands, and \<open>rely_guarantee\<close> puts the
  processes together for every schedule.
\<close>

section \<open>Commands and programs\<close>

text \<open>
  \<open>SET key value NX? EX/PX?\<close>; \<open>UNLOCK\<close> is the compare-and-delete script; \<open>INCR\<close> comes with
  the reading of the stored text as a number and the text of its successor.
\<close>

datatype 'v redis_cmd = GET string | SET string 'v bool "int option" | DEL string
  | GETDEL string | SADD string string | SREM string string | SMEMBERS string
  | EXPIRE string int | UNLOCK string 'v | INCR string "'v option \<Rightarrow> int \<times> 'v"

datatype 'v redis_reply = Nil_reply | OK | Val 'v | Number int | Members "string list"

datatype ('v, 'x) request = Redis "'v redis_cmd" | Ext 'x

datatype ('v, 'y) response = Reply "'v redis_reply" | Failed | Answer 'y

datatype ('v, 'x, 'y, 'a) prog = Return 'a
  | Await "('v, 'x) request" "('v, 'y) response \<Rightarrow> ('v, 'x, 'y, 'a) prog"

primrec bind :: "('v, 'x, 'y, 'a) prog \<Rightarrow> ('a \<Rightarrow> ('v, 'x, 'y, 'b) prog) \<Rightarrow> ('v, 'x, 'y, 'b) prog" where
  "bind (Return a) f = f a"
| "bind (Await q k) f = Await q (\<lambda>r. bind (k r) f)"

lemma bind_assoc [simp]: "bind (bind p f) g = bind p (\<lambda>a. bind (f a) g)"
  by (induction p) auto

text \<open>Continue after a call that may throw; its error is rethrown.\<close>

definition bind_ok :: "('v, 'x, 'y, 'e + 'a) prog \<Rightarrow> ('a \<Rightarrow> ('v, 'x, 'y, 'e + 'b) prog) \<Rightarrow>
    ('v, 'x, 'y, 'e + 'b) prog" where
  "bind_ok p f = bind p (\<lambda>r. case r of Inl e \<Rightarrow> Return (Inl e) | Inr a \<Rightarrow> f a)"

fun result_of :: "('v, 'x, 'y, 'a) prog \<Rightarrow> 'a option" where
  "result_of (Return a) = Some a"
| "result_of (Await q k) = None"

lemma result_of_eq [simp]: "result_of p = Some a \<longleftrightarrow> p = Return a"
  by (cases p) auto

section \<open>RedisService\<close>

text \<open>
  Methods that degrade (\<open>logDegraded\<close>) hide a failure behind an empty result; the
  \<open>...OrThrow\<close> methods report it, as the error value given to them.
\<close>

definition redis_get :: "string \<Rightarrow> ('v, 'x, 'y, 'v option) prog" where
  "redis_get k = Await (Redis (GET k))
     (\<lambda>r. Return (case r of Reply (Val v) \<Rightarrow> Some v | _ \<Rightarrow> None))"

definition redis_set :: "string \<Rightarrow> 'v \<Rightarrow> bool \<Rightarrow> int option \<Rightarrow> ('v, 'x, 'y, bool) prog" where
  "redis_set k v nx ttl = Await (Redis (SET k v nx ttl)) (\<lambda>r. Return (r = Reply OK))"

definition redis_setEx :: "string \<Rightarrow> int \<Rightarrow> 'v \<Rightarrow> ('v, 'x, 'y, unit) prog" where
  "redis_setEx k seconds v =
     Await (Redis (SET k v False (Some (1000 * seconds)))) (\<lambda>r. Return ())"

definition redis_del :: "string \<Rightarrow> ('v, 'x, 'y, unit) prog" where
  "redis_del k = Await (Redis (DEL k)) (\<lambda>r. Return ())"

definition redis_getDel :: "'e \<Rightarrow> string \<Rightarrow> ('v, 'x, 'y, 'e + 'v option) prog" where
  "redis_getDel unavailable k = Await (Redis (GETDEL k))
     (\<lambda>r. Return (case r of Failed \<Rightarrow> Inl unavailable | Reply (Val v) \<Rightarrow> Inr (Some v) | _ \<Rightarrow> Inr None))"

definition redis_sAdd :: "string \<Rightarrow> string \<Rightarrow> ('v, 'x, 'y, unit) prog" where
  "redis_sAdd k x = Await (Redis (SADD k x)) (\<lambda>r. Return ())"

definition redis_sRem :: "string \<Rightarrow> string \<Rightarrow> ('v, 'x, 'y, unit) prog" where
  "redis_sRem k x = Await (Redis (SREM k x)) (\<lambda>r. Return ())"

definition redis_sMembers :: "string \<Rightarrow> ('v, 'x, 'y, string list) prog" where
  "redis_sMembers k = Await (Redis (SMEMBERS k))
     (\<lambda>r. Return (case r of Reply (Members xs) \<Rightarrow> xs | _ \<Rightarrow> []))"

definition redis_sMembersOrThrow :: "'e \<Rightarrow> string \<Rightarrow> ('v, 'x, 'y, 'e + string list) prog" where
  "redis_sMembersOrThrow unavailable k = Await (Redis (SMEMBERS k))
     (\<lambda>r. Return (case r of Failed \<Rightarrow> Inl unavailable | Reply (Members xs) \<Rightarrow> Inr xs | _ \<Rightarrow> Inr []))"

definition redis_getOrThrow :: "'e \<Rightarrow> string \<Rightarrow> ('v, 'x, 'y, 'e + 'v option) prog" where
  "redis_getOrThrow unavailable k = Await (Redis (GET k))
     (\<lambda>r. Return (case r of Failed \<Rightarrow> Inl unavailable | Reply (Val v) \<Rightarrow> Inr (Some v) | _ \<Rightarrow> Inr None))"

definition redis_setOrThrow :: "'e \<Rightarrow> string \<Rightarrow> 'v \<Rightarrow> ('v, 'x, 'y, 'e + unit) prog" where
  "redis_setOrThrow unavailable k v = Await (Redis (SET k v False None))
     (\<lambda>r. Return (if r = Failed then Inl unavailable else Inr ()))"

definition redis_acquireLockOrThrow :: "'e \<Rightarrow> string \<Rightarrow> 'v \<Rightarrow> int \<Rightarrow> ('v, 'x, 'y, 'e + bool) prog" where
  "redis_acquireLockOrThrow unavailable k token ttlMs =
     Await (Redis (SET k token True (Some ttlMs)))
     (\<lambda>r. Return (if r = Failed then Inl unavailable else Inr (r = Reply OK)))"

definition redis_releaseLockOrThrow :: "'e \<Rightarrow> string \<Rightarrow> 'v \<Rightarrow> ('v, 'x, 'y, 'e + unit) prog" where
  "redis_releaseLockOrThrow unavailable k token = Await (Redis (UNLOCK k token))
     (\<lambda>r. Return (if r = Failed then Inl unavailable else Inr ()))"

definition redis_incrOrThrow :: "'e \<Rightarrow> ('v option \<Rightarrow> int \<times> 'v) \<Rightarrow> string \<Rightarrow> ('v, 'x, 'y, 'e + int) prog" where
  "redis_incrOrThrow unavailable bump k = Await (Redis (INCR k bump))
     (\<lambda>r. Return (case r of Reply (Number n) \<Rightarrow> Inr n | _ \<Rightarrow> Inl unavailable))"

definition redis_expire :: "string \<Rightarrow> int \<Rightarrow> ('v, 'x, 'y, bool) prog" where
  "redis_expire k seconds = Await (Redis (EXPIRE k (1000 * seconds)))
     (\<lambda>r. Return (r = Reply (Number 1)))"

text \<open>\<open>setNx\<close> stores the text \<open>1\<close>, given here as \<open>one\<close>; \<open>setNxValue\<close> stores any value.\<close>

definition redis_setNxValue :: "string \<Rightarrow> 'v \<Rightarrow> int \<Rightarrow> ('v, 'x, 'y, bool) prog" where
  "redis_setNxValue k v seconds =
     Await (Redis (SET k v True (Some (1000 * seconds)))) (\<lambda>r. Return (r = Reply OK))"

definition redis_setNx :: "'v \<Rightarrow> string \<Rightarrow> int \<Rightarrow> ('v, 'x, 'y, bool) prog" where
  "redis_setNx one k seconds =
     Await (Redis (SET k one True (Some (1000 * seconds)))) (\<lambda>r. Return (r = Reply OK))"

definition cache_index_key :: "string \<Rightarrow> string" where
  "cache_index_key tag = ''cache-index:'' @ tag"

primrec tag_all :: "string \<Rightarrow> string list \<Rightarrow> ('v, 'x, 'y, unit) prog" where
  "tag_all k [] = Return ()"
| "tag_all k (tag # tags) = bind (redis_sAdd (cache_index_key tag) k) (\<lambda>_. tag_all k tags)"

definition redis_cacheSet :: "string \<Rightarrow> int \<Rightarrow> 'v \<Rightarrow> string list \<Rightarrow> ('v, 'x, 'y, unit) prog" where
  "redis_cacheSet k seconds v tags = bind (redis_setEx k seconds v) (\<lambda>_. tag_all k tags)"

primrec del_all :: "string list \<Rightarrow> ('v, 'x, 'y, unit) prog" where
  "del_all [] = Return ()"
| "del_all (k # ks) = bind (redis_del k) (\<lambda>_. del_all ks)"

definition redis_invalidateTag :: "string \<Rightarrow> ('v, 'x, 'y, unit) prog" where
  "redis_invalidateTag tag =
     bind (redis_sMembers (cache_index_key tag)) (\<lambda>ks.
     bind (del_all ks) (\<lambda>_. redis_del (cache_index_key tag)))"

lemmas redis_methods = redis_get_def redis_set_def redis_setEx_def redis_del_def redis_getDel_def
  redis_sAdd_def redis_sRem_def redis_sMembers_def redis_sMembersOrThrow_def redis_getOrThrow_def
  redis_setOrThrow_def redis_acquireLockOrThrow_def redis_releaseLockOrThrow_def redis_incrOrThrow_def redis_expire_def
  redis_setNxValue_def redis_setNx_def

section \<open>The Redis server\<close>

text \<open>Documented effect of a command on the texts and on the sets.\<close>

fun str_after :: "'v redis_cmd \<Rightarrow> (string \<Rightarrow> 'v option) \<Rightarrow> string \<Rightarrow> 'v option" where
  "str_after (SET k v nx ttl) m = (if nx \<and> m k \<noteq> None then m else m(k := Some v))"
| "str_after (DEL k) m = m(k := None)"
| "str_after (GETDEL k) m = m(k := None)"
| "str_after (UNLOCK k v) m = (if m k = Some v then m(k := None) else m)"
| "str_after (INCR k bump) m = m(k := Some (snd (bump (m k))))"
| "str_after _ m = m"

fun mem_after :: "'v redis_cmd \<Rightarrow> (string \<Rightarrow> string set) \<Rightarrow> string \<Rightarrow> string set" where
  "mem_after (SADD k x) f = f(k := insert x (f k))"
| "mem_after (SREM k x) f = f(k := f k - {x})"
| "mem_after (DEL k) f = f(k := {})"
| "mem_after _ f = f"

fun reply_ok :: "'v redis_cmd \<Rightarrow> (string \<Rightarrow> 'v option) \<Rightarrow> (string \<Rightarrow> string set) \<Rightarrow>
    'v redis_reply \<Rightarrow> bool" where
  "reply_ok (GET k) m f r = (r = (case m k of None \<Rightarrow> Nil_reply | Some v \<Rightarrow> Val v))"
| "reply_ok (GETDEL k) m f r = (r = (case m k of None \<Rightarrow> Nil_reply | Some v \<Rightarrow> Val v))"
| "reply_ok (SET k v nx ttl) m f r = (r = (if nx \<and> m k \<noteq> None then Nil_reply else OK))"
| "reply_ok (SMEMBERS k) m f r = (\<exists>xs. r = Members xs \<and> set xs = f k \<and> distinct xs)"
| "reply_ok (INCR k bump) m f r = (r = Number (fst (bump (m k))))"
| "reply_ok _ m f r = True"

locale redis_server =
  fixes exec :: "'v redis_cmd \<Rightarrow> 's \<Rightarrow> 'v redis_reply \<times> 's"
    and expire :: "string \<Rightarrow> 's \<Rightarrow> 's"
    and str :: "'s \<Rightarrow> string \<Rightarrow> 'v option"
    and mem :: "'s \<Rightarrow> string \<Rightarrow> string set"
  assumes str_exec: "str (snd (exec c s)) = str_after c (str s)"
    and mem_exec: "mem (snd (exec c s)) = mem_after c (mem s)"
    and reply_exec: "reply_ok c (str s) (mem s) (fst (exec c s))"
    and str_expire: "str (expire k s) = (str s)(k := None)"
    and mem_expire: "mem (expire k s) = (mem s)(k := {})"

text \<open>An in-memory server with these commands.\<close>

record 'v memory_redis =
  texts :: "(string, 'v) js_map"
  groups :: "(string, string list) js_map"

definition group :: "'v memory_redis \<Rightarrow> string \<Rightarrow> string list" where
  "group s k = (case map_of (groups s) k of None \<Rightarrow> [] | Some xs \<Rightarrow> xs)"

definition text_reply :: "'v memory_redis \<Rightarrow> string \<Rightarrow> 'v redis_reply" where
  "text_reply s k = (case map_of (texts s) k of None \<Rightarrow> Nil_reply | Some v \<Rightarrow> Val v)"

definition forget :: "string \<Rightarrow> 'v memory_redis \<Rightarrow> 'v memory_redis" where
  "forget k s = s\<lparr>texts := js_delete k (texts s), groups := js_delete k (groups s)\<rparr>"

fun memory_exec :: "'v redis_cmd \<Rightarrow> 'v memory_redis \<Rightarrow> 'v redis_reply \<times> 'v memory_redis" where
  "memory_exec (GET k) s = (text_reply s k, s)"
| "memory_exec (SET k v nx ttl) s =
     (if nx \<and> map_of (texts s) k \<noteq> None then (Nil_reply, s)
      else (OK, s\<lparr>texts := js_set k v (texts s)\<rparr>))"
| "memory_exec (DEL k) s = (Number 1, forget k s)"
| "memory_exec (GETDEL k) s = (text_reply s k, s\<lparr>texts := js_delete k (texts s)\<rparr>)"
| "memory_exec (SADD k x) s = (Number 1, s\<lparr>groups := js_set k (List.insert x (group s k)) (groups s)\<rparr>)"
| "memory_exec (SREM k x) s = (Number 1, s\<lparr>groups := js_set k (filter (\<lambda>y. y \<noteq> x) (group s k)) (groups s)\<rparr>)"
| "memory_exec (SMEMBERS k) s = (Members (remdups (group s k)), s)"
| "memory_exec (EXPIRE k ttl) s = (Number 1, s)"
| "memory_exec (UNLOCK k v) s =
     (if map_of (texts s) k = Some v then (Number 1, s\<lparr>texts := js_delete k (texts s)\<rparr>)
      else (Number 0, s))"
| "memory_exec (INCR k bump) s =
     (Number (fst (bump (map_of (texts s) k))),
      s\<lparr>texts := js_set k (snd (bump (map_of (texts s) k))) (texts s)\<rparr>)"

definition empty_redis :: "'v memory_redis" where
  "empty_redis = \<lparr>texts = [], groups = []\<rparr>"

interpretation memory: redis_server memory_exec forget "\<lambda>s. map_of (texts s)" "\<lambda>s k. set (group s k)"
proof unfold_locales
  fix c :: "'v redis_cmd" and s :: "'v memory_redis" and k :: string
  show "map_of (texts (snd (memory_exec c s))) = str_after c (map_of (texts s))"
    by (cases c) (auto simp: js_map_simps forget_def)
  show "(\<lambda>k. set (group (snd (memory_exec c s)) k)) = mem_after c (\<lambda>k. set (group s k))"
    by (cases c) (auto simp: js_map_simps forget_def group_def fun_eq_iff)
  show "reply_ok c (map_of (texts s)) (\<lambda>k. set (group s k)) (fst (memory_exec c s))"
    by (cases c) (auto simp: text_reply_def)
  show "map_of (texts (forget k s)) = (map_of (texts s))(k := None)"
    by (simp add: forget_def js_map_simps)
  show "(\<lambda>k'. set (group (forget k s) k')) = (\<lambda>k'. set (group s k'))(k := {})"
    by (auto simp: forget_def js_map_simps group_def fun_eq_iff)
qed

section \<open>Processes sharing one server\<close>

text \<open>
  One event of a schedule: process \<open>i\<close> gets its next Redis reply (\<open>Deliver\<close>), sees an
  error because the command never arrived (\<open>Refuse\<close>) or because its reply was lost
  (\<open>Lose\<close>), or gets an answer of an external call; or a key expires.
\<close>

datatype 'y event = Deliver nat | Refuse nat | Lose nat | Respond nat 'y | Expire string

type_synonym ('x, 'y) call_log = "(nat \<times> 'x \<times> 'y) list"

datatype ('s, 'x, 'y) world = World (server: 's) (calls: "('x, 'y) call_log")

fun sys_step :: "('v redis_cmd \<Rightarrow> 's \<Rightarrow> 'v redis_reply \<times> 's) \<Rightarrow> (string \<Rightarrow> 's \<Rightarrow> 's) \<Rightarrow> 'y event \<Rightarrow>
    ('s, 'x, 'y) world \<times> ('v, 'x, 'y, 'a) prog list \<Rightarrow> ('s, 'x, 'y) world \<times> ('v, 'x, 'y, 'a) prog list" where
  "sys_step exec expire (Expire k) (World s lg, ps) = (World (expire k s) lg, ps)"
| "sys_step exec expire (Deliver i) (World s lg, ps) =
     (if i < length ps then case ps ! i of
        Await (Redis c) f \<Rightarrow> (let (r, s') = exec c s in (World s' lg, ps[i := f (Reply r)]))
      | _ \<Rightarrow> (World s lg, ps) else (World s lg, ps))"
| "sys_step exec expire (Refuse i) (World s lg, ps) =
     (if i < length ps then case ps ! i of
        Await (Redis c) f \<Rightarrow> (World s lg, ps[i := f Failed])
      | _ \<Rightarrow> (World s lg, ps) else (World s lg, ps))"
| "sys_step exec expire (Lose i) (World s lg, ps) =
     (if i < length ps then case ps ! i of
        Await (Redis c) f \<Rightarrow> (World (snd (exec c s)) lg, ps[i := f Failed])
      | _ \<Rightarrow> (World s lg, ps) else (World s lg, ps))"
| "sys_step exec expire (Respond i y) (World s lg, ps) =
     (if i < length ps then case ps ! i of
        Await (Ext x) f \<Rightarrow> (World s (lg @ [(i, x, y)]), ps[i := f (Answer y)])
      | _ \<Rightarrow> (World s lg, ps) else (World s lg, ps))"

fun sys_run :: "('v redis_cmd \<Rightarrow> 's \<Rightarrow> 'v redis_reply \<times> 's) \<Rightarrow> (string \<Rightarrow> 's \<Rightarrow> 's) \<Rightarrow> 'y event list \<Rightarrow>
    ('s, 'x, 'y) world \<times> ('v, 'x, 'y, 'a) prog list \<Rightarrow> ('s, 'x, 'y) world \<times> ('v, 'x, 'y, 'a) prog list" where
  "sys_run exec expire [] c = c"
| "sys_run exec expire (e # es) c = sys_run exec expire es (sys_step exec expire e c)"

text \<open>A program run alone, without failures, its external calls answered by \<open>ans\<close>.\<close>

primrec run_alone :: "('v redis_cmd \<Rightarrow> 's \<Rightarrow> 'v redis_reply \<times> 's) \<Rightarrow> ('x \<Rightarrow> 'y) \<Rightarrow>
    ('v, 'x, 'y, 'a) prog \<Rightarrow> 's \<Rightarrow> 'a \<times> 's" where
  "run_alone exec ans (Return a) = (\<lambda>s. (a, s))"
| "run_alone exec ans (Await q f) = (\<lambda>s. case q of
      Redis c \<Rightarrow> (case exec c s of (r, s') \<Rightarrow> run_alone exec ans (f (Reply r)) s')
    | Ext x \<Rightarrow> run_alone exec ans (f (Answer (ans x))) s)"

lemma run_alone_bind:
  "run_alone exec ans (bind p f) s =
     (case run_alone exec ans p s of (a, s') \<Rightarrow> run_alone exec ans (f a) s')"
  by (induction p arbitrary: s) (auto split: request.splits prod.splits)

section \<open>Rely and guarantee\<close>

text \<open>
  \<open>outcomes exec ok i q w\<close>: the responses process \<open>i\<close> may get to its request \<open>q\<close> in world
  \<open>w\<close>, with the world after it, external answers being limited to \<open>ok\<close>.
\<close>

fun outcomes :: "('v redis_cmd \<Rightarrow> 's \<Rightarrow> 'v redis_reply \<times> 's) \<Rightarrow> ('y \<Rightarrow> bool) \<Rightarrow> nat \<Rightarrow> ('v, 'x) request \<Rightarrow>
    ('s, 'x, 'y) world \<Rightarrow> (('v, 'y) response \<times> ('s, 'x, 'y) world) set" where
  "outcomes exec ok i (Redis c) (World s lg) =
     {(Reply (fst (exec c s)), World (snd (exec c s)) lg), (Failed, World s lg), (Failed, World (snd (exec c s)) lg)}"
| "outcomes exec ok i (Ext x) (World s lg) = {(Answer y, World s (lg @ [(i, x, y)])) |y. ok y}"

type_synonym ('s, 'x, 'y) rel = "('s, 'x, 'y) world \<Rightarrow> ('s, 'x, 'y) world \<Rightarrow> bool"

primrec rg :: "('v redis_cmd \<Rightarrow> 's \<Rightarrow> 'v redis_reply \<times> 's) \<Rightarrow> ('y \<Rightarrow> bool) \<Rightarrow> nat \<Rightarrow>
    ('s, 'x, 'y) rel \<Rightarrow> ('s, 'x, 'y) rel \<Rightarrow> ('a \<Rightarrow> ('s, 'x, 'y) world \<Rightarrow> bool) \<Rightarrow>
    ('v, 'x, 'y, 'a) prog \<Rightarrow> ('s, 'x, 'y) world \<Rightarrow> bool" where
  "rg exec ok i R G Q (Return a) = (\<lambda>w. \<forall>w'. R w w' \<longrightarrow> Q a w')"
| "rg exec ok i R G Q (Await q f) = (\<lambda>w. \<forall>w'. R w w' \<longrightarrow>
     (\<forall>r w''. (r, w'') \<in> outcomes exec ok i q w' \<longrightarrow> G w' w'' \<and> rg exec ok i R G Q (f r) w''))"


text \<open>
  What the processes must respect: relies are preorders, a step of one process is allowed by
  the relies of the others, and so is the expiry of a volatile key.
\<close>

definition compatible :: "nat \<Rightarrow> (string \<Rightarrow> 's \<Rightarrow> 's) \<Rightarrow> (string \<Rightarrow> bool) \<Rightarrow> (nat \<Rightarrow> ('s, 'x, 'y) rel) \<Rightarrow>
    (nat \<Rightarrow> ('s, 'x, 'y) rel) \<Rightarrow> bool" where
  "compatible n expire vol R G \<longleftrightarrow>
     (\<forall>i. reflp (R i) \<and> transp (R i)) \<and>
     (\<forall>i < n. \<forall>j < n. \<forall>w w'. i \<noteq> j \<longrightarrow> G j w w' \<longrightarrow> R i w w') \<and>
     (\<forall>i k s lg. vol k \<longrightarrow> R i (World s lg) (World (expire k s) lg))"

lemma compatibleI:
  assumes "\<And>i. reflp (R i)" "\<And>i. transp (R i)"
    and "\<And>i j w w'. i < n \<Longrightarrow> j < n \<Longrightarrow> i \<noteq> j \<Longrightarrow> G j w w' \<Longrightarrow> R i w w'"
    and "\<And>i k s lg. vol k \<Longrightarrow> R i (World s lg) (World (expire k s) lg)"
  shows "compatible n expire vol R G"
  using assms by (simp add: compatible_def)

lemma compatibleD:
  assumes "compatible n expire vol R G"
  shows "reflp (R i)" "transp (R i)" "i < n \<Longrightarrow> j < n \<Longrightarrow> i \<noteq> j \<Longrightarrow> G j w w' \<Longrightarrow> R i w w'"
    and "vol k \<Longrightarrow> R i (World s lg) (World (expire k s) lg)"
  using assms by (auto simp: compatible_def)

fun permitted :: "('y \<Rightarrow> bool) \<Rightarrow> (string \<Rightarrow> bool) \<Rightarrow> 'y event \<Rightarrow> bool" where
  "permitted ok vol (Respond i y) = ok y"
| "permitted ok vol (Expire k) = vol k"
| "permitted ok vol _ = True"

lemma rg_stable:
  assumes "transp (R :: ('s, 'x, 'y) rel)" "rg exec ok i R G Q p w" "R w w'"
  shows "rg exec ok i R G Q p w'"
  using assms by (cases p) (auto dest: transpD)

lemma rg_bind:
  assumes "reflp (R :: ('s, 'x, 'y) rel)"
  shows "rg exec ok i R G (\<lambda>a. rg exec ok i R G Q (f a)) p w \<Longrightarrow> rg exec ok i R G Q (bind p f) w"
proof (induction p arbitrary: w)
  case (Return a)
  with assms show ?case by (simp add: reflpD)
next
  case (Await q k)
  then show ?case by simp
qed

lemma rg_weaken:
  assumes "\<And>a w. Q a w \<Longrightarrow> Q' a w"
  shows "rg exec ok i R G Q p w \<Longrightarrow> rg exec ok i R G Q' p w"
proof (induction p arbitrary: w)
  case (Return a)
  with assms show ?case by simp
next
  case (Await q k)
  then show ?case by auto
qed

text \<open>The effect of an event is an outcome of the process it concerns.\<close>

lemma sys_step_cases:
  assumes "sys_step exec expire e (w, ps) = (w', ps')" "permitted ok vol e"
  obtains (none) "w' = w" "ps' = ps"
  | (expire) k where "vol k" "w' = World (expire k (server w)) (calls w)" "ps' = ps"
  | (outcome) i q f r where "i < length ps" "ps ! i = Await q f" "(r, w') \<in> outcomes exec ok i q w"
      "ps' = ps[i := f r]"
proof -
  obtain s lg where w: "w = World s lg" by (cases w)
  define goal where "goal \<longleftrightarrow> w' = w \<and> ps' = ps \<or>
    (\<exists>k. vol k \<and> w' = World (expire k s) lg \<and> ps' = ps) \<or>
    (\<exists>i q f r. i < length ps \<and> ps ! i = Await q f \<and> (r, w') \<in> outcomes exec ok i q w \<and> ps' = ps[i := f r])"
  have goal
  proof (cases e)
    case (Deliver i)
    then show goal using assms(1) unfolding goal_def w
      by (cases "ps ! i"; cases "i < length ps") (force split: request.splits simp: split_beta Let_def)+
  next
    case (Refuse i)
    then show goal using assms(1) unfolding goal_def w
      by (cases "ps ! i"; cases "i < length ps") (force split: request.splits)+
  next
    case (Lose i)
    then show goal using assms(1) unfolding goal_def w
      by (cases "ps ! i"; cases "i < length ps") (force split: request.splits)+
  next
    case (Respond i y)
    then show goal using assms unfolding goal_def w
      by (cases "ps ! i"; cases "i < length ps") (force split: request.splits)+
  next
    case (Expire k)
    then show goal using assms unfolding goal_def w by auto
  qed
  with that show thesis unfolding goal_def w by auto
qed

lemma length_sys_step:
  assumes "sys_step exec expire e (w, ps) = (w', ps')"
  shows "length ps' = length ps"
proof -
  have "permitted (\<lambda>_. True) (\<lambda>_. True) e" by (cases e) auto
  with assms show ?thesis by (cases rule: sys_step_cases) auto
qed

lemma length_sys_run:
  "sys_run exec expire es (w, ps) = (w', ps') \<Longrightarrow> length ps' = length ps"
proof (induction es arbitrary: w ps)
  case (Cons e es)
  obtain w1 ps1 where step: "sys_step exec expire e (w, ps) = (w1, ps1)" by fastforce
  with Cons show ?case by (auto dest: length_sys_step)
qed simp

text \<open>
  Under every schedule whose answers and expiries are permitted, each process stays within
  its guarantee, and an invariant kept by all guarantees and expiries is kept.
\<close>

definition all_rg :: "('v redis_cmd \<Rightarrow> 's \<Rightarrow> 'v redis_reply \<times> 's) \<Rightarrow> ('y \<Rightarrow> bool) \<Rightarrow>
    (nat \<Rightarrow> ('s, 'x, 'y) rel) \<Rightarrow> (nat \<Rightarrow> ('s, 'x, 'y) rel) \<Rightarrow> (nat \<Rightarrow> 'a \<Rightarrow> ('s, 'x, 'y) world \<Rightarrow> bool) \<Rightarrow>
    ('v, 'x, 'y, 'a) prog list \<Rightarrow> ('s, 'x, 'y) world \<Rightarrow> bool" where
  "all_rg exec ok R G Q ps w \<longleftrightarrow>
     (\<forall>i < length ps. rg exec ok i (R i) (G i) (Q i) (ps ! i) w)"

lemma rg_step:
  assumes comp: "compatible (length ps) expire vol R G" and all: "all_rg exec ok R G Q ps w"
    and step: "sys_step exec expire e (w, ps) = (w', ps')" "permitted ok vol e"
    and guarantees: "\<And>i w w'. i < length ps \<Longrightarrow> G i w w' \<Longrightarrow> I w \<Longrightarrow> I w'"
    and expiry: "\<And>k s lg. vol k \<Longrightarrow> I (World s lg) \<Longrightarrow> I (World (expire k s) lg)"
    and "I w"
  shows "all_rg exec ok R G Q ps' w' \<and> I w'"
  using step
proof (cases rule: sys_step_cases)
  case none
  with all \<open>I w\<close> show ?thesis by simp
next
  case (expire k)
  have "R i w w'" for i
    using compatibleD(4) [OF comp expire(1), of i "server w" "calls w"] expire(2) by simp
  moreover have "I w'" using expiry [OF expire(1), of "server w" "calls w"] \<open>I w\<close> expire(2) by simp
  ultimately show ?thesis using all compatibleD(2) [OF comp] expire(3)
    unfolding all_rg_def by (metis rg_stable)
next
  case (outcome i q f r)
  have "rg exec ok i (R i) (G i) (Q i) (Await q f) w" using all outcome by (auto simp: all_rg_def)
  moreover have "R i w w" using compatibleD(1) [OF comp] by (rule reflpD)
  ultimately have here: "G i w w'" "rg exec ok i (R i) (G i) (Q i) (f r) w'" using outcome(3) by auto
  have "rg exec ok j (R j) (G j) (Q j) (ps ! j) w'" if "j \<noteq> i" "j < length ps" for j
    using that all compatibleD(2) [OF comp] compatibleD(3) [OF comp that(2) outcome(1) that(1) here(1)]
    unfolding all_rg_def by (metis rg_stable)
  with here outcome \<open>I w\<close> guarantees show ?thesis by (auto simp: all_rg_def nth_list_update)
qed

theorem rely_guarantee:
  assumes comp: "compatible (length ps) expire vol R G" and "all_rg exec ok R G Q ps w"
    and "list_all (permitted ok vol) es"
    and guarantees: "\<And>i w w'. i < length ps \<Longrightarrow> G i w w' \<Longrightarrow> I w \<Longrightarrow> I w'"
    and expiry: "\<And>k s lg. vol k \<Longrightarrow> I (World s lg) \<Longrightarrow> I (World (expire k s) lg)"
    and "I w" and "sys_run exec expire es (w, ps) = (w', ps')"
  shows "all_rg exec ok R G Q ps' w' \<and> I w'"
  using assms
proof (induction es arbitrary: w ps)
  case (Cons e es)
  obtain w1 ps1 where step: "sys_step exec expire e (w, ps) = (w1, ps1)" by fastforce
  have "permitted ok vol e" using Cons.prems by simp
  then have "all_rg exec ok R G Q ps1 w1 \<and> I w1"
    by (rule rg_step [where I = I, OF Cons.prems(1,2) step])
       (fact Cons.prems(4), fact Cons.prems(5), fact Cons.prems(6))
  moreover have "length ps1 = length ps" using step by (rule length_sys_step)
  ultimately show ?case using Cons.prems step by (intro Cons.IH [of ps1 w1]) auto
qed simp

text \<open>The value a finished process returned satisfies its postcondition.\<close>

lemma all_rg_result:
  assumes "all_rg exec ok R G Q ps w" "compatible n expire vol R G" "i < length ps" "ps ! i = Return a"
  shows "Q i a w"
proof -
  have "rg exec ok i (R i) (G i) (Q i) (Return a) w" using assms(1,3,4) by (auto simp: all_rg_def)
  then show ?thesis using reflpD [OF compatibleD(1) [OF assms(2)]] by auto
qed


lemma all_world: "(\<forall>w. P w) \<longleftrightarrow> (\<forall>s lg. P (World s lg))"
  by (metis world.exhaust)

lemma rg_Redis:
  "rg exec ok i R G Q (Await (Redis c) f) w \<longleftrightarrow>
     (\<forall>s lg. R w (World s lg) \<longrightarrow>
        G (World s lg) (World s lg) \<and> G (World s lg) (World (snd (exec c s)) lg) \<and>
        rg exec ok i R G Q (f Failed) (World s lg) \<and>
        rg exec ok i R G Q (f Failed) (World (snd (exec c s)) lg) \<and>
        rg exec ok i R G Q (f (Reply (fst (exec c s)))) (World (snd (exec c s)) lg))"
  by (subst rg.simps, subst all_world, subst outcomes.simps) (simp add: all_conj_distrib, blast)

lemma rg_Ext:
  "rg exec ok i R G Q (Await (Ext x) f) w \<longleftrightarrow>
     (\<forall>s lg y. R w (World s lg) \<longrightarrow> ok y \<longrightarrow>
        G (World s lg) (World s (lg @ [(i, x, y)])) \<and>
        rg exec ok i R G Q (f (Answer y)) (World s (lg @ [(i, x, y)])))"
  by (subst rg.simps, subst all_world, subst outcomes.simps) blast


section \<open>Proof rules for processes of a Redis server\<close>

text \<open>
  What a process has to respect when the relies \<open>R\<close> of all processes are given: the
  invariant and the relies of the others.
\<close>

definition mindful :: "nat \<Rightarrow> (('s, 'x, 'y) world \<Rightarrow> bool) \<Rightarrow> (nat \<Rightarrow> ('s, 'x, 'y) rel) \<Rightarrow> nat \<Rightarrow>
    ('s, 'x, 'y) rel" where
  "mindful n I R j w w' \<longleftrightarrow> (I w \<longrightarrow> I w') \<and> (\<forall>i < n. i \<noteq> j \<longrightarrow> R i w w')"

lemma mindfulI:
  "(I w \<Longrightarrow> I w') \<Longrightarrow> (\<And>i. i < n \<Longrightarrow> i \<noteq> j \<Longrightarrow> R i w w') \<Longrightarrow> mindful n I R j w w'"
  by (simp add: mindful_def)

theorem mindful_processes:
  assumes preorder: "\<And>i. reflp (R i)" "\<And>i. transp (R i)"
    and expiry: "\<And>i k s lg. vol k \<Longrightarrow> R i (World s lg) (World (expire k s) lg)"
      "\<And>k s lg. vol k \<Longrightarrow> I (World s lg) \<Longrightarrow> I (World (expire k s) lg)"
    and processes: "all_rg exec ok R (mindful (length ps) I R) Q ps w"
    and "list_all (permitted ok vol) es" "I w" "sys_run exec expire es (w, ps) = (w', ps')"
  shows "I w'" and "i < length ps \<Longrightarrow> ps' ! i = Return a \<Longrightarrow> Q i a w'"
proof -
  have comp: "compatible (length ps) expire vol R (mindful (length ps) I R)"
    by (rule compatibleI) (use preorder expiry in \<open>auto simp: mindful_def\<close>)
  have "all_rg exec ok R (mindful (length ps) I R) Q ps' w' \<and> I w'"
    by (rule rely_guarantee [where I = I, OF comp processes assms(6) _ _ assms(7,8)])
       (use expiry in \<open>auto simp: mindful_def\<close>)
  moreover have "length ps' = length ps" using assms(8) by (rule length_sys_run)
  ultimately show "I w'" and "i < length ps \<Longrightarrow> ps' ! i = Return a \<Longrightarrow> Q i a w'"
    using all_rg_result [OF _ comp, of exec ok Q ps' w' i a] by auto
qed

definition updates :: "('s \<Rightarrow> string \<Rightarrow> 'v option) \<Rightarrow> ('s \<Rightarrow> string \<Rightarrow> string set) \<Rightarrow> 'v redis_cmd \<Rightarrow>
    ('s, 'x, 'y) world \<Rightarrow> ('s, 'x, 'y) world \<Rightarrow> bool" where
  "updates str mem c w w' \<longleftrightarrow> str (server w') = str_after c (str (server w)) \<and>
     mem (server w') = mem_after c (mem (server w)) \<and> calls w' = calls w"

context redis_server
begin

lemma rg_cmd:
  assumes "\<And>w'. R w w' \<Longrightarrow> G w' w' \<and> rg exec ok i R G Q (f Failed) w'"
    and "\<And>w' w''. R w w' \<Longrightarrow> updates str mem c w' w'' \<Longrightarrow> G w' w'' \<and> rg exec ok i R G Q (f Failed) w''"
    and "\<And>w' w'' r. R w w' \<Longrightarrow> updates str mem c w' w'' \<Longrightarrow> reply_ok c (str (server w')) (mem (server w')) r \<Longrightarrow>
          rg exec ok i R G Q (f (Reply r)) w''"
  shows "rg exec ok i R G Q (Await (Redis c) f) w"
proof -
  have "updates str mem c (World s lg) (World (snd (exec c s)) lg)" for s and lg :: "('x, 'y) call_log"
    by (simp add: updates_def str_exec mem_exec)
  then show ?thesis unfolding rg_Redis using assms reply_exec by (metis world.sel(1))
qed


lemma alone_get:
  "run_alone exec ans (redis_get k) s = (str s k, snd (exec (GET k) s))"
  using reply_exec [of "GET k" s] by (simp add: redis_get_def split_beta split: option.splits)

lemma alone_setEx:
  "run_alone exec ans (redis_setEx k ttl v) s = ((), snd (exec (SET k v False (Some (1000 * ttl))) s))"
  by (simp add: redis_setEx_def split_beta)

lemma alone_del: "run_alone exec ans (redis_del k) s = ((), snd (exec (DEL k) s))"
  by (simp add: redis_del_def split_beta)

lemma alone_set:
  "run_alone exec ans (redis_set k v False ttl) s = (True, snd (exec (SET k v False ttl) s))"
  using reply_exec [of "SET k v False ttl" s] by (simp add: redis_set_def split_beta)

lemma alone_sAdd: "run_alone exec ans (redis_sAdd k x) s = ((), snd (exec (SADD k x) s))"
  by (simp add: redis_sAdd_def split_beta)

lemma alone_sRem: "run_alone exec ans (redis_sRem k x) s = ((), snd (exec (SREM k x) s))"
  by (simp add: redis_sRem_def split_beta)

lemmas alone_simps = run_alone_bind alone_get alone_setEx alone_set alone_sAdd alone_sRem alone_del
  str_exec mem_exec split_beta

end


end
