(* ===== verification/Idempotency.thy ===== *)
theory Idempotency
  imports Redis_Client Canonical_Json
begin

text \<open>
  Idempotency keys: \<open>api/src/common/services/idempotency.service.ts\<close> and the interceptor
  \<open>api/src/common/interceptors/idempotency.interceptor.ts\<close> that runs it around a mutating
  route. Requests are processes sharing one Redis server; the route handler is the external
  call, its log entry the execution of the mutation. The interceptor is modelled from the
  point where the route is decorated and the header holds a key. The record of a finished
  handler is written without being awaited by the HTTP response; as nothing in the process
  depends on that order, the write is placed before the response.
\<close>

section \<open>Records\<close>

datatype IdempotencyStatus = Pending | Success | Errored

text \<open>The stored result: what the handler returned, or the message of its error.\<close>

datatype 'r stored_result = Value 'r | Message string

record 'r IdempotencyRecord =
  status :: IdempotencyStatus
  fingerprint :: string
  stored :: "'r stored_result option"
  transactionHash :: "string option"
  statusCode :: "int option"
  owner :: "string option"
  createdAt :: instant

text \<open>
  A value under an idempotency key: a record, or the text \<open>1\<close> of a retry claim (the keys
  \<open>a:retry\<close> and \<open>a\<close> share the key space), which parses to a number without these fields.
\<close>

datatype 'r idem_value = Rec "'r IdempotencyRecord" | One

fun value_status :: "'r idem_value \<Rightarrow> IdempotencyStatus option" where
  "value_status (Rec r) = Some (status r)"
| "value_status One = None"

fun value_fingerprint :: "'r idem_value \<Rightarrow> string option" where
  "value_fingerprint (Rec r) = Some (fingerprint r)"
| "value_fingerprint One = None"

fun value_owner :: "'r idem_value \<Rightarrow> string option" where
  "value_owner (Rec r) = owner r"
| "value_owner One = None"

fun value_transactionHash :: "'r idem_value \<Rightarrow> string option" where
  "value_transactionHash (Rec r) = transactionHash r"
| "value_transactionHash One = None"

fun value_statusCode :: "'r idem_value \<Rightarrow> int option" where
  "value_statusCode (Rec r) = statusCode r"
| "value_statusCode One = None"

fun value_createdAt :: "'r idem_value \<Rightarrow> instant option" where
  "value_createdAt (Rec r) = Some (createdAt r)"
| "value_createdAt One = None"

fun value_result :: "'r idem_value \<Rightarrow> 'r stored_result option" where
  "value_result (Rec r) = stored r"
| "value_result One = None"

section \<open>IdempotencyService\<close>

definition DEFAULT_TTL_SECONDS :: int where "DEFAULT_TTL_SECONDS = 86400"

definition RETRY_CLAIM_TTL_SECONDS :: int where "RETRY_CLAIM_TTL_SECONDS = 60"

definition keyOf :: "string \<Rightarrow> string" where
  "keyOf key = ''idem:'' @ key"

definition retryClaimOf :: "string \<Rightarrow> string" where
  "retryClaimOf key = ''idem:'' @ key @ '':retry''"

text \<open>The other programs of this theory await the route handler under the key's name.\<close>

type_synonym ('r, 'y, 'a) idem_prog = "('r idem_value, string, 'y, 'a) prog"

definition idem_get :: "string \<Rightarrow> ('r, 'y, 'r idem_value option) idem_prog" where
  "idem_get key = redis_get (keyOf key)"

definition pending_record :: "string \<Rightarrow> string option \<Rightarrow> instant \<Rightarrow> 'r IdempotencyRecord" where
  "pending_record fp own now = \<lparr>status = Pending, fingerprint = fp, stored = None,
     transactionHash = None, statusCode = None, owner = own, createdAt = now\<rparr>"

definition markPending :: "string \<Rightarrow> string \<Rightarrow> string \<Rightarrow> instant \<Rightarrow> ('r, 'y, bool) idem_prog" where
  "markPending key fp own now =
     bind (redis_setNxValue (keyOf key) (Rec (pending_record fp (Some own) now)) DEFAULT_TTL_SECONDS)
     (\<lambda>created. if created then Return True else
     bind (idem_get key) (\<lambda>current. Return (case current of None \<Rightarrow> False
       | Some v \<Rightarrow> value_status v = Some Pending \<and> value_owner v = Some own)))"

definition claimRetry :: "string \<Rightarrow> string \<Rightarrow> instant \<Rightarrow> ('r, 'y, bool) idem_prog" where
  "claimRetry key fp now =
     bind (redis_setNxValue (retryClaimOf key) One RETRY_CLAIM_TTL_SECONDS)
     (\<lambda>claimed. if \<not> claimed then Return False else
     bind (idem_get key) (\<lambda>current.
       if (case current of None \<Rightarrow> True
           | Some v \<Rightarrow> value_status v \<noteq> Some Errored \<or> value_fingerprint v \<noteq> Some fp)
       then bind (redis_del (retryClaimOf key)) (\<lambda>_. Return False)
       else bind (redis_setEx (keyOf key) DEFAULT_TTL_SECONDS (Rec (pending_record fp None now)))
            (\<lambda>_. Return True)))"

text \<open>\<open>txHash\<close> reads \<open>result?.transactionHash\<close>.\<close>

fun result_hash :: "('r \<Rightarrow> string option) \<Rightarrow> 'r stored_result \<Rightarrow> string option" where
  "result_hash txHash (Value r) = txHash r"
| "result_hash txHash (Message m) = None"

definition or_else :: "'a option \<Rightarrow> 'a option \<Rightarrow> 'a option" where
  "or_else x y = (case x of None \<Rightarrow> y | Some _ \<Rightarrow> x)"

definition completed_record :: "('r \<Rightarrow> string option) \<Rightarrow> IdempotencyStatus \<Rightarrow> 'r stored_result \<Rightarrow>
    int option \<Rightarrow> string option \<Rightarrow> instant \<Rightarrow> 'r idem_value option \<Rightarrow> 'r IdempotencyRecord" where
  "completed_record txHash st res code fp now existing =
     \<lparr>status = st,
      fingerprint = (case or_else fp (Option.bind existing value_fingerprint) of
                       None \<Rightarrow> [] | Some f \<Rightarrow> f),
      stored = Some res,
      transactionHash = or_else (result_hash txHash res) (Option.bind existing value_transactionHash),
      statusCode = or_else (or_else code (Option.bind existing value_statusCode)) (Some 200),
      owner = None,
      createdAt = (case Option.bind existing value_createdAt of None \<Rightarrow> now | Some t \<Rightarrow> t)\<rparr>"

definition complete :: "('r \<Rightarrow> string option) \<Rightarrow> string \<Rightarrow> IdempotencyStatus \<Rightarrow> 'r stored_result \<Rightarrow>
    int option \<Rightarrow> string option \<Rightarrow> instant \<Rightarrow> ('r, 'y, unit) idem_prog" where
  "complete txHash key st res code fp now =
     bind (idem_get key) (\<lambda>existing.
     bind (redis_setEx (keyOf key) DEFAULT_TTL_SECONDS
             (Rec (completed_record txHash st res code fp now existing))) (\<lambda>_.
     redis_del (retryClaimOf key)))"

definition fingerprintOf :: "(string \<Rightarrow> string) \<Rightarrow> string \<Rightarrow> string \<Rightarrow> JsonValue \<Rightarrow> string" where
  "fingerprintOf sha256 mthd path body =
     sha256 (json_stringify (JObj [(''method'', JStr mthd), (''path'', JStr path), (''body'', body)]))"

section \<open>The interceptor\<close>

datatype 'r handler_outcome = Returned 'r int | Threw string int

datatype idem_error = PayloadConflict | InProgress | StateUnavailable | HandlerFailed string

text \<open>A response: the result and the status code set on it.\<close>

type_synonym 'r idem_response = "'r stored_result option \<times> int option"

type_synonym 'r intercept_prog =
  "('r, 'r handler_outcome, idem_error + 'r idem_response) idem_prog"

definition execute :: "('r \<Rightarrow> string option) \<Rightarrow> string \<Rightarrow> string \<Rightarrow> instant \<Rightarrow> 'r intercept_prog" where
  "execute txHash key fp now = Await (Ext key) (\<lambda>r. case r of
      Answer (Returned x code) \<Rightarrow>
        bind (complete txHash key Success (Value x) (Some code) (Some fp) now)
        (\<lambda>_. Return (Inr (Some (Value x), Some code)))
    | Answer (Threw msg code) \<Rightarrow>
        bind (complete txHash key Errored (Message msg) (Some code) (Some fp) now)
        (\<lambda>_. Return (Inl (HandlerFailed msg)))
    | _ \<Rightarrow> Return (Inl StateUnavailable))"

definition replay :: "'r idem_value \<Rightarrow> 'r intercept_prog" where
  "replay v = Return (Inr (value_result v, value_statusCode v))"

definition reserve :: "('r \<Rightarrow> string option) \<Rightarrow> string \<Rightarrow> string \<Rightarrow> string \<Rightarrow> instant \<Rightarrow> 'r intercept_prog" where
  "reserve txHash key fp own now =
     bind (markPending key fp own now) (\<lambda>acquired. if acquired then execute txHash key fp now else
     bind (idem_get key) (\<lambda>again. case again of
         None \<Rightarrow> Return (Inl StateUnavailable)
       | Some v \<Rightarrow>
           if value_fingerprint v \<noteq> Some fp then Return (Inl PayloadConflict)
           else if value_status v = Some Success then replay v
           else if value_status v = Some Pending then Return (Inl InProgress)
           else bind (claimRetry key fp now) (\<lambda>claimed.
                  if claimed then execute txHash key fp now else Return (Inl InProgress))))"

definition intercept :: "('r \<Rightarrow> string option) \<Rightarrow> string \<Rightarrow> string \<Rightarrow> string \<Rightarrow> instant \<Rightarrow> 'r intercept_prog" where
  "intercept txHash key fp own now =
     bind (idem_get key) (\<lambda>existing. case existing of
         None \<Rightarrow> reserve txHash key fp own now
       | Some v \<Rightarrow>
           if value_fingerprint v \<noteq> Some fp then Return (Inl PayloadConflict)
           else if value_status v = Some Success then replay v
           else if value_status v = Some Pending then Return (Inl InProgress)
           else reserve txHash key fp own now)"

text \<open>A request: its fingerprint, the UUID its reservation draws, and its clock.\<close>

type_synonym idem_request = "string \<times> string \<times> instant"

definition requests :: "('r \<Rightarrow> string option) \<Rightarrow> string \<Rightarrow> idem_request list \<Rightarrow> 'r intercept_prog list" where
  "requests txHash key rs = map (\<lambda>(fp, own, now). intercept txHash key fp own now) rs"

lemma retry_key_differs [simp]: "retryClaimOf key \<noteq> keyOf key" "keyOf key \<noteq> retryClaimOf key"
  by (simp_all add: keyOf_def retryClaimOf_def)


section \<open>The states of a key\<close>

fun pending_by :: "string \<Rightarrow> 'r idem_value option \<Rightarrow> bool" where
  "pending_by own (Some (Rec r)) = (status r = Pending \<and> owner r = Some own)"
| "pending_by own _ = False"

fun done_with :: "'r \<Rightarrow> int \<Rightarrow> 'r idem_value option \<Rightarrow> bool" where
  "done_with x c (Some (Rec r)) = (status r = Success \<and> stored r = Some (Value x) \<and> statusCode r = Some c)"
| "done_with x c _ = False"

definition ran :: "string \<Rightarrow> nat \<Rightarrow> 'r \<Rightarrow> int \<Rightarrow> (string, 'r handler_outcome) call_log" where
  "ran key j x c = [(j, key, Returned x c)]"

fun returned :: "'r handler_outcome \<Rightarrow> bool" where
  "returned (Returned x c) = True"
| "returned (Threw m c) = False"

text \<open>
  While handlers succeed, the key is free and nothing ran, or it is reserved by one request
  that ran at most once, or it holds the result of the one run.
\<close>

definition idem_inv :: "('s \<Rightarrow> string \<Rightarrow> 'r idem_value option) \<Rightarrow> string \<Rightarrow> string list \<Rightarrow>
    ('s, string, 'r handler_outcome) world \<Rightarrow> bool" where
  "idem_inv str key owns w \<longleftrightarrow>
     str (server w) (keyOf key) = None \<and> calls w = [] \<or>
     (\<exists>j < length owns. pending_by (owns ! j) (str (server w) (keyOf key)) \<and>
        (calls w = [] \<or> (\<exists>x c. calls w = ran key j x c))) \<or>
     (\<exists>j x c. done_with x c (str (server w) (keyOf key)) \<and> calls w = ran key j x c)"

definition idem_rely :: "('s \<Rightarrow> string \<Rightarrow> 'r idem_value option) \<Rightarrow> string \<Rightarrow> string list \<Rightarrow> nat \<Rightarrow>
    ('s, string, 'r handler_outcome) rel" where
  "idem_rely str key owns i w w' \<longleftrightarrow>
     (idem_inv str key owns w \<longrightarrow> idem_inv str key owns w') \<and>
     (calls w \<noteq> [] \<longrightarrow> calls w' = calls w) \<and>
     (pending_by (owns ! i) (str (server w) (keyOf key)) \<longrightarrow>
        str (server w') (keyOf key) = str (server w) (keyOf key) \<and> calls w' = calls w) \<and>
     (i \<notin> fst ` set (calls w) \<longrightarrow> i \<notin> fst ` set (calls w'))"

fun replied :: "string \<Rightarrow> idem_error + 'r idem_response \<Rightarrow>
    ('s, string, 'r handler_outcome) world \<Rightarrow> bool" where
  "replied key (Inr (res, code)) w =
     (\<exists>j x c. calls w = ran key j x c \<and> res = Some (Value x) \<and> code = Some c)"
| "replied key (Inl e) w = True"

abbreviation idem_guar where
  "idem_guar str key owns \<equiv> mindful (length owns) (idem_inv str key owns) (idem_rely str key owns)"

abbreviation idem_rg where
  "idem_rg exec str key owns i \<equiv>
     rg exec returned i (idem_rely str key owns i) (idem_guar str key owns i) (\<lambda>a. replied key a)"

lemma idem_rely_preorder: "reflp (idem_rely str key owns i)" "transp (idem_rely str key owns i)"
  by (auto simp: idem_rely_def intro!: reflpI transpI)

lemma pending_by_unique: "pending_by o1 v \<Longrightarrow> pending_by o2 v \<Longrightarrow> o1 = o2"
  by (induction o1 v rule: pending_by.induct) auto

lemma pending_not_done: "pending_by own v \<Longrightarrow> \<not> done_with x c v"
  by (induction own v rule: pending_by.induct) auto

text \<open>A step that changes neither the record nor the log disturbs nobody.\<close>

lemma quiet_step:
  assumes "str (server w') (keyOf key) = str (server w) (keyOf key)" "calls w' = calls w"
  shows "idem_rely str key owns i w w'" "idem_guar str key owns i w w'"
  using assms by (auto simp: idem_rely_def idem_inv_def intro!: mindfulI)

text \<open>The steps that do: reserving a free key, running under one's reservation, recording.\<close>

lemma reserve_step:
  assumes "str (server w) (keyOf key) = None" "pending_by (owns ! i) (str (server w') (keyOf key))"
    and "calls w' = calls w" "i < length owns"
  shows "idem_guar str key owns i w w'"
  using assms by (auto simp: idem_rely_def idem_inv_def intro!: mindfulI)

lemma run_step:
  assumes "pending_by (owns ! i) (str (server w) (keyOf key))" "calls w = []" "i < length owns"
    and "str (server w') (keyOf key) = str (server w) (keyOf key)" "calls w' = ran key i x c"
    and "distinct owns"
  shows "idem_guar str key owns i w w'"
proof (rule mindfulI)
  show inv: "idem_inv str key owns w'" unfolding idem_inv_def using assms by metis
  fix j assume "j < length owns" "j \<noteq> i"
  with assms have "\<not> pending_by (owns ! j) (str (server w) (keyOf key))"
    by (auto dest: pending_by_unique simp: nth_eq_iff_index_eq)
  with inv assms \<open>j \<noteq> i\<close> show "idem_rely str key owns j w w'"
    by (auto simp: idem_rely_def ran_def)
qed

lemma record_step:
  assumes "pending_by (owns ! i) (str (server w) (keyOf key))" "calls w = ran key i x c" "i < length owns"
    and "done_with x c (str (server w') (keyOf key))" "calls w' = calls w" "distinct owns"
  shows "idem_guar str key owns i w w'"
proof (rule mindfulI)
  show inv: "idem_inv str key owns w'" using assms by (auto simp: idem_inv_def)
  fix j assume "j < length owns" "j \<noteq> i"
  with assms have "\<not> pending_by (owns ! j) (str (server w) (keyOf key))"
    by (auto dest: pending_by_unique simp: nth_eq_iff_index_eq)
  with inv assms show "idem_rely str key owns j w w'" by (auto simp: idem_rely_def)
qed

lemma rg_idem_get:
  assumes server: "redis_server exec expire str mem"
    and none: "\<And>w'. idem_rely str key owns i w w' \<Longrightarrow> idem_rg exec str key owns i (f None) w'"
    and some: "\<And>w' v. idem_rely str key owns i w w' \<Longrightarrow> str (server w') (keyOf key) = Some v \<Longrightarrow>
          idem_rg exec str key owns i (f (Some v)) w'"
  shows "idem_rg exec str key owns i (bind (idem_get key) f) w"
  unfolding idem_get_def redis_get_def bind.simps
proof (rule redis_server.rg_cmd [OF server])
  fix w' assume R: "idem_rely str key owns i w w'"
  show "idem_guar str key owns i w' w' \<and> idem_rg exec str key owns i
      (f (case Failed of Reply (Val v) \<Rightarrow> Some v | _ \<Rightarrow> None)) w'"
    using none [OF R] by (auto intro: quiet_step)
  fix w'' assume up: "updates str mem (GET (keyOf key)) w' w''"
  then have "idem_rely str key owns i w' w''" by (auto simp: updates_def intro: quiet_step)
  with R have R2: "idem_rely str key owns i w w''" using idem_rely_preorder(2) by (metis transpD)
  from up none [OF R2] show "idem_guar str key owns i w' w'' \<and> idem_rg exec str key owns i
      (f (case Failed of Reply (Val v) \<Rightarrow> Some v | _ \<Rightarrow> None)) w''"
    by (auto simp: updates_def intro: quiet_step)
  fix r assume "reply_ok (GET (keyOf key)) (str (server w')) (mem (server w')) r"
  with up none [OF R2] some [OF R2] show "idem_rg exec str key owns i
      (f (case Reply r of Reply (Val v) \<Rightarrow> Some v | _ \<Rightarrow> None)) w''"
    by (auto simp: updates_def split: option.splits)
qed


lemma rg_release:
  assumes server: "redis_server exec expire str mem" and "calls w = ran key j x c"
  shows "idem_rg exec str key owns i
     (bind (redis_del (retryClaimOf key)) (\<lambda>_. Return (Inr (Some (Value x), Some c)))) w"
  unfolding redis_del_def bind.simps
proof (rule redis_server.rg_cmd [OF server])
  fix w' assume R: "idem_rely str key owns i w w'"
  with assms(2) have ran: "calls w' = ran key j x c" by (auto simp: idem_rely_def ran_def)
  have reply: "idem_rg exec str key owns i (Return (Inr (Some (Value x), Some c))) v"
    if "calls v = ran key j x c" for v using that by (auto simp: idem_rely_def ran_def)
  with ran show "idem_guar str key owns i w' w' \<and>
    idem_rg exec str key owns i (Return (Inr (Some (Value x), Some c))) w'"
    by (auto intro: quiet_step)
  fix w'' assume up: "updates str mem (DEL (retryClaimOf key)) w' w''"
  with ran reply show "idem_guar str key owns i w' w'' \<and>
    idem_rg exec str key owns i (Return (Inr (Some (Value x), Some c))) w''"
    by (auto simp: updates_def intro: quiet_step)
  then show "idem_rg exec str key owns i (Return (Inr (Some (Value x), Some c))) w''" by blast
qed

lemma rg_complete:
  assumes server: "redis_server exec expire str mem" and "distinct owns" "i < length owns"
    and "pending_by (owns ! i) (str (server w) (keyOf key))" "calls w = ran key i x c"
  shows "idem_rg exec str key owns i
     (bind (complete txHash key Success (Value x) (Some c) (Some fp) now)
        (\<lambda>_. Return (Inr (Some (Value x), Some c)))) w"
proof -
  have put: "idem_rg exec str key owns i
     (bind (redis_setEx (keyOf key) DEFAULT_TTL_SECONDS
              (Rec (completed_record txHash Success (Value x) (Some c) (Some fp) now ex)))
        (\<lambda>_. bind (redis_del (retryClaimOf key)) (\<lambda>_. Return (Inr (Some (Value x), Some c))))) v"
    if R: "idem_rely str key owns i w v" for v ex
    unfolding redis_setEx_def bind.simps
  proof (rule redis_server.rg_cmd [OF server])
    fix w' assume "idem_rely str key owns i v w'"
    with R have "idem_rely str key owns i w w'" using idem_rely_preorder(2) by (metis transpD)
    with assms have here: "pending_by (owns ! i) (str (server w') (keyOf key))" "calls w' = ran key i x c"
      by (auto simp: idem_rely_def)
    show "idem_guar str key owns i w' w' \<and> idem_rg exec str key owns i
        (bind (redis_del (retryClaimOf key)) (\<lambda>_. Return (Inr (Some (Value x), Some c)))) w'"
      using rg_release [OF server] here by (auto intro: quiet_step)
    fix w'' assume up: "updates str mem (SET (keyOf key)
        (Rec (completed_record txHash Success (Value x) (Some c) (Some fp) now ex)) False
        (Some (1000 * DEFAULT_TTL_SECONDS))) w' w''"
    then have "done_with x c (str (server w'') (keyOf key))" "calls w'' = calls w'"
      by (auto simp: updates_def completed_record_def or_else_def)
    with here assms show "idem_guar str key owns i w' w'' \<and> idem_rg exec str key owns i
        (bind (redis_del (retryClaimOf key)) (\<lambda>_. Return (Inr (Some (Value x), Some c)))) w''"
      using rg_release [OF server] record_step by fastforce
    then show "idem_rg exec str key owns i
        (bind (redis_del (retryClaimOf key)) (\<lambda>_. Return (Inr (Some (Value x), Some c)))) w''" by blast
  qed
  show ?thesis unfolding complete_def bind_assoc
    by (rule rg_idem_get [OF server]) (rule put, assumption)+
qed

lemma rg_execute:
  assumes server: "redis_server exec expire str mem" and "distinct owns" "i < length owns"
    and "pending_by (owns ! i) (str (server w) (keyOf key))" "calls w = []"
  shows "idem_rg exec str key owns i (execute txHash key fp now) w"
  unfolding execute_def rg_Ext
proof (intro allI impI)
  fix s lg and y :: "'a handler_outcome"
  assume R: "idem_rely str key owns i w (World s lg)" and "returned y"
  then obtain x c where y: "y = Returned x c" by (cases y) auto
  from R assms have here: "pending_by (owns ! i) (str s (keyOf key))" "lg = []"
    by (auto simp: idem_rely_def)
  have "idem_guar str key owns i (World s lg) (World s (lg @ [(i, key, y)]))"
    using here y assms by (intro run_step) (auto simp: ran_def)
  moreover have "idem_rg exec str key owns i
     (bind (complete txHash key Success (Value x) (Some c) (Some fp) now)
        (\<lambda>_. Return (Inr (Some (Value x), Some c)))) (World s (lg @ [(i, key, y)]))"
    using here y assms by (intro rg_complete [OF server]) (auto simp: ran_def)
  ultimately show "idem_guar str key owns i (World s lg) (World s (lg @ [(i, key, y)])) \<and>
      idem_rg exec str key owns i (case Answer y of
          Answer (Returned x code) \<Rightarrow>
            bind (complete txHash key Success (Value x) (Some code) (Some fp) now)
            (\<lambda>_. Return (Inr (Some (Value x), Some code)))
        | Answer (Threw msg code) \<Rightarrow>
            bind (complete txHash key Errored (Message msg) (Some code) (Some fp) now)
            (\<lambda>_. Return (Inl (HandlerFailed msg)))
        | _ \<Rightarrow> Return (Inl StateUnavailable)) (World s (lg @ [(i, key, y)]))"
    using y by simp
qed


lemma pending_by_value:
  "pending_by own (Some v) \<longleftrightarrow> value_status v = Some Pending \<and> value_owner v = Some own"
  by (cases v) auto

lemma done_with_value:
  "done_with x c (Some v) \<longleftrightarrow> value_status v = Some Success \<and> value_result v = Some (Value x) \<and>
     value_statusCode v = Some c"
  by (cases v) auto

text \<open>What a request can read under the key.\<close>

lemma idem_inv_value:
  assumes "idem_inv str key owns w" "str (server w) (keyOf key) = Some v"
  shows "value_status v = Some Pending \<or>
    value_status v = Some Success \<and>
      (\<exists>j x c. calls w = ran key j x c \<and> value_result v = Some (Value x) \<and> value_statusCode v = Some c)"
  using assms by (auto simp: idem_inv_def pending_by_value done_with_value)

lemma reserved_not_run:
  assumes "idem_inv str key owns w" "pending_by (owns ! i) (str (server w) (keyOf key))"
    and "i < length owns" "distinct owns" "i \<notin> fst ` set (calls w)"
  shows "calls w = []"
proof -
  have "j = i" if "j < length owns" "pending_by (owns ! j) (str (server w) (keyOf key))" for j
    using that assms pending_by_unique by (metis nth_eq_iff_index_eq)
  moreover have "\<not> done_with x c (str (server w) (keyOf key))" for x c
    using assms(2) by (rule pending_not_done)
  moreover have "str (server w) (keyOf key) \<noteq> None" using assms(2) by (rule contrapos_pn) simp
  moreover have "calls w \<noteq> ran key i x c" for x c using assms(5) by (auto simp: ran_def)
  ultimately show ?thesis using assms(1) unfolding idem_inv_def by blast
qed

lemma rg_replay:
  assumes "idem_inv str key owns w" "str (server w) (keyOf key) = Some v" "value_status v = Some Success"
  shows "idem_rg exec str key owns i (replay v) w"
  using idem_inv_value [OF assms(1,2)] assms(3)
  by (fastforce simp: replay_def idem_rely_def ran_def)

text \<open>The second look at the key, when it could not be reserved.\<close>

definition second_look :: "('r \<Rightarrow> string option) \<Rightarrow> string \<Rightarrow> string \<Rightarrow> instant \<Rightarrow> 'r intercept_prog" where
  "second_look txHash key fp now =
     bind (idem_get key) (\<lambda>again. case again of
         None \<Rightarrow> Return (Inl StateUnavailable)
       | Some v \<Rightarrow>
           if value_fingerprint v \<noteq> Some fp then Return (Inl PayloadConflict)
           else if value_status v = Some Success then replay v
           else if value_status v = Some Pending then Return (Inl InProgress)
           else bind (claimRetry key fp now) (\<lambda>claimed.
                  if claimed then execute txHash key fp now else Return (Inl InProgress)))"

lemma rg_second_look:
  assumes server: "redis_server exec expire str mem" and "idem_inv str key owns w"
  shows "idem_rg exec str key owns i (second_look txHash key fp now) w"
  unfolding second_look_def
proof (rule rg_idem_get [OF server])
  fix w' v assume R: "idem_rely str key owns i w w'" and v: "str (server w') (keyOf key) = Some v"
  with assms have inv: "idem_inv str key owns w'" by (simp add: idem_rely_def)
  from idem_inv_value [OF inv v] rg_replay [OF inv v]
  show "idem_rg exec str key owns i (case Some v of None \<Rightarrow> Return (Inl StateUnavailable)
       | Some v \<Rightarrow>
           if value_fingerprint v \<noteq> Some fp then Return (Inl PayloadConflict)
           else if value_status v = Some Success then replay v
           else if value_status v = Some Pending then Return (Inl InProgress)
           else bind (claimRetry key fp now) (\<lambda>claimed.
                  if claimed then execute txHash key fp now else Return (Inl InProgress))) w'"
    by auto
qed simp

lemma rg_own_reservation:
  assumes server: "redis_server exec expire str mem" and "distinct owns" "i < length owns"
    and "idem_inv str key owns w" "i \<notin> fst ` set (calls w)"
  shows "idem_rg exec str key owns i
    (bind (idem_get key) (\<lambda>current.
       if (case current of None \<Rightarrow> False
           | Some v \<Rightarrow> value_status v = Some Pending \<and> value_owner v = Some (owns ! i))
       then execute txHash key fp now else second_look txHash key fp now)) w"
proof (rule rg_idem_get [OF server])
  fix w' assume "idem_rely str key owns i w w'"
  with assms have inv: "idem_inv str key owns w'" and fresh: "i \<notin> fst ` set (calls w')"
    by (simp_all add: idem_rely_def)
  from rg_second_look [OF server inv] show "idem_rg exec str key owns i (if (case None of None \<Rightarrow> False
           | Some v \<Rightarrow> value_status v = Some Pending \<and> value_owner v = Some (owns ! i))
       then execute txHash key fp now else second_look txHash key fp now) w'" by simp
  fix v assume v: "str (server w') (keyOf key) = Some v"
  show "idem_rg exec str key owns i (if (case Some v of None \<Rightarrow> False
           | Some v \<Rightarrow> value_status v = Some Pending \<and> value_owner v = Some (owns ! i))
       then execute txHash key fp now else second_look txHash key fp now) w'"
  proof (cases "pending_by (owns ! i) (Some v)")
    case True
    then have pend: "pending_by (owns ! i) (str (server w') (keyOf key))" using v by simp
    have "calls w' = []" using reserved_not_run [OF inv pend assms(3,2) fresh] .
    with rg_execute [OF server assms(2,3) pend] True show ?thesis by (simp add: pending_by_value)
  next
    case False
    with rg_second_look [OF server inv] show ?thesis by (auto simp: pending_by_value)
  qed
qed

lemma reserve_unfold:
  "reserve txHash key fp own now =
     Await (Redis (SET (keyOf key) (Rec (pending_record fp (Some own) now)) True
                     (Some (1000 * DEFAULT_TTL_SECONDS))))
     (\<lambda>r. if r = Reply OK then execute txHash key fp now else
       bind (idem_get key) (\<lambda>current.
         if (case current of None \<Rightarrow> False
             | Some v \<Rightarrow> value_status v = Some Pending \<and> value_owner v = Some own)
         then execute txHash key fp now else second_look txHash key fp now))"
  unfolding reserve_def markPending_def redis_setNxValue_def bind.simps bind_assoc
    second_look_def [symmetric]
  by (intro arg_cong [where f = "Await _"] ext) (case_tac "r = Reply OK"; simp split del: if_split)

lemma rg_reserve:
  assumes server: "redis_server exec expire str mem" and "distinct owns" "i < length owns"
    and "idem_inv str key owns w" "i \<notin> fst ` set (calls w)"
  shows "idem_rg exec str key owns i (reserve txHash key fp (owns ! i) now) w"
  unfolding reserve_unfold
proof (rule redis_server.rg_cmd [OF server])
  fix w' assume "idem_rely str key owns i w w'"
  with assms have inv: "idem_inv str key owns w'" and fresh: "i \<notin> fst ` set (calls w')"
    by (simp_all add: idem_rely_def)
  note look = rg_own_reservation [OF server assms(2,3)]
  show "idem_guar str key owns i w' w' \<and> idem_rg exec str key owns i (if Failed = Reply OK
     then execute txHash key fp now else
       bind (idem_get key) (\<lambda>current.
         if (case current of None \<Rightarrow> False
             | Some v \<Rightarrow> value_status v = Some Pending \<and> value_owner v = Some (owns ! i))
         then execute txHash key fp now else second_look txHash key fp now)) w'"
    using look [OF inv fresh] by (auto intro: quiet_step)
  fix w'' assume up: "updates str mem (SET (keyOf key) (Rec (pending_record fp (Some (owns ! i)) now)) True
     (Some (1000 * DEFAULT_TTL_SECONDS))) w' w''"
  have G: "idem_guar str key owns i w' w''"
  proof (cases "str (server w') (keyOf key)")
    case None
    with up assms(3) show ?thesis by (intro reserve_step) (auto simp: updates_def pending_record_def)
  next
    case (Some v)
    with up show ?thesis by (intro quiet_step) (auto simp: updates_def)
  qed
  then have inv2: "idem_inv str key owns w''" using inv by (simp add: mindful_def)
  have fresh2: "i \<notin> fst ` set (calls w'')" using fresh up by (simp add: updates_def)
  from G look [OF inv2 fresh2] show "idem_guar str key owns i w' w'' \<and> idem_rg exec str key owns i (if Failed = Reply OK
     then execute txHash key fp now else
       bind (idem_get key) (\<lambda>current.
         if (case current of None \<Rightarrow> False
             | Some v \<Rightarrow> value_status v = Some Pending \<and> value_owner v = Some (owns ! i))
         then execute txHash key fp now else second_look txHash key fp now)) w''" by simp
  fix r assume r: "reply_ok (SET (keyOf key) (Rec (pending_record fp (Some (owns ! i)) now)) True
     (Some (1000 * DEFAULT_TTL_SECONDS))) (str (server w')) (mem (server w')) r"
  have mine: "pending_by (owns ! i) (str (server w'') (keyOf key))" if "r = OK"
    using that r up by (auto simp: updates_def pending_record_def split: if_splits)
  then have "idem_rg exec str key owns i (execute txHash key fp now) w''" if "r = OK"
    using that rg_execute [OF server assms(2,3)] reserved_not_run [OF inv2 _ assms(3,2) fresh2] by blast
  with look [OF inv2 fresh2] show "idem_rg exec str key owns i (if Reply r = Reply OK
     then execute txHash key fp now else
       bind (idem_get key) (\<lambda>current.
         if (case current of None \<Rightarrow> False
             | Some v \<Rightarrow> value_status v = Some Pending \<and> value_owner v = Some (owns ! i))
         then execute txHash key fp now else second_look txHash key fp now)) w''" by simp
qed


lemma rg_intercept:
  assumes server: "redis_server exec expire str mem" and "distinct owns" "i < length owns"
    and "idem_inv str key owns w" "i \<notin> fst ` set (calls w)"
  shows "idem_rg exec str key owns i (intercept txHash key fp (owns ! i) now) w"
  unfolding intercept_def
proof (rule rg_idem_get [OF server])
  fix w' assume "idem_rely str key owns i w w'"
  with assms have inv: "idem_inv str key owns w'" and fresh: "i \<notin> fst ` set (calls w')"
    by (simp_all add: idem_rely_def)
  note reserve = rg_reserve [OF server assms(2,3) inv fresh]
  then show "idem_rg exec str key owns i (case None of None \<Rightarrow> reserve txHash key fp (owns ! i) now
       | Some v \<Rightarrow>
           if value_fingerprint v \<noteq> Some fp then Return (Inl PayloadConflict)
           else if value_status v = Some Success then replay v
           else if value_status v = Some Pending then Return (Inl InProgress)
           else reserve txHash key fp (owns ! i) now) w'" by simp
  fix v assume v: "str (server w') (keyOf key) = Some v"
  from rg_replay [OF inv v] reserve
  show "idem_rg exec str key owns i (case Some v of None \<Rightarrow> reserve txHash key fp (owns ! i) now
       | Some v \<Rightarrow>
           if value_fingerprint v \<noteq> Some fp then Return (Inl PayloadConflict)
           else if value_status v = Some Success then replay v
           else if value_status v = Some Pending then Return (Inl InProgress)
           else reserve txHash key fp (owns ! i) now) w'" by auto
qed

lemma idem_expiry:
  assumes "redis_server exec expire str mem" "k \<noteq> keyOf key"
  shows "idem_rely str key owns i (World s lg) (World (expire k s) lg)"
  using assms by (intro quiet_step) (auto simp: redis_server.str_expire)

section \<open>Properties\<close>

text \<open>
  C15. A mutation runs at most once per idempotency key: whatever number of requests carry
  the key, however their Redis commands interleave, and whatever commands are refused or
  lose their reply, the handler has run at most once as long as no handler threw and the
  key's record did not expire; and every request that got a result got the result and the
  status code of that one run.
\<close>

theorem handler_runs_once:
  assumes server: "redis_server exec expire str mem"
    and free: "str s (keyOf key) = None"
    and owners: "distinct (map (fst \<circ> snd) rs)"
    and sched: "list_all (permitted returned (\<lambda>k. k \<noteq> keyOf key)) es"
    and run: "sys_run exec expire es (World s [], requests txHash key rs) = (World s' lg, ps)"
  shows "length lg \<le> 1 \<and>
    (\<forall>i res code. i < length ps \<longrightarrow> ps ! i = Return (Inr (res, code)) \<longrightarrow>
       (\<exists>j x. lg = [(j, key, Returned x (the code))] \<and> res = Some (Value x) \<and> code \<noteq> None))"
proof -
  define owns where "owns = map (fst \<circ> snd) rs"
  let ?n = "length owns" and ?w = "World s ([] :: (string, _) call_log)"
  have n: "length (requests txHash key rs) = ?n" by (simp add: requests_def owns_def)
  have inv: "idem_inv str key owns ?w" using free by (simp add: idem_inv_def)
  have "idem_rg exec str key owns i (requests txHash key rs ! i) ?w" if "i < ?n" for i
  proof -
    obtain fp own now where r: "rs ! i = (fp, own, now)" by (cases "rs ! i")
    with that have req: "requests txHash key rs ! i = intercept txHash key fp (owns ! i) now"
      by (simp add: requests_def owns_def)
    show ?thesis unfolding req
      by (rule rg_intercept [OF server _ that inv]) (use owners in \<open>simp_all add: owns_def\<close>)
  qed
  then have all: "all_rg exec returned (idem_rely str key owns)
      (mindful (length (requests txHash key rs)) (idem_inv str key owns) (idem_rely str key owns))
      (\<lambda>_. replied key) (requests txHash key rs) ?w"
    unfolding all_rg_def n by blast
  have expiry: "idem_inv str key owns (World s lg) \<Longrightarrow> idem_inv str key owns (World (expire k s) lg)"
    if "k \<noteq> keyOf key" for k s lg
    using idem_expiry [OF server that, of owns] by (auto simp: idem_rely_def)
  note result = mindful_processes [OF idem_rely_preorder idem_expiry [OF server] expiry all sched inv run]
  have "length lg \<le> 1" using result(1) by (auto simp: idem_inv_def ran_def)
  moreover have "length ps = ?n" using length_sys_run [OF run] n by simp
  moreover have "\<exists>j x. lg = [(j, key, Returned x (the code))] \<and> res = Some (Value x) \<and> code \<noteq> None"
    if "i < ?n" "ps ! i = Return (Inr (res, code))" for i res code
    using result(2) [of i "Inr (res, code)"] that n by (auto simp: ran_def)
  ultimately show ?thesis by simp
qed

definition lost_reply_schedule :: "nat handler_outcome event list" where
  "lost_reply_schedule =
     [Deliver 0, Deliver 1, Lose 0, Deliver 1, Deliver 0, Respond 0 (Returned 7 201), Deliver 1,
      Deliver 0, Deliver 0, Deliver 1, Expire ''idem:k:retry'', Refuse 0]"

definition lost_reply_end where
  "lost_reply_end = sys_run memory_exec forget lost_reply_schedule
     (World empty_redis [], requests (\<lambda>_. None) ''k'' [(''fp'', ''a'', 1), (''fp'', ''b'', 2)])"

theorem handler_runs_once_witness:
  "list_all (permitted returned (\<lambda>k. k \<noteq> keyOf ''k'')) lost_reply_schedule \<and>
   length (calls (fst lost_reply_end)) \<le> 1 \<and>
   map result_of (snd lost_reply_end) =
     [Some (Inr (Some (Value 7), Some 201)), Some (Inr (Some (Value 7), Some 201))]"
proof -
  obtain s lg ps where e: "lost_reply_end = (World s lg, ps)" by (metis surj_pair world.exhaust)
  have sched: "list_all (permitted returned (\<lambda>k. k \<noteq> keyOf ''k'')) lost_reply_schedule" by code_simp
  have "calls (fst lost_reply_end) = lg" by (simp add: e)
  moreover have "length lg \<le> 1"
    using handler_runs_once [OF memory.redis_server_axioms _ _ sched e [unfolded lost_reply_end_def]]
    by (simp add: empty_redis_def)
  moreover have "map result_of (snd lost_reply_end) =
     [Some (Inr (Some (Value 7), Some 201)), Some (Inr (Some (Value 7), Some 201))]" by code_simp
  ultimately show ?thesis using sched by simp
qed

fun flawless :: "'y event \<Rightarrow> bool" where
  "flawless (Deliver i) = True"
| "flawless (Respond i y) = True"
| "flawless _ = False"

text \<open>
  Three requests with one key and one payload. The handler of the first throws; while the
  first is still finishing \<open>complete\<close>, the second claims the retry, and the deletion of the
  claim by the first lets the third claim it too.
\<close>

definition retry_schedule :: "nat handler_outcome event list" where
  "retry_schedule =
     [Deliver 0, Deliver 0, Respond 0 (Threw ''timeout'' 500), Deliver 0, Deliver 0,
      Deliver 1, Deliver 1, Deliver 1, Deliver 1, Deliver 1, Deliver 1,
      Deliver 0,
      Deliver 2, Deliver 2, Deliver 2, Deliver 2, Deliver 2, Deliver 2,
      Deliver 1, Respond 1 (Returned 1 201), Deliver 2, Respond 2 (Returned 2 201),
      Deliver 1, Deliver 1, Deliver 1, Deliver 2, Deliver 2, Deliver 2]"

definition retry_end where
  "retry_end = sys_run memory_exec forget retry_schedule
     (World empty_redis [], requests (\<lambda>_. None) ''k'' [(''fp'', ''a'', 1), (''fp'', ''b'', 2), (''fp'', ''c'', 3)])"


text \<open>Distinct requests have distinct fingerprints, unless the hash collides.\<close>

lemma fingerprint_identifies_request:
  assumes "inj sha256"
  shows "fingerprintOf sha256 m p b = fingerprintOf sha256 m' p' b' \<longleftrightarrow> m = m' \<and> p = p' \<and> b = b'"
  using assms by (simp add: fingerprintOf_def inj_eq json_stringify_inject del: json_stringify.simps)

end
