(* ===== verification/Order_State.thy ===== *)
theory Order_State
  imports Redis_Client
begin

text \<open>
  The versioned order state of \<open>api/src/marketplace/order-state.service.ts\<close>. Each method is a
  program over the shared Redis server; the two ledger events it appends are external calls.
  The ledger is present, as in the application module.
\<close>

section \<open>State and operations\<close>

datatype OrderStatus = Open | PartiallyFilled | Filled | Cancelled | Expired

record VersionedOrderState =
  orderId :: int
  version :: int
  status :: OrderStatus
  filledAmount :: string
  lastModified :: instant

datatype order_event =
    settlement_rolled_back int OrderStatus int string int
  | settlement_completed int OrderStatus string int

datatype order_error = VersionConflict int int int

type_synonym 'a order_prog = "(VersionedOrderState, order_event, unit, 'a) prog"

definition order_key :: "int \<Rightarrow> string" where
  "order_key n = ''order:state:'' @ int_str n"

definition ORDER_TTL_SECONDS :: int where "ORDER_TTL_SECONDS = 86400 * 7"

definition initial_order :: "int \<Rightarrow> instant \<Rightarrow> VersionedOrderState" where
  "initial_order n now = \<lparr>orderId = n, version = 0, status = Open, filledAmount = ''0'', lastModified = now\<rparr>"

definition getOrderState :: "int \<Rightarrow> instant \<Rightarrow> VersionedOrderState order_prog" where
  "getOrderState n now = bind (redis_get (order_key n)) (\<lambda>raw. case raw of
      Some st \<Rightarrow> Return st
    | None \<Rightarrow> bind (redis_setEx (order_key n) ORDER_TTL_SECONDS (initial_order n now))
              (\<lambda>_. Return (initial_order n now)))"

definition next_order :: "VersionedOrderState \<Rightarrow> int \<Rightarrow> int \<Rightarrow> OrderStatus \<Rightarrow> string option \<Rightarrow> instant \<Rightarrow>
    VersionedOrderState" where
  "next_order existing n currentVersion newStatus filled now =
     \<lparr>orderId = n, version = currentVersion + 1, status = newStatus,
      filledAmount = (case filled of None \<Rightarrow> filledAmount existing | Some f \<Rightarrow> f), lastModified = now\<rparr>"

definition transitionState :: "int \<Rightarrow> int \<Rightarrow> OrderStatus \<Rightarrow> string option \<Rightarrow> instant \<Rightarrow>
    (order_error + VersionedOrderState) order_prog" where
  "transitionState n currentVersion newStatus filled now =
     bind (getOrderState n now) (\<lambda>existing.
       if version existing \<noteq> currentVersion
       then Return (Inl (VersionConflict n currentVersion (version existing)))
       else let st = next_order existing n currentVersion newStatus filled now in
         bind (redis_setEx (order_key n) ORDER_TTL_SECONDS st) (\<lambda>_. Return (Inr st)))"

definition append_event :: "order_event \<Rightarrow> unit order_prog" where
  "append_event e = Await (Ext e) (\<lambda>_. Return ())"

definition rollbackAfterSettlementFailure :: "int \<Rightarrow> instant \<Rightarrow> (order_error + VersionedOrderState) order_prog" where
  "rollbackAfterSettlementFailure n now =
     bind (getOrderState n now) (\<lambda>current.
     bind_ok (transitionState n (version current) Open (Some ''0'') now) (\<lambda>rolled.
     bind (append_event (settlement_rolled_back n (status current) (version current)
             (filledAmount current) (version rolled)))
     (\<lambda>_. Return (Inr rolled))))"

definition markSettled :: "int \<Rightarrow> instant \<Rightarrow> (order_error + VersionedOrderState) order_prog" where
  "markSettled n now =
     bind (getOrderState n now) (\<lambda>current.
     bind_ok (transitionState n (version current) Filled None now) (\<lambda>settled.
     bind (append_event (settlement_completed n (status current) (filledAmount settled) (version settled)))
     (\<lambda>_. Return (Inr settled))))"

definition clearOnCancellation :: "int \<Rightarrow> unit order_prog" where
  "clearOnCancellation n = redis_del (order_key n)"

section \<open>One caller at a time\<close>

text \<open>The stored state of an order; one that was never stored is open at version 0.\<close>

definition order_of :: "('s \<Rightarrow> string \<Rightarrow> VersionedOrderState option) \<Rightarrow> int \<Rightarrow> instant \<Rightarrow> 's \<Rightarrow> VersionedOrderState" where
  "order_of str n now s = (case str s (order_key n) of None \<Rightarrow> initial_order n now | Some st \<Rightarrow> st)"


text \<open>Reading initialises an order that has no state.\<close>

lemma getOrderState_alone:
  assumes "redis_server exec expire str mem" "run_alone exec ans (getOrderState n now) s = (st, s')"
  shows "st = order_of str n now s" "str s' = (str s)(order_key n := Some st)"
  using assms(2)
  by (auto simp: getOrderState_def order_of_def redis_server.alone_simps [OF assms(1)] split: option.splits)

text \<open>
  Without interleaving a transition is a compare-and-swap on the version: it throws on
  another version and otherwise stores the successor version with the new status.
\<close>

lemma transition_alone:
  assumes "redis_server exec expire str mem"
    and "run_alone exec ans (transitionState n v st filled now) s = (r, s')"
  shows "r = (if version (order_of str n now s) = v
              then Inr (next_order (order_of str n now s) n v st filled now)
              else Inl (VersionConflict n v (version (order_of str n now s))))"
    and "str s' = (str s)(order_key n := Some (case r of Inl _ \<Rightarrow> order_of str n now s | Inr st' \<Rightarrow> st'))"
proof -
  obtain st0 s0 where g: "run_alone exec ans (getOrderState n now) s = (st0, s0)" by fastforce
  note st0 = getOrderState_alone [OF assms(1) g]
  show "r = (if version (order_of str n now s) = v
              then Inr (next_order (order_of str n now s) n v st filled now)
              else Inl (VersionConflict n v (version (order_of str n now s))))"
    and "str s' = (str s)(order_key n := Some (case r of Inl _ \<Rightarrow> order_of str n now s | Inr st' \<Rightarrow> st'))"
    using assms(2) st0
    by (auto simp: transitionState_def g Let_def redis_server.alone_simps [OF assms(1)] split: if_splits)
qed

text \<open>
  After a cancellation the versions start again at 0, so a caller that read version 0 before
  the cancellation still succeeds.
\<close>

lemma version_reused_after_cancellation:
  assumes "redis_server exec expire str mem"
    and "run_alone exec ans (clearOnCancellation n) s = ((), s1)"
    and "run_alone exec ans (transitionState n 0 st filled now) s1 = (r, s2)"
  shows "\<exists>st'. r = Inr st' \<and> version st' = 1"
proof -
  have "str s1 (order_key n) = None"
    using assms(2) by (auto simp: clearOnCancellation_def redis_server.alone_simps [OF assms(1)])
  then show ?thesis
    using transition_alone(1) [OF assms(1,3)] by (simp add: order_of_def initial_order_def next_order_def)
qed

text \<open>A settled order is not final: a rollback opens it again.\<close>

lemma settled_order_reopens:
  assumes "redis_server exec expire str mem"
    and "str s (order_key n) = Some settled"
    and "run_alone exec ans (rollbackAfterSettlementFailure n now) s = (r, s')"
  shows "\<exists>st. r = Inr st \<and> status st = Open \<and> filledAmount st = ''0'' \<and> version st = version settled + 1"
proof -
  obtain st0 s0 where g: "run_alone exec ans (getOrderState n now) s = (st0, s0)" by fastforce
  have st0: "st0 = settled" "str s0 (order_key n) = Some settled"
    using getOrderState_alone [OF assms(1) g] assms(2) by (simp_all add: order_of_def)
  obtain r1 s1 where t: "run_alone exec ans (transitionState n (version st0) Open (Some ''0'') now) s0 = (r1, s1)"
    by fastforce
  have r1: "r1 = Inr (next_order settled n (version settled) Open (Some ''0'') now)"
    using transition_alone(1) [OF assms(1) t] st0 by (simp add: order_of_def)
  have "r = r1"
    using assms(3) t r1 by (simp add: rollbackAfterSettlementFailure_def bind_ok_def append_event_def
        run_alone_bind g)
  with r1 show ?thesis by (simp add: next_order_def)
qed

section \<open>Properties\<close>

text \<open>
  C33. The version check does not serialise concurrent transitions: on every stored order,
  two callers that both read the current version, one of them cancelling and the other
  filling for instance, can both be told that their transition succeeded; the second write
  replaces the first without a conflict.
\<close>

theorem stale_transition_wins:
  assumes "redis_server exec expire str mem" "str s (order_key n) = Some st"
  shows "\<exists>s'. sys_run exec expire [Deliver 0, Deliver 1, Deliver 0, Deliver 1]
      (World s [], [transitionState n (version st) a fa t, transitionState n (version st) b fb u]) =
      (World s' [], [Return (Inr (next_order st n (version st) a fa t)),
                     Return (Inr (next_order st n (version st) b fb u))]) \<and>
    str s' (order_key n) = Some (next_order st n (version st) b fb u)"
proof -
  have read: "fst (exec (GET (order_key n)) s0) = Val st"
    "str (snd (exec (GET (order_key n)) s0)) (order_key n) = Some st"
    if "str s0 (order_key n) = Some st" for s0
    using that redis_server.reply_exec [OF assms(1), of "GET (order_key n)" s0]
    by (simp_all add: redis_server.str_exec [OF assms(1)])
  show ?thesis
    using assms(2) read [OF assms(2)] read [OF read(2) [OF assms(2)]]
    by (simp add: transitionState_def getOrderState_def redis_methods split_beta Let_def
        redis_server.str_exec [OF assms(1)])
qed

definition example_order :: VersionedOrderState where
  "example_order = \<lparr>orderId = 7, version = 3, status = PartiallyFilled, filledAmount = ''40'', lastModified = 1\<rparr>"

theorem stale_transition_wins_witness:
  "\<exists>s'. sys_run memory_exec forget [Deliver 0, Deliver 1, Deliver 0, Deliver 1]
      (World \<lparr>texts = [(order_key 7, example_order)], groups = []\<rparr> [],
       [transitionState 7 3 Cancelled None 10, transitionState 7 3 Filled (Some ''100'') 11]) =
      (World s' [], [Return (Inr (next_order example_order 7 3 Cancelled None 10)),
                     Return (Inr (next_order example_order 7 3 Filled (Some ''100'') 11))]) \<and>
    map_of (texts s') (order_key 7) = Some (next_order example_order 7 3 Filled (Some ''100'') 11)"
  using stale_transition_wins [OF memory.redis_server_axioms,
      of "\<lparr>texts = [(order_key 7, example_order)], groups = []\<rparr>" 7 example_order Cancelled None 10
         Filled "Some ''100''" 11]
  by (simp add: example_order_def)

end
