(* ===== verification/Nonce.thy ===== *)
theory Nonce
  imports Redis_Client
begin

text \<open>
  Nonce reservation: \<open>api/src/common/services/nonce.service.ts\<close>. The contract's nonce query
  and the submitted operation are external calls; a process is one \<open>withNonce\<close> call. The
  loop that waits for the lock ends by a deadline, not by a count: it is modelled with fuel
  and a clock, and \<open>acquire_waits_long_enough\<close> shows that the fuel never runs out when the
  clock advances by the retry pause.
\<close>

section \<open>Values, calls and errors\<close>

text \<open>A text in Redis: the cursor's number, or a lock token.\<close>

datatype nonce_value = Cursor jsnum | Token string

datatype nonce_call = ReadNonce | Operate jsnum

text \<open>An external call returns the contract's nonce or a result, or throws; the flag says
  whether what it throws is an \<open>Error\<close>.\<close>

datatype 'r nonce_answer = NonceIs jsnum | Submitted 'r | Thrown bool

datatype nonce_error = Unavailable | TimedOut | InvalidNonce | CallFailed bool | OutOfFuel

fun is_Error :: "nonce_error \<Rightarrow> bool" where
  "is_Error (CallFailed b) = b"
| "is_Error _ = True"

type_synonym ('r, 'a) nonce_prog = "(nonce_value, nonce_call, 'r nonce_answer, 'a) prog"

definition isSafeInteger :: "jsnum \<Rightarrow> bool" where
  "isSafeInteger x \<longleftrightarrow> isInteger x \<and> \<bar>num_floor x\<bar> \<le> 2 ^ 53 - 1"

definition cursor_key :: "string \<Rightarrow> string \<Rightarrow> string" where
  "cursor_key contractAddress address = ''nonce:'' @ contractAddress @ '':'' @ address"

definition lock_key :: "string \<Rightarrow> string \<Rightarrow> string" where
  "lock_key contractAddress address = cursor_key contractAddress address @ '':lock''"

section \<open>Waiting for the lock\<close>

text \<open>\<open>positiveInteger\<close>: a configured number, or the fallback.\<close>

definition positiveInteger :: "jsnum \<Rightarrow> int \<Rightarrow> int" where
  "positiveInteger parsed fallback =
     (if isInteger parsed \<and> num_less (Num 0) parsed then num_floor parsed else fallback)"

record nonce_config =
  waitMs :: jsnum
  ttlMs :: jsnum
  retryMs :: jsnum

definition timeout_of :: "nonce_config \<Rightarrow> int" where
  "timeout_of cfg = positiveInteger (waitMs cfg) 180000"

definition lock_ttl_of :: "nonce_config \<Rightarrow> int" where
  "lock_ttl_of cfg = positiveInteger (ttlMs cfg) 300000"

definition retry_of :: "nonce_config \<Rightarrow> int" where
  "retry_of cfg = positiveInteger (retryMs cfg) 50"

text \<open>\<open>clock k\<close> is the reading of \<open>Date.now()\<close> after the \<open>k\<close>-th refused attempt.\<close>

fun acquire_loop :: "string \<Rightarrow> string \<Rightarrow> int \<Rightarrow> instant \<Rightarrow> (nat \<Rightarrow> instant) \<Rightarrow> nat \<Rightarrow> nat \<Rightarrow>
    ('r, nonce_error + unit) nonce_prog" where
  "acquire_loop key token ttl deadline clock k 0 = Return (Inl OutOfFuel)"
| "acquire_loop key token ttl deadline clock k (Suc fuel) =
     bind_ok (redis_acquireLockOrThrow Unavailable key (Token token) ttl) (\<lambda>got.
       if got then Return (Inr ())
       else if clock k \<ge> deadline then Return (Inl TimedOut)
       else acquire_loop key token ttl deadline clock (Suc k) fuel)"

definition acquire_fuel :: "nonce_config \<Rightarrow> nat" where
  "acquire_fuel cfg = Suc (Suc (nat (timeout_of cfg div retry_of cfg)))"

definition acquire :: "nonce_config \<Rightarrow> string \<Rightarrow> string \<Rightarrow> instant \<Rightarrow> (nat \<Rightarrow> instant) \<Rightarrow>
    ('r, nonce_error + unit) nonce_prog" where
  "acquire cfg key token now clock =
     acquire_loop key token (lock_ttl_of cfg) (now + timeout_of cfg) clock 0 (acquire_fuel cfg)"

section \<open>withNonce\<close>

definition getContractNonce :: "('r, nonce_error + jsnum) nonce_prog" where
  "getContractNonce = Await (Ext ReadNonce) (\<lambda>r. Return (case r of
      Answer (NonceIs n) \<Rightarrow> Inr n | Answer (Thrown b) \<Rightarrow> Inl (CallFailed b) | _ \<Rightarrow> Inl (CallFailed True)))"

definition operation :: "jsnum \<Rightarrow> ('r, nonce_error + 'r) nonce_prog" where
  "operation n = Await (Ext (Operate n)) (\<lambda>r. Return (case r of
      Answer (Submitted x) \<Rightarrow> Inr x | Answer (Thrown b) \<Rightarrow> Inl (CallFailed b) | _ \<Rightarrow> Inl (CallFailed True)))"

text \<open>\<open>resync\<close> swallows its own failure when the original error is an \<open>Error\<close>.\<close>

definition resync :: "string \<Rightarrow> nonce_error \<Rightarrow> ('r, nonce_error + unit) nonce_prog" where
  "resync cursorKey originalError =
     bind (bind_ok getContractNonce (\<lambda>n. redis_setOrThrow Unavailable cursorKey (Cursor n)))
     (\<lambda>r. Return (case r of Inr _ \<Rightarrow> Inr ()
        | Inl resyncError \<Rightarrow> if is_Error originalError then Inr () else Inl resyncError))"

definition num_plus1 :: "jsnum \<Rightarrow> jsnum" where
  "num_plus1 n = num_of_int (num_floor n + 1)"

definition cursor_is :: "nonce_value option \<Rightarrow> jsnum \<Rightarrow> bool" where
  "cursor_is cached n \<longleftrightarrow> n \<noteq> NaN \<and> cached = Some (Cursor n)"

text \<open>The inner \<open>try\<close>: run the operation and advance the cursor; on any error resynchronise
  and rethrow.\<close>

definition run_operation :: "string \<Rightarrow> jsnum \<Rightarrow> ('r, nonce_error + 'r) nonce_prog" where
  "run_operation cursorKey n =
     bind (bind_ok (operation n) (\<lambda>x.
           bind_ok (redis_setOrThrow Unavailable cursorKey (Cursor (num_plus1 n))) (\<lambda>_. Return (Inr x))))
     (\<lambda>r. case r of Inr x \<Rightarrow> Return (Inr x)
        | Inl e \<Rightarrow> bind_ok (resync cursorKey e) (\<lambda>_. Return (Inl e)))"

definition reserved_section :: "string \<Rightarrow> ('r, nonce_error + 'r) nonce_prog" where
  "reserved_section cursorKey =
     bind_ok (redis_getOrThrow Unavailable cursorKey) (\<lambda>cached.
     bind_ok getContractNonce (\<lambda>n.
       if \<not> isSafeInteger n \<or> num_less n (Num 0) then Return (Inl InvalidNonce)
       else if \<not> cursor_is cached n
       then bind_ok (redis_setOrThrow Unavailable cursorKey (Cursor n)) (\<lambda>_. run_operation cursorKey n)
       else run_operation cursorKey n))"

text \<open>The lock is released in \<open>finally\<close>; a failed release replaces the result.\<close>

definition withNonce :: "nonce_config \<Rightarrow> string \<Rightarrow> string \<Rightarrow> string \<Rightarrow> instant \<Rightarrow> (nat \<Rightarrow> instant) \<Rightarrow>
    ('r, nonce_error + 'r) nonce_prog" where
  "withNonce cfg contractAddress address token now clock =
     bind_ok (acquire cfg (lock_key contractAddress address) token now clock) (\<lambda>_.
     bind (reserved_section (cursor_key contractAddress address)) (\<lambda>r.
     bind_ok (redis_releaseLockOrThrow Unavailable (lock_key contractAddress address) (Token token))
       (\<lambda>_. Return r)))"

text \<open>\<open>next\<close>: the Redis counter, read as a number and increased by one.\<close>

fun bump_cursor :: "nonce_value option \<Rightarrow> int \<times> nonce_value" where
  "bump_cursor (Some (Cursor n)) = (num_floor n + 1, Cursor (num_of_int (num_floor n + 1)))"
| "bump_cursor _ = (1, Cursor (Num 1))"

definition next_nonce_of :: "string \<Rightarrow> string \<Rightarrow> ('r, nonce_error + int) nonce_prog" where
  "next_nonce_of contractAddress address =
     bind_ok (redis_incrOrThrow Unavailable bump_cursor (cursor_key contractAddress address))
       (\<lambda>incremented. Return (Inr (incremented - 1)))"

section \<open>The wait is long enough\<close>

text \<open>All values a program can return, whatever the responses.\<close>

primrec all_results :: "('a \<Rightarrow> bool) \<Rightarrow> ('v, 'x, 'y, 'a) prog \<Rightarrow> bool" where
  "all_results P (Return a) = P a"
| "all_results P (Await q k) = (\<forall>r. all_results P (k r))"

lemma all_results_bind:
  "all_results P (bind p f) \<longleftrightarrow> all_results (\<lambda>a. all_results P (f a)) p"
  by (induction p) auto

lemma acquire_loop_results:
  assumes "\<And>j. k \<le> j \<Longrightarrow> clock j \<ge> start + int j * retry" "retry > 0"
    and "start + int (k + fuel - 1) * retry \<ge> deadline" "fuel > 0"
  shows "all_results (\<lambda>r. r \<noteq> Inl OutOfFuel) (acquire_loop key token ttl deadline clock k fuel)"
  using assms
proof (induction fuel arbitrary: k)
  case (Suc fuel)
  show ?case
  proof (cases "clock k \<ge> deadline")
    case True
    then show ?thesis
      by (auto simp: bind_ok_def all_results_bind redis_acquireLockOrThrow_def)
  next
    case False
    have "fuel > 0"
    proof (rule ccontr)
      assume "\<not> fuel > 0"
      with Suc.prems(3) have "start + int k * retry \<ge> deadline" by simp
      with Suc.prems(1) [of k] False show False by simp
    qed
    then have "start + int (Suc k + fuel - 1) * retry \<ge> deadline" using Suc.prems(3) by simp
    note IH = Suc.IH [of "Suc k", OF _ Suc.prems(2) this \<open>fuel > 0\<close>]
    show ?thesis using IH Suc.prems(1)
      by (auto simp: bind_ok_def all_results_bind redis_acquireLockOrThrow_def)
  qed
qed simp


lemma positiveInteger_pos: "fallback > 0 \<Longrightarrow> positiveInteger x fallback > 0"
  by (auto simp: positiveInteger_def isInteger_conv)

lemma acquire_waits_long_enough:
  assumes "\<And>j. clock j \<ge> now + int j * retry_of cfg"
  shows "all_results (\<lambda>r. r \<noteq> Inl OutOfFuel) (acquire cfg key token now clock)"
proof -
  let ?r = "retry_of cfg" and ?t = "timeout_of cfg"
  have "?r > 0" "?t > 0" by (simp_all add: retry_of_def timeout_of_def positiveInteger_pos)
  then have "?t \<le> (?t div ?r + 1) * ?r"
    by (metis add.commute distrib_right less_imp_le mult.commute mult_1 mult_div_mod_eq add_left_mono
        pos_mod_bound)
  then have "now + int (0 + acquire_fuel cfg - 1) * ?r \<ge> now + ?t"
    using \<open>?r > 0\<close> \<open>?t > 0\<close> by (simp add: acquire_fuel_def pos_imp_zdiv_nonneg_iff distrib_right add.commute)
  then show ?thesis unfolding acquire_def
    using assms \<open>?r > 0\<close> by (intro acquire_loop_results [where start = now and retry = ?r])
      (auto simp: acquire_fuel_def)
qed


section \<open>Mutual exclusion\<close>

text \<open>The calls of a process are consecutive: once another process calls, it is finished.\<close>

definition serial :: "('x, 'y) call_log \<Rightarrow> bool" where
  "serial lg \<longleftrightarrow> distinct (remdups_adj (map fst lg))"

lemma remdups_adj_snoc:
  "remdups_adj (xs @ [x]) = (if xs \<noteq> [] \<and> last xs = x then remdups_adj xs else remdups_adj xs @ [x])"
  by (induction xs rule: remdups_adj.induct) auto

lemma serial_snoc:
  assumes "serial lg" "i \<notin> fst ` set lg \<or> lg \<noteq> [] \<and> fst (last lg) = i"
  shows "serial (lg @ [(i, x, y)])"
  using assms by (auto simp: serial_def remdups_adj_snoc last_map)

definition nonce_rely :: "('s \<Rightarrow> string \<Rightarrow> nonce_value option) \<Rightarrow> string \<Rightarrow> string list \<Rightarrow> nat \<Rightarrow>
    ('s, nonce_call, 'y) rel" where
  "nonce_rely str lk toks i w w' \<longleftrightarrow>
     (serial (calls w) \<longrightarrow> serial (calls w')) \<and>
     (str (server w) lk = Some (Token (toks ! i)) \<longrightarrow>
        str (server w') lk = str (server w) lk \<and> calls w' = calls w) \<and>
     (i \<notin> fst ` set (calls w) \<longrightarrow> i \<notin> fst ` set (calls w'))"

definition holding :: "('s \<Rightarrow> string \<Rightarrow> nonce_value option) \<Rightarrow> string \<Rightarrow> string list \<Rightarrow> nat \<Rightarrow>
    ('s, nonce_call, 'y) world \<Rightarrow> bool" where
  "holding str lk toks i w \<longleftrightarrow> str (server w) lk = Some (Token (toks ! i)) \<and> serial (calls w) \<and>
     (i \<notin> fst ` set (calls w) \<or> calls w \<noteq> [] \<and> fst (last (calls w)) = i)"

abbreviation nonce_guar where
  "nonce_guar str lk toks \<equiv> mindful (length toks) (\<lambda>w. serial (calls w)) (nonce_rely str lk toks)"

abbreviation nonce_rg where
  "nonce_rg exec str lk toks i \<equiv>
     rg exec (\<lambda>_. True) i (nonce_rely str lk toks i) (nonce_guar str lk toks i)"

lemma nonce_rely_preorder: "reflp (nonce_rely str lk toks i)" "transp (nonce_rely str lk toks i)"
  by (auto simp: nonce_rely_def intro!: reflpI transpI)

lemma holding_stable: "holding str lk toks i w \<Longrightarrow> nonce_rely str lk toks i w w' \<Longrightarrow> holding str lk toks i w'"
  by (auto simp: holding_def nonce_rely_def)

text \<open>A step by the holder of the lock that leaves it its lock, or gives it up.\<close>

lemma holder_step:
  assumes "holding str lk toks i w" "i < length toks" "distinct toks"
    and "calls w' = calls w \<or> (\<exists>x y. calls w' = calls w @ [(i, x, y)])"
  shows "nonce_guar str lk toks i w w'"
proof (rule mindfulI)
  show serial: "serial (calls w')"
    using assms by (auto simp: holding_def intro: serial_snoc)
  fix j assume "j < length toks" "j \<noteq> i"
  with assms have "toks ! j \<noteq> toks ! i" by (simp add: nth_eq_iff_index_eq)
  with assms \<open>j \<noteq> i\<close> serial show "nonce_rely str lk toks j w w'"
    by (auto simp: nonce_rely_def holding_def)
qed

text \<open>A step by a process that does not hold the lock: it may take a free one.\<close>

lemma free_step:
  assumes "str (server w') lk = str (server w) lk \<or> str (server w) lk = None" "calls w' = calls w"
  shows "nonce_guar str lk toks i w w'"
  using assms by (auto simp: nonce_rely_def intro!: mindfulI)

text \<open>Programs that never touch the lock.\<close>

definition neutral_request :: "string \<Rightarrow> ('v, 'x) request \<Rightarrow> bool" where
  "neutral_request lk q = (case q of Redis c \<Rightarrow> (\<forall>m. str_after c m lk = m lk) | Ext x \<Rightarrow> True)"

primrec neutral :: "string \<Rightarrow> ('v, 'x, 'y, 'a) prog \<Rightarrow> bool" where
  "neutral lk (Return a) = True"
| "neutral lk (Await q k) = (neutral_request lk q \<and> (\<forall>r. neutral lk (k r)))"

lemma neutral_bind: "neutral lk p \<Longrightarrow> (\<And>a. neutral lk (f a)) \<Longrightarrow> neutral lk (bind p f)"
  by (induction p) auto

lemma neutral_bind_ok: "neutral lk p \<Longrightarrow> (\<And>a. neutral lk (f a)) \<Longrightarrow> neutral lk (bind_ok p f)"
  unfolding bind_ok_def by (rule neutral_bind) (auto split: sum.split)

lemma neutral_section:
  assumes "cursorKey \<noteq> lk"
  shows "neutral lk (reserved_section cursorKey)"
proof -
  have get: "neutral lk (redis_getOrThrow Unavailable cursorKey)"
    and set: "neutral lk (redis_setOrThrow Unavailable cursorKey v)" for v :: nonce_value
    using assms by (auto simp: redis_methods neutral_request_def)
  have ext: "neutral lk getContractNonce" "neutral lk (operation n)" for n
    by (auto simp: getContractNonce_def operation_def neutral_request_def)
  have "neutral lk (resync cursorKey e)" for e
    unfolding resync_def by (intro neutral_bind neutral_bind_ok ext set) simp
  then have "neutral lk (run_operation cursorKey n)" for n
    unfolding run_operation_def
    by (intro neutral_bind neutral_bind_ok ext set) (auto split: sum.split intro!: neutral_bind_ok)
  then show ?thesis unfolding reserved_section_def
    by (intro neutral_bind neutral_bind_ok ext set get) (auto intro!: neutral_bind_ok set)
qed

text \<open>While it holds the lock, a process keeps it through any such program.\<close>

lemma rg_section:
  assumes server: "redis_server exec expire str mem" and "i < length toks" "distinct toks"
  shows "neutral lk p \<Longrightarrow> holding str lk toks i w \<Longrightarrow>
    nonce_rg exec str lk toks i (\<lambda>_. holding str lk toks i) p w"
proof (induction p arbitrary: w)
  case (Return a)
  then show ?case by (auto intro: holding_stable)
next
  case (Await q k)
  show ?case
  proof (cases q)
    case (Redis c)
    have keep: "holding str lk toks i w''" if "holding str lk toks i w'" "updates str mem c w' w''" for w' w''
      using that Await.prems Redis by (auto simp: holding_def updates_def neutral_request_def)
    show ?thesis unfolding Redis
    proof (rule redis_server.rg_cmd [OF server])
      fix w' assume "nonce_rely str lk toks i w w'"
      with Await.prems have here: "holding str lk toks i w'" by (blast intro: holding_stable)
      show "nonce_guar str lk toks i w' w' \<and>
        nonce_rg exec str lk toks i (\<lambda>_. holding str lk toks i) (k Failed) w'"
        using Await here by (auto intro: free_step)
      fix w'' assume up: "updates str mem c w' w''"
      show "nonce_guar str lk toks i w' w'' \<and>
        nonce_rg exec str lk toks i (\<lambda>_. holding str lk toks i) (k Failed) w''"
        using Await keep [OF here up] holder_step [OF here assms(2,3), of w''] up
        by (auto simp: updates_def)
      fix r show "nonce_rg exec str lk toks i (\<lambda>_. holding str lk toks i) (k (Reply r)) w''"
        using Await keep [OF here up] by auto
    qed
  next
    case (Ext x)
    show ?thesis unfolding Ext rg_Ext
    proof (intro allI impI)
      fix s lg y assume "nonce_rely str lk toks i w (World s lg)"
      with Await.prems have here: "holding str lk toks i (World s lg)" by (blast intro: holding_stable)
      then have "holding str lk toks i (World s (lg @ [(i, x, y)]))"
        by (auto simp: holding_def intro: serial_snoc)
      with Await holder_step [OF here assms(2,3), of "World s (lg @ [(i, x, y)])"]
      show "nonce_guar str lk toks i (World s lg) (World s (lg @ [(i, x, y)])) \<and>
        nonce_rg exec str lk toks i (\<lambda>_. holding str lk toks i) (k (Answer y)) (World s (lg @ [(i, x, y)]))"
        by auto
    qed
  qed
qed


lemma rg_acquire:
  assumes server: "redis_server exec expire str mem"
    and "serial (calls w)" "i \<notin> fst ` set (calls w)"
  shows "nonce_rg exec str lk toks i (\<lambda>r w. r = Inr () \<longrightarrow> holding str lk toks i w)
    (acquire_loop lk (toks ! i) ttl deadline clock k fuel) w"
  using assms(2,3)
proof (induction fuel arbitrary: k w)
  case (Suc fuel)
  let ?Q = "\<lambda>r w. r = Inr () \<longrightarrow> holding str lk toks i w"
  show ?case
    unfolding acquire_loop.simps bind_ok_def redis_acquireLockOrThrow_def bind.simps
  proof (rule redis_server.rg_cmd [OF server], goal_cases)
    case (1 w')
    then show ?case by (auto intro: free_step)
  next
    case (2 w' w'')
    then show ?case by (auto simp: updates_def intro!: free_step)
  next
    case (3 w' w'' r)
    then have here: "serial (calls w'')" "i \<notin> fst ` set (calls w'')"
      using Suc.prems by (auto simp: nonce_rely_def updates_def)
    show ?case
    proof (cases "r = OK")
      case True
      with 3 have "str (server w') lk = None" by (auto split: if_splits)
      with 3 here have "holding str lk toks i w''" by (auto simp: holding_def updates_def)
      with True show ?thesis by (auto intro: holding_stable)
    next
      case False
      then show ?thesis using Suc.IH [OF here] by auto
    qed
  qed
qed simp

lemma rg_withNonce:
  fixes contractAddress address
  defines "lk \<equiv> lock_key contractAddress address"
  assumes server: "redis_server exec expire str mem" and toks: "i < length toks" "distinct toks"
    and "serial (calls w)" "i \<notin> fst ` set (calls w)"
  shows "nonce_rg exec str lk toks i (\<lambda>_ _. True) (withNonce cfg contractAddress address (toks ! i) now clock) w"
proof -
  have release: "nonce_rg exec str lk toks i (\<lambda>_ _. True)
      (bind_ok (redis_releaseLockOrThrow Unavailable lk (Token (toks ! i))) (\<lambda>_. Return r)) w'"
    if "holding str lk toks i w'" for w' and r
    unfolding bind_ok_def redis_releaseLockOrThrow_def bind.simps
  proof (rule redis_server.rg_cmd [OF server], goal_cases)
    case (1 v)
    then show ?case by (auto intro: free_step)
  next
    case (2 v v')
    then have "holding str lk toks i v" using that by (blast intro: holding_stable)
    with 2 toks show ?case by (auto simp: updates_def intro!: holder_step)
  next
    case 3
    then show ?case by auto
  qed
  have "cursor_key contractAddress address \<noteq> lk" by (simp add: lk_def lock_key_def)
  note neutral = neutral_section [OF this]
  have sect: "nonce_rg exec str lk toks i (\<lambda>_ _. True) (bind (reserved_section (cursor_key contractAddress address))
      (\<lambda>r. bind_ok (redis_releaseLockOrThrow Unavailable lk (Token (toks ! i))) (\<lambda>_. Return r))) w'"
    if "holding str lk toks i w'" for w'
    by (rule rg_bind [OF nonce_rely_preorder(1)], rule rg_weaken [OF _ rg_section [OF server toks _ that]])
       (auto intro!: release neutral)
  show ?thesis
    unfolding withNonce_def acquire_def lk_def [symmetric] bind_ok_def [of "acquire_loop _ _ _ _ _ _ _"]
    by (rule rg_bind [OF nonce_rely_preorder(1)], rule rg_weaken [OF _ rg_acquire [OF server assms(5,6)]])
       (auto split: sum.split intro: sect)
qed

section \<open>Properties\<close>

text \<open>
  C17. For one account of one contract, concurrent \<open>withNonce\<close> calls are mutually exclusive:
  under every interleaving, with any refused commands and lost replies, no other call
  queries the contract's nonce or submits an operation between the nonce query of a call and
  the end of its operation, as long as the lock does not expire.
\<close>

theorem nonce_calls_exclusive:
  assumes server: "redis_server exec expire str mem"
    and tokens: "distinct (map fst rs)"
    and sched: "list_all (permitted (\<lambda>_. True) (\<lambda>k. k \<noteq> lock_key contractAddress address)) es"
    and run: "sys_run exec expire es
      (World s [], map (\<lambda>(token, now, clock). withNonce cfg contractAddress address token now clock) rs) =
      (World s' lg, ps)"
  shows "serial lg"
proof -
  define toks where "toks = map fst rs"
  let ?lk = "lock_key contractAddress address"
  let ?ps = "map (\<lambda>(token, now, clock). withNonce cfg contractAddress address token now clock) rs"
  have n: "length ?ps = length toks" by (simp add: toks_def)
  have empty: "serial (calls (World s []))" by (simp add: serial_def)
  have "nonce_rg exec str ?lk toks i (\<lambda>_ _. True) (?ps ! i) (World s [])" if "i < length toks" for i
  proof -
    obtain tok now clock where r: "rs ! i = (tok, now, clock)" by (cases "rs ! i")
    with that have p: "?ps ! i = withNonce cfg contractAddress address (toks ! i) now clock"
      by (simp add: toks_def)
    show ?thesis unfolding p
      by (rule rg_withNonce [OF server that]) (use tokens in \<open>auto simp: toks_def serial_def\<close>)
  qed
  then have all: "all_rg exec (\<lambda>_. True) (nonce_rely str ?lk toks)
      (mindful (length ?ps) (\<lambda>w. serial (calls w)) (nonce_rely str ?lk toks)) (\<lambda>_ _ _. True) ?ps (World s [])"
    unfolding all_rg_def n by blast
  have expiry: "nonce_rely str ?lk toks i (World s lg) (World (expire k s) lg)" if "k \<noteq> ?lk" for i k s lg
    using that by (auto simp: nonce_rely_def redis_server.str_expire [OF server])
  have "serial (calls (World s' lg))"
    by (rule mindful_processes(1) [OF nonce_rely_preorder expiry _ all sched empty run]) auto
  then show ?thesis by simp
qed


definition default_nonce_config :: nonce_config where
  "default_nonce_config = \<lparr>waitMs = NaN, ttlMs = NaN, retryMs = NaN\<rparr>"

definition nonce_schedule :: "nat nonce_answer event list" where
  "nonce_schedule = [Deliver 0, Deliver 1, Deliver 0, Respond 0 (NonceIs (Num 4)), Deliver 1, Deliver 0,
     Respond 0 (Submitted 77), Deliver 1, Deliver 0, Deliver 0, Deliver 1, Deliver 1,
     Respond 1 (NonceIs (Num 5)), Respond 1 (Submitted 78), Lose 1, Respond 1 (NonceIs (Num 6)), Deliver 1, Deliver 1]"

definition nonce_callers :: "(string \<times> instant \<times> (nat \<Rightarrow> instant)) list" where
  "nonce_callers = [(''a'', 0, \<lambda>k. 50 * int k), (''b'', 0, \<lambda>k. 50 * int k)]"

definition nonce_end where
  "nonce_end = sys_run memory_exec forget nonce_schedule (World empty_redis [],
     map (\<lambda>(token, now, clock). withNonce default_nonce_config ''C'' ''A'' token now clock) nonce_callers)"

text \<open>
  The second caller waits for the first. Its own operation is submitted, but the write of the
  cursor behind it fails, and the caller is told that the call failed.
\<close>

lemma nonce_end_calls:
  "calls (fst nonce_end) =
     [(0, ReadNonce, NonceIs (Num 4)), (0, Operate (Num 4), Submitted 77),
      (1, ReadNonce, NonceIs (Num 5)), (1, Operate (Num 5), Submitted 78), (1, ReadNonce, NonceIs (Num 6))]"
  by code_simp

lemma submitted_operation_reported_failed:
  "map result_of (snd nonce_end) = [Some (Inr 77), Some (Inl Unavailable)]"
  by code_simp

theorem nonce_calls_exclusive_witness:
  "serial (calls (fst nonce_end)) \<and> length (calls (fst nonce_end)) = 5"
proof -
  obtain s lg ps where e: "nonce_end = (World s lg, ps)" by (metis surj_pair world.exhaust)
  have sched: "list_all (permitted (\<lambda>_. True) (\<lambda>k. k \<noteq> lock_key ''C'' ''A'')) nonce_schedule" by code_simp
  have toks: "distinct (map fst nonce_callers)" by (simp add: nonce_callers_def)
  have "calls (fst nonce_end) = lg" by (simp add: e)
  moreover have "serial lg"
    using nonce_calls_exclusive [OF memory.redis_server_axioms toks sched e [unfolded nonce_end_def]] .
  moreover have "length (calls (fst nonce_end)) = 5" by (simp add: nonce_end_calls)
  ultimately show ?thesis by simp
qed

end
