(* ===== verification/Job_Queue.thy ===== *)
theory Job_Queue
  imports Redis_Client
begin

text \<open>
  The background job queue: \<open>api/src/workers/interfaces/job.interface.ts\<close>, the admission rule
  of \<open>workers/services/queue-backpressure.ts\<close>, the queue of \<open>workers/services/job-queue.service.ts\<close>,
  the worker of \<open>workers/services/worker.service.ts\<close> and the enqueue route of
  \<open>workers/controllers/jobs.controller.ts\<close>. Operations are programs over the shared Redis
  server. A job handler is an external call; a handler that runs into the processing timeout
  is one that throws. Job types are the enum's strings, an unknown one has no limits
  (inherited members of \<open>Object.prototype\<close> are not represented). An environment variable is
  the number its text converts to, \<open>NaN\<close> when it is unset.
\<close>

section \<open>Jobs\<close>

definition RECONCILIATION :: string where "RECONCILIATION = ''reconciliation''"
definition DATA_EXPORT :: string where "DATA_EXPORT = ''data_export''"
definition COUPON_DISTRIBUTION :: string where "COUPON_DISTRIBUTION = ''coupon_distribution''"
definition ORACLE_SYNC :: string where "ORACLE_SYNC = ''oracle_sync''"
definition PORTFOLIO_REBALANCE :: string where "PORTFOLIO_REBALANCE = ''portfolio_rebalance''"

definition JobType :: "string list" where
  "JobType = [RECONCILIATION, DATA_EXPORT, COUPON_DISTRIBUTION, ORACLE_SYNC, PORTFOLIO_REBALANCE]"

lemmas job_types = RECONCILIATION_def DATA_EXPORT_def COUPON_DISTRIBUTION_def ORACLE_SYNC_def
  PORTFOLIO_REBALANCE_def JobType_def

datatype JobStatus = PENDING | PROCESSING | SUCCESS | FAILED | DEAD_LETTER

record 'd JobPayload =
  p_type :: string
  p_data :: 'd
  p_userId :: "string option"
  p_correlationId :: "string option"

record ('d, 'r) Job =
  j_id :: string
  j_type :: string
  j_status :: JobStatus
  j_payload :: "'d JobPayload"
  j_retries :: int
  j_maxRetries :: int
  j_correlationId :: string
  j_lastError :: "string option"
  j_lastErrorAt :: "instant option"
  j_createdAt :: instant
  j_startedAt :: "instant option"
  j_completedAt :: "instant option"
  j_result :: "'r option"
  j_admittedFor :: "string option"

definition DEFAULT_MAX_RETRIES :: int where "DEFAULT_MAX_RETRIES = 3"

definition isTerminal :: "('d, 'r) Job \<Rightarrow> bool" where
  "isTerminal job \<longleftrightarrow> j_status job = SUCCESS \<or> j_status job = DEAD_LETTER"

section \<open>Admission\<close>

record QueueTypeLimit =
  maxDepth :: int
  perUserMaxDepth :: int
  adminReserve :: int
  retryAfterSeconds :: int

record QueueLimits =
  q_enabled :: bool
  globalMaxDepth :: int
  globalAdminReserve :: int
  q_types :: "(string \<times> QueueTypeLimit) list"

definition type_limit :: "int \<Rightarrow> int \<Rightarrow> int \<Rightarrow> int \<Rightarrow> QueueTypeLimit" where
  "type_limit d u a r = \<lparr>maxDepth = d, perUserMaxDepth = u, adminReserve = a, retryAfterSeconds = r\<rparr>"

definition DEFAULT_QUEUE_LIMITS :: QueueLimits where
  "DEFAULT_QUEUE_LIMITS = \<lparr>q_enabled = True, globalMaxDepth = 1000, globalAdminReserve = 50,
     q_types = [(DATA_EXPORT, type_limit 100 3 10 60), (RECONCILIATION, type_limit 5 1 2 300),
                (PORTFOLIO_REBALANCE, type_limit 200 5 10 30), (ORACLE_SYNC, type_limit 50 5 10 60),
                (COUPON_DISTRIBUTION, type_limit 500 50 50 30)]\<rparr>"

definition ADMISSION_LOCK_TTL_MS :: int where "ADMISSION_LOCK_TTL_MS = 5000"
definition ADMISSION_LOCK_ATTEMPTS :: nat where "ADMISSION_LOCK_ATTEMPTS = 5"

definition positiveInt :: "jsnum \<Rightarrow> int \<Rightarrow> int" where
  "positiveInt parsed fallback =
     (if isInteger parsed \<and> num_le (Num 0) parsed then num_floor parsed else fallback)"

text \<open>The environment: the kill switch, the global overrides and the overrides per type.\<close>

record queue_env =
  env_off :: bool
  env_max_depth :: jsnum
  env_admin_reserve :: jsnum
  env_type_depth :: "string \<Rightarrow> jsnum"
  env_user_depth :: "string \<Rightarrow> jsnum"

definition resolveQueueLimits :: "queue_env \<Rightarrow> QueueLimits" where
  "resolveQueueLimits env =
     \<lparr>q_enabled = \<not> env_off env,
      globalMaxDepth = positiveInt (env_max_depth env) (globalMaxDepth DEFAULT_QUEUE_LIMITS),
      globalAdminReserve = positiveInt (env_admin_reserve env) (globalAdminReserve DEFAULT_QUEUE_LIMITS),
      q_types = map (\<lambda>t. let base = the (map_of (q_types DEFAULT_QUEUE_LIMITS) t) in
        (t, base\<lparr>maxDepth := positiveInt (env_type_depth env t) (maxDepth base),
                 perUserMaxDepth := positiveInt (env_user_depth env t) (perUserMaxDepth base)\<rparr>)) JobType\<rparr>"

datatype BackpressureScope = Scope_global | Scope_type | Scope_user | Scope_contended

datatype BackpressureDecision = Admitted | Rejected BackpressureScope int int

record QueueDepths =
  d_global :: int
  d_type :: int
  d_user :: int

definition decideAdmission :: "QueueLimits \<Rightarrow> QueueTypeLimit \<Rightarrow> QueueDepths \<Rightarrow> bool \<Rightarrow> BackpressureDecision" where
  "decideAdmission limits typeLimit depths privileged =
     (let typeBound = maxDepth typeLimit + (if privileged then adminReserve typeLimit else 0);
          globalBound = globalMaxDepth limits + (if privileged then globalAdminReserve limits else 0) in
      if \<not> privileged \<and> d_user depths \<ge> perUserMaxDepth typeLimit
      then Rejected Scope_user (d_user depths) (perUserMaxDepth typeLimit)
      else if d_type depths \<ge> typeBound then Rejected Scope_type (d_type depths) typeBound
      else if d_global depths \<ge> globalBound then Rejected Scope_global (d_global depths) globalBound
      else Admitted)"

datatype queue_error =
    Backpressure string BackpressureScope int "int option" "int option"
  | UnknownJobType string
  | ForbiddenJobType string
  | QueueUnavailable

section \<open>JobQueueService\<close>

text \<open>A text in Redis: a job, the token of the admission lock, or a processing claim.\<close>

datatype ('d, 'r) job_value = JobText "('d, 'r) Job" | Lock string | Claim

type_synonym ('d, 'r, 'x, 'y, 'a) queue_prog = "(('d, 'r) job_value, 'x, 'y, 'a) prog"

definition QUEUE_KEY :: string where "QUEUE_KEY = ''job:queue''"
definition job_key :: "string \<Rightarrow> string" where "job_key i = ''job:'' @ i"
definition processing_key :: "string \<Rightarrow> string" where "processing_key i = ''job:processing:'' @ i"
definition DEAD_LETTER_KEY :: string where "DEAD_LETTER_KEY = ''job:dead-letter''"
definition type_index :: "string \<Rightarrow> string" where "type_index t = ''job:queue:type:'' @ t"
definition user_index :: "string \<Rightarrow> string" where "user_index u = ''job:queue:user:'' @ u"
definition ADMISSION_LOCK_KEY :: string where "ADMISSION_LOCK_KEY = ''job:admission:lock''"
definition PROCESSING_LOCK_SECONDS :: int where "PROCESSING_LOCK_SECONDS = 600"

lemmas queue_keys = QUEUE_KEY_def job_key_def processing_key_def DEAD_LETTER_KEY_def type_index_def
  user_index_def ADMISSION_LOCK_KEY_def

definition truthy :: "string option \<Rightarrow> bool" where
  "truthy s \<longleftrightarrow> s \<noteq> None \<and> s \<noteq> Some []"

fun as_job :: "('d, 'r) job_value option \<Rightarrow> ('d, 'r) Job option" where
  "as_job (Some (JobText j)) = Some j"
| "as_job _ = None"

primrec acquireAdmission :: "nat \<Rightarrow> string \<Rightarrow> ('d, 'r, 'x, 'y, queue_error + bool) queue_prog" where
  "acquireAdmission 0 token = Return (Inr False)"
| "acquireAdmission (Suc n) token =
     bind_ok (redis_acquireLockOrThrow QueueUnavailable ADMISSION_LOCK_KEY (Lock token) ADMISSION_LOCK_TTL_MS)
       (\<lambda>got. if got then Return (Inr True) else acquireAdmission n token)"

definition readDepths :: "string \<Rightarrow> string option \<Rightarrow> ('d, 'r, 'x, 'y, queue_error + QueueDepths) queue_prog" where
  "readDepths t userId =
     bind_ok (redis_sMembersOrThrow QueueUnavailable QUEUE_KEY) (\<lambda>g.
     bind_ok (redis_sMembersOrThrow QueueUnavailable (type_index t)) (\<lambda>ty.
     bind_ok (if truthy userId then redis_sMembersOrThrow QueueUnavailable (user_index (the userId))
              else Return (Inr [])) (\<lambda>u.
     Return (Inr \<lparr>d_global = int (length g), d_type = int (length ty), d_user = int (length u)\<rparr>))))"

primrec prune_members :: "string \<Rightarrow> string list \<Rightarrow> ('d, 'r, 'x, 'y, queue_error + unit) queue_prog" where
  "prune_members key [] = Return (Inr ())"
| "prune_members key (jobId # ids) =
     bind_ok (redis_getOrThrow QueueUnavailable (job_key jobId)) (\<lambda>raw.
       if (case as_job raw of Some job \<Rightarrow> \<not> isTerminal job | None \<Rightarrow> False)
       then prune_members key ids
       else bind (if (case as_job raw of Some job \<Rightarrow> j_status job = DEAD_LETTER | None \<Rightarrow> False)
                  then redis_sAdd DEAD_LETTER_KEY jobId else Return ()) (\<lambda>_.
            bind (redis_sRem key jobId) (\<lambda>_. prune_members key ids)))"

primrec prune_keys :: "string list \<Rightarrow> ('d, 'r, 'x, 'y, queue_error + unit) queue_prog" where
  "prune_keys [] = Return (Inr ())"
| "prune_keys (key # keys) =
     bind_ok (redis_sMembersOrThrow QueueUnavailable key) (\<lambda>ids.
     bind_ok (prune_members key ids) (\<lambda>_. prune_keys keys))"

definition pruneIndexes :: "string \<Rightarrow> string option \<Rightarrow> ('d, 'r, 'x, 'y, queue_error + unit) queue_prog" where
  "pruneIndexes t userId =
     prune_keys ([QUEUE_KEY, type_index t] @ (if truthy userId then [user_index (the userId)] else []))"

definition removeFromIndexes :: "('d, 'r) Job \<Rightarrow> ('d, 'r, 'x, 'y, unit) queue_prog" where
  "removeFromIndexes job =
     bind (redis_sRem (type_index (j_type job)) (j_id job)) (\<lambda>_.
       if truthy (j_admittedFor job) then redis_sRem (user_index (the (j_admittedFor job))) (j_id job)
       else Return ())"

text \<open>\<open>uuids\<close>: the job id and the correlation id drawn for the job.\<close>

definition new_job :: "'d JobPayload \<Rightarrow> int \<Rightarrow> string option \<Rightarrow> string \<times> string \<Rightarrow> instant \<Rightarrow> ('d, 'r) Job" where
  "new_job payload maxRetries admittedFor uuids now =
     \<lparr>j_id = fst uuids, j_type = p_type payload, j_status = PENDING, j_payload = payload,
      j_retries = 0, j_maxRetries = maxRetries,
      j_correlationId = (case p_correlationId payload of Some c \<Rightarrow> c | None \<Rightarrow> snd uuids),
      j_lastError = None, j_lastErrorAt = None, j_createdAt = now, j_startedAt = None,
      j_completedAt = None, j_result = None,
      j_admittedFor = (if truthy admittedFor then admittedFor else None)\<rparr>"

definition persistNewJob :: "'d JobPayload \<Rightarrow> int \<Rightarrow> string option \<Rightarrow> string \<times> string \<Rightarrow> instant \<Rightarrow>
    ('d, 'r, 'x, 'y, queue_error + ('d, 'r) Job) queue_prog" where
  "persistNewJob payload maxRetries admittedFor uuids now =
     (let job = new_job payload maxRetries admittedFor uuids now in
      bind (redis_set (job_key (fst uuids)) (JobText job) False None) (\<lambda>_.
      bind (redis_expire (job_key (fst uuids)) 604800) (\<lambda>_.
      bind (redis_sAdd QUEUE_KEY (fst uuids)) (\<lambda>_.
      bind (redis_sAdd (type_index (j_type job)) (fst uuids)) (\<lambda>_.
      bind (if truthy admittedFor then redis_sAdd (user_index (the admittedFor)) (fst uuids) else Return ())
      (\<lambda>_. Return (Inr job)))))))"

definition admit :: "QueueLimits \<Rightarrow> QueueTypeLimit \<Rightarrow> 'd JobPayload \<Rightarrow> int \<Rightarrow> bool \<Rightarrow> string option \<Rightarrow>
    string \<times> string \<Rightarrow> instant \<Rightarrow> BackpressureDecision \<Rightarrow> ('d, 'r, 'x, 'y, queue_error + ('d, 'r) Job) queue_prog" where
  "admit limits typeLimit payload maxRetries privileged userId uuids now decision =
     (case decision of
        Admitted \<Rightarrow> persistNewJob payload maxRetries userId uuids now
      | Rejected scope depth bound \<Rightarrow>
          Return (Inl (Backpressure (p_type payload) scope (retryAfterSeconds typeLimit) (Some depth) (Some bound))))"

definition admission :: "QueueLimits \<Rightarrow> 'd JobPayload \<Rightarrow> int \<Rightarrow> bool \<Rightarrow> string \<times> string \<Rightarrow> instant \<Rightarrow>
    ('d, 'r, 'x, 'y, queue_error + ('d, 'r) Job) queue_prog" where
  "admission limits payload maxRetries privileged uuids now =
     (let userId = (if privileged then None else p_userId payload) in
      case map_of (q_types limits) (p_type payload) of
        None \<Rightarrow> Return (Inl (UnknownJobType (p_type payload)))
      | Some typeLimit \<Rightarrow>
          bind_ok (readDepths (p_type payload) userId) (\<lambda>depths.
          case decideAdmission limits typeLimit depths privileged of
            Admitted \<Rightarrow> persistNewJob payload maxRetries userId uuids now
          | Rejected _ _ _ \<Rightarrow>
              bind_ok (pruneIndexes (p_type payload) userId) (\<lambda>_.
              bind_ok (readDepths (p_type payload) userId) (\<lambda>depths2.
              admit limits typeLimit payload maxRetries privileged userId uuids now
                (decideAdmission limits typeLimit depths2 privileged)))))"

text \<open>The lock is released in \<open>finally\<close>; a failed release is ignored.\<close>

definition enqueue :: "QueueLimits \<Rightarrow> 'd JobPayload \<Rightarrow> int \<Rightarrow> bool \<Rightarrow> string \<Rightarrow> string \<times> string \<Rightarrow> instant \<Rightarrow>
    ('d, 'r, 'x, 'y, queue_error + ('d, 'r) Job) queue_prog" where
  "enqueue limits payload maxRetries privileged token uuids now =
     (if \<not> q_enabled limits then persistNewJob payload maxRetries None uuids now
      else bind_ok (acquireAdmission ADMISSION_LOCK_ATTEMPTS token) (\<lambda>got.
        if \<not> got then Return (Inl (Backpressure (p_type payload) Scope_contended 1 None None))
        else bind (admission limits payload maxRetries privileged uuids now) (\<lambda>r.
             bind (redis_releaseLockOrThrow QueueUnavailable ADMISSION_LOCK_KEY (Lock token))
             (\<lambda>_. Return r))))"

text \<open>Claiming the next runnable job.\<close>

primrec dequeue_from :: "string list \<Rightarrow> instant \<Rightarrow>
    ('d, 'r, 'x, 'y, queue_error + ('d, 'r) Job option) queue_prog" where
  "dequeue_from [] now = Return (Inr None)"
| "dequeue_from (jobId # ids) now =
     bind_ok (redis_getOrThrow QueueUnavailable (job_key jobId)) (\<lambda>jobData.
       case as_job jobData of
         None \<Rightarrow> bind (redis_sRem QUEUE_KEY jobId) (\<lambda>_. dequeue_from ids now)
       | Some job \<Rightarrow>
           if isTerminal job then
             bind (if j_status job = DEAD_LETTER then redis_sAdd DEAD_LETTER_KEY jobId else Return ()) (\<lambda>_.
             bind (redis_sRem QUEUE_KEY jobId) (\<lambda>_.
             bind (removeFromIndexes job) (\<lambda>_. dequeue_from ids now)))
           else
             bind (redis_setNx Claim (processing_key jobId) PROCESSING_LOCK_SECONDS) (\<lambda>claimed.
             if \<not> claimed then dequeue_from ids now
             else let job' = job\<lparr>j_status := PROCESSING, j_startedAt := Some now\<rparr> in
               bind (redis_set (job_key jobId) (JobText job') False None) (\<lambda>_. Return (Inr (Some job')))))"

definition dequeue :: "instant \<Rightarrow> ('d, 'r, 'x, 'y, queue_error + ('d, 'r) Job option) queue_prog" where
  "dequeue now = bind (redis_sMembers QUEUE_KEY) (\<lambda>members. dequeue_from members now)"

definition persist :: "string \<Rightarrow> ('d, 'r) Job \<Rightarrow> ('d, 'r, 'x, 'y, bool) queue_prog" where
  "persist jobKey job = redis_set jobKey (JobText job) False None"

definition markSuccess :: "string \<Rightarrow> 'r option \<Rightarrow> instant \<Rightarrow> ('d, 'r, 'x, 'y, unit) queue_prog" where
  "markSuccess jobId res now =
     bind (redis_get (job_key jobId)) (\<lambda>jobData. case as_job jobData of
        None \<Rightarrow> Return ()
      | Some job \<Rightarrow>
          if isTerminal job then Return ()
          else let job' = job\<lparr>j_status := SUCCESS, j_completedAt := Some now,
                             j_result := (case res of None \<Rightarrow> j_result job | Some _ \<Rightarrow> res)\<rparr> in
            bind (persist (job_key jobId) job') (\<lambda>saved.
              if \<not> saved then Return ()
              else bind (redis_sRem QUEUE_KEY jobId) (\<lambda>_.
                   bind (removeFromIndexes job') (\<lambda>_.
                   redis_del (processing_key jobId)))))"

definition failed_job :: "('d, 'r) Job \<Rightarrow> string \<Rightarrow> instant \<Rightarrow> ('d, 'r) Job" where
  "failed_job job err now =
     job\<lparr>j_retries := j_retries job + 1, j_lastError := Some err, j_lastErrorAt := Some now\<rparr>"

definition markFailure :: "string \<Rightarrow> string \<Rightarrow> instant \<Rightarrow> ('d, 'r, 'x, 'y, bool) queue_prog" where
  "markFailure jobId err now =
     bind (redis_get (job_key jobId)) (\<lambda>jobData. case as_job jobData of
        None \<Rightarrow> Return False
      | Some job0 \<Rightarrow>
          if isTerminal job0 then Return False
          else let job = failed_job job0 err now in
          if j_retries job \<ge> j_maxRetries job then
            let job' = job\<lparr>j_status := DEAD_LETTER, j_completedAt := Some now\<rparr> in
            bind (persist (job_key jobId) job') (\<lambda>saved.
              if \<not> saved then Return False
              else bind (redis_sAdd DEAD_LETTER_KEY jobId) (\<lambda>_.
                   bind (redis_sRem QUEUE_KEY jobId) (\<lambda>_.
                   bind (removeFromIndexes job') (\<lambda>_.
                   bind (redis_del (processing_key jobId)) (\<lambda>_. Return False)))))
          else
            let job' = job\<lparr>j_status := PENDING\<rparr> in
            bind (persist (job_key jobId) job') (\<lambda>saved.
              if \<not> saved then Return False
              else bind (redis_sAdd QUEUE_KEY jobId) (\<lambda>_.
                   bind (redis_del (processing_key jobId)) (\<lambda>_. Return True))))"

definition getJob :: "string \<Rightarrow> ('d, 'r, 'x, 'y, ('d, 'r) Job option) queue_prog" where
  "getJob jobId = bind (redis_get (job_key jobId)) (\<lambda>jobData. Return (as_job jobData))"

primrec collect_dead :: "string list \<Rightarrow> ('d, 'r, 'x, 'y, ('d, 'r) Job list) queue_prog" where
  "collect_dead [] = Return []"
| "collect_dead (jobId # ids) =
     bind (getJob jobId) (\<lambda>job. bind (collect_dead ids) (\<lambda>rest.
       Return (case job of Some j \<Rightarrow> if j_status j = DEAD_LETTER then j # rest else rest | None \<Rightarrow> rest)))"

definition getDeadLetterJobs :: "nat \<Rightarrow> ('d, 'r, 'x, 'y, ('d, 'r) Job list) queue_prog" where
  "getDeadLetterJobs bound = bind (redis_sMembers DEAD_LETTER_KEY) (\<lambda>members. collect_dead (take bound members))"

definition getQueueSize :: "('d, 'r, 'x, 'y, int) queue_prog" where
  "getQueueSize = bind (redis_sMembers QUEUE_KEY) (\<lambda>members. Return (int (length members)))"


record BackpressureStatus =
  b_enabled :: bool
  b_global :: "int \<times> int \<times> int \<times> bool"
  b_types :: "(string \<times> int \<times> int \<times> int \<times> bool) list"

text \<open>Depth, bound, reserve and saturation of each type.\<close>

primrec type_statuses :: "QueueLimits \<Rightarrow> string list \<Rightarrow>
    ('d, 'r, 'x, 'y, (string \<times> int \<times> int \<times> int \<times> bool) list) queue_prog" where
  "type_statuses limits [] = Return []"
| "type_statuses limits (t # ts) =
     (let lim = the (map_of (q_types limits) t) in
      bind (redis_sMembers (type_index t)) (\<lambda>members. let depth = int (length members) in
      bind (type_statuses limits ts) (\<lambda>rest.
      Return ((t, depth, maxDepth lim, adminReserve lim, depth \<ge> maxDepth lim) # rest))))"

definition getBackpressureStatus :: "QueueLimits \<Rightarrow> ('d, 'r, 'x, 'y, BackpressureStatus) queue_prog" where
  "getBackpressureStatus limits =
     bind (redis_sMembers QUEUE_KEY) (\<lambda>members. let depth = int (length members) in
     bind (type_statuses limits JobType) (\<lambda>types.
     Return \<lparr>b_enabled = q_enabled limits,
             b_global = (depth, globalMaxDepth limits, globalAdminReserve limits, depth \<ge> globalMaxDepth limits),
             b_types = types\<rparr>))"

section \<open>Worker and controller\<close>

datatype 'd worker_call = Handle string 'd

datatype 'r job_answer = HandlerReturned 'r | HandlerThrew string

type_synonym ('d, 'r, 'a) work_prog = "('d, 'r, 'd worker_call, 'r job_answer, 'a) queue_prog"

definition processNextJob :: "bool \<Rightarrow> (string \<Rightarrow> bool) \<Rightarrow> instant \<Rightarrow> instant \<Rightarrow>
    ('d, 'r, queue_error + bool) work_prog" where
  "processNextJob isProcessing handlers now later =
     (if isProcessing then Return (Inr False)
      else bind_ok (dequeue now) (\<lambda>next. case next of
          None \<Rightarrow> Return (Inr False)
        | Some job \<Rightarrow>
            if \<not> handlers (j_type job)
            then bind (markFailure (j_id job) (''No handler for type '' @ j_type job) later) (\<lambda>_. Return (Inr True))
            else Await (Ext (Handle (j_type job) (p_data (j_payload job)))) (\<lambda>r. case r of
                Answer (HandlerReturned x) \<Rightarrow> bind (markSuccess (j_id job) (Some x) later) (\<lambda>_. Return (Inr True))
              | Answer (HandlerThrew m) \<Rightarrow> bind (markFailure (j_id job) m later) (\<lambda>_. Return (Inr True))
              | _ \<Rightarrow> Return (Inr True))))"

definition SELF_SERVICE_JOB_TYPES :: "string set" where
  "SELF_SERVICE_JOB_TYPES = {DATA_EXPORT, PORTFOLIO_REBALANCE}"

text \<open>The route; \<open>wallet\<close> and \<open>sub\<close> are those of the verified token.\<close>

definition enqueueJob :: "QueueLimits \<Rightarrow> string option \<Rightarrow> string option \<Rightarrow> string option \<Rightarrow> 'd JobPayload \<Rightarrow>
    string \<Rightarrow> string \<times> string \<Rightarrow> instant \<Rightarrow> ('d, 'r, 'x, 'y, queue_error + ('d, 'r) Job) queue_prog" where
  "enqueueJob limits adminKey wallet sub payload token uuids now =
     (let caller = (case wallet of Some a \<Rightarrow> Some a | None \<Rightarrow> sub);
          privileged = (truthy adminKey \<and> wallet = adminKey) in
      if \<not> privileged \<and> p_type payload \<notin> SELF_SERVICE_JOB_TYPES
      then Return (Inl (ForbiddenJobType (p_type payload)))
      else enqueue limits (payload\<lparr>p_userId := caller\<rparr>) DEFAULT_MAX_RETRIES privileged token uuids now)"

section \<open>Programs that cannot overfill a type\<close>

text \<open>
  For one type \<open>t\<close>: a command is harmless when it does not touch the admission lock, adds
  nothing to the index of \<open>t\<close>, and queues no job whose record key is the lock's key.
\<close>

definition LOCK_ID :: string where "LOCK_ID = ''admission:lock''"

definition proper_jobs :: "(string \<Rightarrow> ('d, 'r) job_value option) \<Rightarrow> bool" where
  "proper_jobs m \<longleftrightarrow> (\<forall>k j. m k = Some (JobText j) \<longrightarrow> j_id j \<noteq> LOCK_ID)"

definition harmless_cmd :: "string \<Rightarrow> ('d, 'r) job_value redis_cmd \<Rightarrow> bool" where
  "harmless_cmd t c \<longleftrightarrow>
     (\<forall>m. str_after c m ADMISSION_LOCK_KEY = m ADMISSION_LOCK_KEY) \<and>
     (\<forall>m. proper_jobs m \<longrightarrow> proper_jobs (str_after c m)) \<and>
     (\<forall>f. mem_after c f (type_index t) \<subseteq> f (type_index t)) \<and>
     (\<forall>f. LOCK_ID \<notin> f QUEUE_KEY \<longrightarrow> LOCK_ID \<notin> mem_after c f QUEUE_KEY)"

definition plausible :: "('d, 'r) job_value redis_cmd \<Rightarrow> (('d, 'r) job_value, 'y) response \<Rightarrow> bool" where
  "plausible c r \<longleftrightarrow>
     (\<forall>xs. c = SMEMBERS QUEUE_KEY \<longrightarrow> r = Reply (Members xs) \<longrightarrow> LOCK_ID \<notin> set xs) \<and>
     (\<forall>k j. c = GET k \<longrightarrow> r = Reply (Val (JobText j)) \<longrightarrow> j_id j \<noteq> LOCK_ID)"

primrec harmless :: "string \<Rightarrow> ('a \<Rightarrow> bool) \<Rightarrow> ('d, 'r, 'x, 'y, 'a) queue_prog \<Rightarrow> bool" where
  "harmless t P (Return a) = P a"
| "harmless t P (Await q k) = (case q of
      Redis c \<Rightarrow> harmless_cmd t c \<and> (\<forall>r. plausible c r \<longrightarrow> harmless t P (k r))
    | Ext x \<Rightarrow> \<forall>r. harmless t P (k r))"

lemma harmless_bind: "harmless t (\<lambda>a. harmless t P (f a)) p \<Longrightarrow> harmless t P (bind p f)"
  by (induction p) (auto split: request.splits)

lemma harmless_weaken: "harmless t P p \<Longrightarrow> (\<And>a. P a \<Longrightarrow> Q a) \<Longrightarrow> harmless t Q p"
  by (induction p) (auto split: request.splits)

lemma harmless_bind_all: "harmless t (\<lambda>_. True) p \<Longrightarrow> (\<And>a. harmless t P (f a)) \<Longrightarrow> harmless t P (bind p f)"
  by (rule harmless_bind, erule harmless_weaken) simp

lemma harmless_bind_ok:
  "harmless t (\<lambda>_. True) p \<Longrightarrow> (\<And>e. P (Inl e)) \<Longrightarrow> (\<And>a. harmless t P (f a)) \<Longrightarrow> harmless t P (bind_ok p f)"
  unfolding bind_ok_def by (rule harmless_bind_all) (auto split: sum.split)

lemma lock_key_other [simp]:
  "job_key i = ADMISSION_LOCK_KEY \<longleftrightarrow> i = LOCK_ID" "ADMISSION_LOCK_KEY = job_key i \<longleftrightarrow> i = LOCK_ID"
  "processing_key i \<noteq> ADMISSION_LOCK_KEY" "ADMISSION_LOCK_KEY \<noteq> processing_key i"
  by (auto simp: queue_keys LOCK_ID_def)

lemma index_key_other [simp]:
  "QUEUE_KEY \<noteq> type_index t" "type_index t \<noteq> QUEUE_KEY" "user_index u \<noteq> type_index t" "type_index t \<noteq> user_index u"
  "DEAD_LETTER_KEY \<noteq> type_index t" "type_index t \<noteq> DEAD_LETTER_KEY" "user_index u \<noteq> QUEUE_KEY"
  "QUEUE_KEY \<noteq> user_index u" "DEAD_LETTER_KEY \<noteq> QUEUE_KEY" "QUEUE_KEY \<noteq> DEAD_LETTER_KEY"
  "type_index t = type_index t' \<longleftrightarrow> t = t'"
  by (auto simp: queue_keys)

lemma harmless_cmds [simp]:
  "harmless_cmd t (GET k)" "harmless_cmd t (SMEMBERS k)" "harmless_cmd t (EXPIRE k n)" "harmless_cmd t (SREM k x)"
  "k \<noteq> ADMISSION_LOCK_KEY \<Longrightarrow> harmless_cmd t (DEL k)"
  "k \<noteq> ADMISSION_LOCK_KEY \<Longrightarrow> j_id j \<noteq> LOCK_ID \<Longrightarrow> harmless_cmd t (SET k (JobText j) nx ttl)"
  "k \<noteq> ADMISSION_LOCK_KEY \<Longrightarrow> harmless_cmd t (SET k Claim nx ttl)"
  "k \<noteq> type_index t \<Longrightarrow> k \<noteq> QUEUE_KEY \<or> x \<noteq> LOCK_ID \<Longrightarrow> harmless_cmd t (SADD k x)"
  by (auto simp: harmless_cmd_def proper_jobs_def)

text \<open>The reads, with what their results can be.\<close>

lemma harmless_reads:
  "harmless t (\<lambda>v. \<forall>j. v = Some (JobText j) \<longrightarrow> j_id j \<noteq> LOCK_ID) (redis_get k)"
  "harmless t (\<lambda>v. \<forall>j. v = Inr (Some (JobText j)) \<longrightarrow> j_id j \<noteq> LOCK_ID) (redis_getOrThrow e k)"
  "harmless t (\<lambda>xs. LOCK_ID \<notin> set xs) (redis_sMembers QUEUE_KEY)"
  by (auto simp: redis_methods plausible_def split: response.splits redis_reply.splits)

lemma harmless_calls [simp]:
  "harmless t (\<lambda>_. True) (redis_get k)" "harmless t (\<lambda>_. True) (redis_getOrThrow e k)"
  "harmless t (\<lambda>_. True) (redis_sMembersOrThrow e k)" "harmless t (\<lambda>_. True) (redis_sRem k x)"
  "harmless t (\<lambda>_. True) (redis_expire k n)"
  "k \<noteq> ADMISSION_LOCK_KEY \<Longrightarrow> harmless t (\<lambda>_. True) (redis_del k)"
  "k \<noteq> ADMISSION_LOCK_KEY \<Longrightarrow> harmless t (\<lambda>_. True) (redis_setNx Claim k n)"
  "k \<noteq> ADMISSION_LOCK_KEY \<Longrightarrow> j_id j \<noteq> LOCK_ID \<Longrightarrow> harmless t (\<lambda>_. True) (redis_set k (JobText j) nx ttl)"
  "k \<noteq> type_index t \<Longrightarrow> k \<noteq> QUEUE_KEY \<or> x \<noteq> LOCK_ID \<Longrightarrow> harmless t (\<lambda>_. True) (redis_sAdd k x)"
  by (auto simp: redis_methods)

lemma harmless_removeFromIndexes [simp]: "harmless t (\<lambda>_. True) (removeFromIndexes job)"
  by (auto simp: removeFromIndexes_def intro!: harmless_bind_all)

lemma as_job_Some: "as_job v = Some j \<longleftrightarrow> v = Some (JobText j)"
  by (cases v rule: as_job.cases) auto

lemma harmless_dequeue_from:
  "LOCK_ID \<notin> set ids \<Longrightarrow>
   harmless t (\<lambda>r. \<forall>j. r = Inr (Some j) \<longrightarrow> j_id j \<noteq> LOCK_ID) (dequeue_from ids now)"
proof (induction ids)
  case (Cons i ids)
  then have i: "i \<noteq> LOCK_ID" and ids: "LOCK_ID \<notin> set ids" by auto
  note IH = Cons.IH [OF ids]
  show ?case unfolding dequeue_from.simps bind_ok_def
    by (rule harmless_bind, rule harmless_weaken [OF harmless_reads(2)])
       (auto split: sum.split option.split simp: as_job_Some Let_def i intro!: harmless_bind_all IH)
qed simp

lemma harmless_dequeue:
  "harmless t (\<lambda>r. \<forall>j. r = Inr (Some j) \<longrightarrow> j_id j \<noteq> LOCK_ID) (dequeue now)"
  unfolding dequeue_def
  by (rule harmless_bind, rule harmless_weaken [OF harmless_reads(3)], erule harmless_dequeue_from)

lemma harmless_markSuccess:
  "i \<noteq> LOCK_ID \<Longrightarrow> harmless t (\<lambda>_. True) (markSuccess i res now)"
  unfolding markSuccess_def persist_def
  by (rule harmless_bind, rule harmless_weaken [OF harmless_reads(1)])
     (auto split: option.split simp: as_job_Some Let_def intro!: harmless_bind_all)

lemma harmless_markFailure:
  "i \<noteq> LOCK_ID \<Longrightarrow> harmless t (\<lambda>_. True) (markFailure i err now)"
  unfolding markFailure_def persist_def
  by (rule harmless_bind, rule harmless_weaken [OF harmless_reads(1)])
     (auto split: option.split simp: as_job_Some Let_def failed_job_def intro!: harmless_bind_all)

lemma harmless_with_job:
  assumes "\<And>j. j_id j \<noteq> LOCK_ID \<Longrightarrow> harmless t (\<lambda>_. True) (f (Some j))" "harmless t (\<lambda>_. True) (f None)"
  shows "harmless t (\<lambda>_. True) (bind_ok (dequeue now) f)"
  unfolding bind_ok_def
proof (rule harmless_bind, rule harmless_weaken [OF harmless_dequeue])
  fix r :: "queue_error + ('a, 'b) Job option"
  assume "\<forall>j. r = Inr (Some j) \<longrightarrow> j_id j \<noteq> LOCK_ID"
  then show "harmless t (\<lambda>_. True) (case r of Inl e \<Rightarrow> Return (Inl e) | Inr a \<Rightarrow> f a)"
    using assms by (auto split: sum.split) (metis not_None_eq)
qed

lemma harmless_processNextJob: "harmless t (\<lambda>_. True) (processNextJob busy handlers now later)"
  unfolding processNextJob_def
  by (auto intro!: harmless_with_job harmless_bind_all harmless_markSuccess harmless_markFailure
      split: response.split job_answer.split)


section \<open>Admission under the lock\<close>

text \<open>The processes: submissions with their lock tokens, and workers.\<close>

datatype 'd queue_client =
    Submit "'d JobPayload" int bool string "string \<times> string" instant
  | Work bool "string \<Rightarrow> bool" instant instant

fun client_prog :: "QueueLimits \<Rightarrow> 'd queue_client \<Rightarrow> ('d, 'r, unit) work_prog" where
  "client_prog limits (Submit payload maxRetries privileged token uuids now) =
     bind (enqueue limits payload maxRetries privileged token uuids now) (\<lambda>_. Return ())"
| "client_prog limits (Work busy handlers now later) =
     bind (processNextJob busy handlers now later) (\<lambda>_. Return ())"

fun client_token :: "'d queue_client \<Rightarrow> string option" where
  "client_token (Submit payload maxRetries privileged token uuids now) = Some token"
| "client_token (Work busy handlers now later) = None"

fun client_uuid_ok :: "'d queue_client \<Rightarrow> bool" where
  "client_uuid_ok (Submit payload maxRetries privileged token uuids now) = (fst uuids \<noteq> LOCK_ID)"
| "client_uuid_ok (Work busy handlers now later) = True"

definition depth_ok :: "('s \<Rightarrow> string \<Rightarrow> ('d, 'r) job_value option) \<Rightarrow> ('s \<Rightarrow> string \<Rightarrow> string set) \<Rightarrow>
    string \<Rightarrow> int \<Rightarrow> 's \<Rightarrow> bool" where
  "depth_ok str mem t bound s \<longleftrightarrow>
     finite (mem s (type_index t)) \<and> int (card (mem s (type_index t))) \<le> bound \<and>
     LOCK_ID \<notin> mem s QUEUE_KEY \<and> proper_jobs (str s)"

definition depth_inv :: "('s \<Rightarrow> string \<Rightarrow> ('d, 'r) job_value option) \<Rightarrow> ('s \<Rightarrow> string \<Rightarrow> string set) \<Rightarrow>
    string \<Rightarrow> int \<Rightarrow> ('s, 'x, 'y) world \<Rightarrow> bool" where
  "depth_inv str mem t bound w \<longleftrightarrow> depth_ok str mem t bound (server w)"

definition has_lock :: "('s \<Rightarrow> string \<Rightarrow> ('d, 'r) job_value option) \<Rightarrow> string \<Rightarrow> ('s, 'x, 'y) world \<Rightarrow> bool" where
  "has_lock str token w \<longleftrightarrow> str (server w) ADMISSION_LOCK_KEY = Some (Lock token)"

definition queue_rely :: "('s \<Rightarrow> string \<Rightarrow> ('d, 'r) job_value option) \<Rightarrow> ('s \<Rightarrow> string \<Rightarrow> string set) \<Rightarrow>
    string \<Rightarrow> int \<Rightarrow> string option list \<Rightarrow> nat \<Rightarrow> ('s, 'x, 'y) rel" where
  "queue_rely str mem t bound toks i w w' \<longleftrightarrow>
     (depth_inv str mem t bound w \<longrightarrow> depth_inv str mem t bound w') \<and>
     (\<forall>token. toks ! i = Some token \<longrightarrow> has_lock str token w \<longrightarrow>
        has_lock str token w' \<and> mem (server w') (type_index t) \<subseteq> mem (server w) (type_index t))"

abbreviation queue_guar where
  "queue_guar str mem t bound toks \<equiv>
     mindful (length toks) (depth_inv str mem t bound) (queue_rely str mem t bound toks)"

abbreviation queue_rg where
  "queue_rg exec str mem t bound toks i \<equiv>
     rg exec (\<lambda>_. True) i (queue_rely str mem t bound toks i) (queue_guar str mem t bound toks i)"

lemma queue_rely_preorder:
  "reflp (queue_rely str mem t bound toks i)" "transp (queue_rely str mem t bound toks i)"
  by (fastforce simp: queue_rely_def intro!: reflpI transpI)+

text \<open>The tokens of distinct submissions are distinct.\<close>

definition distinct_tokens :: "string option list \<Rightarrow> bool" where
  "distinct_tokens toks \<longleftrightarrow> (\<forall>i < length toks. \<forall>j < length toks. i \<noteq> j \<longrightarrow> toks ! i \<noteq> None \<longrightarrow> toks ! i \<noteq> toks ! j)"

lemma shrink_step:
  assumes "str (server w') ADMISSION_LOCK_KEY = str (server w) ADMISSION_LOCK_KEY"
    and "mem (server w') (type_index t) \<subseteq> mem (server w) (type_index t)"
    and "depth_inv str mem t bound w \<Longrightarrow> depth_inv str mem t bound w'"
  shows "queue_rely str mem t bound toks i w w'" "queue_guar str mem t bound toks i w w'"
  using assms by (auto simp: queue_rely_def has_lock_def intro!: mindfulI)

text \<open>A step of the lock's holder, or one that takes a free lock.\<close>

lemma locked_step:
  assumes "distinct_tokens toks" "i < length toks" "toks ! i = Some token" "has_lock str token w"
    and "depth_inv str mem t bound w'"
  shows "queue_guar str mem t bound toks i w w'"
  using assms by (auto simp: queue_rely_def has_lock_def distinct_tokens_def intro!: mindfulI) metis+

lemma take_lock_step:
  assumes "str (server w) ADMISSION_LOCK_KEY = None" "mem (server w') = mem (server w)"
    and "depth_inv str mem t bound w'"
  shows "queue_guar str mem t bound toks i w w'"
  using assms by (auto simp: queue_rely_def has_lock_def intro!: mindfulI)

lemma harmless_update:
  assumes "harmless_cmd t c" "updates str mem c w w'"
  shows "str (server w') ADMISSION_LOCK_KEY = str (server w) ADMISSION_LOCK_KEY"
    and "mem (server w') (type_index t) \<subseteq> mem (server w) (type_index t)"
    and "depth_inv str mem t bound w \<Longrightarrow> depth_inv str mem t bound w'"
proof -
  show "str (server w') ADMISSION_LOCK_KEY = str (server w) ADMISSION_LOCK_KEY"
    and sub: "mem (server w') (type_index t) \<subseteq> mem (server w) (type_index t)"
    using assms by (auto simp: harmless_cmd_def updates_def)
  assume inv: "depth_inv str mem t bound w"
  then have fin: "finite (mem (server w) (type_index t))" by (simp add: depth_inv_def depth_ok_def)
  have "finite (mem (server w') (type_index t))" using sub fin by (rule finite_subset)
  moreover have "int (card (mem (server w') (type_index t))) \<le> bound"
    using card_mono [OF fin sub] inv by (simp add: depth_inv_def depth_ok_def)
  moreover have "LOCK_ID \<notin> mem (server w') QUEUE_KEY" "proper_jobs (str (server w'))"
    using inv assms by (simp_all add: depth_inv_def depth_ok_def harmless_cmd_def updates_def)
  ultimately show "depth_inv str mem t bound w'" by (simp add: depth_inv_def depth_ok_def)
qed

lemma plausible_reply:
  assumes "depth_inv str mem t bound w" "reply_ok c (str (server w)) (mem (server w)) r"
  shows "plausible c (Reply r)"
  using assms by (auto simp: plausible_def depth_inv_def depth_ok_def proper_jobs_def split: option.splits)

text \<open>
  A harmless program keeps every assertion that the rely and harmless updates keep: for a
  worker the invariant, for a lock holder also the lock and a bound on the index.
\<close>

lemma rg_harmless:
  assumes server: "redis_server exec expire str mem"
    and inv: "\<And>w. A w \<Longrightarrow> depth_inv str mem t bound w"
    and rely: "\<And>w w'. A w \<Longrightarrow> queue_rely str mem t bound toks i w w' \<Longrightarrow> A w'"
    and step: "\<And>w w'. A w \<Longrightarrow> str (server w') ADMISSION_LOCK_KEY = str (server w) ADMISSION_LOCK_KEY \<Longrightarrow>
       mem (server w') (type_index t) \<subseteq> mem (server w) (type_index t) \<Longrightarrow>
       depth_inv str mem t bound w' \<Longrightarrow> A w'"
  shows "harmless t P p \<Longrightarrow> A w \<Longrightarrow> queue_rg exec str mem t bound toks i (\<lambda>a w. P a \<and> A w) p w"
proof (induction p arbitrary: w)
  case (Return a)
  then show ?case using rely by auto
next
  case (Await q k)
  show ?case
  proof (cases q)
    case (Redis c)
    with Await.prems have hc: "harmless_cmd t c" by simp
    have up: "A w''" "queue_guar str mem t bound toks i w' w''" if "A w'" "updates str mem c w' w''" for w' w''
      using that harmless_update [OF hc that(2)] inv step shrink_step(2) by metis+
    have IH: "queue_rg exec str mem t bound toks i (\<lambda>a w. P a \<and> A w) (k r) v" if "plausible c r" "A v" for r v
      using Await that Redis by auto
    have failed: "plausible c Failed" by (simp add: plausible_def)
    show ?thesis unfolding Redis
    proof (rule redis_server.rg_cmd [OF server])
      fix w' assume "queue_rely str mem t bound toks i w w'"
      with Await.prems rely have here: "A w'" by blast
      then show "queue_guar str mem t bound toks i w' w' \<and>
        queue_rg exec str mem t bound toks i (\<lambda>a w. P a \<and> A w) (k Failed) w'"
        using IH [OF failed] by (auto intro: shrink_step)
      fix w'' assume u: "updates str mem c w' w''"
      show "queue_guar str mem t bound toks i w' w'' \<and>
        queue_rg exec str mem t bound toks i (\<lambda>a w. P a \<and> A w) (k Failed) w''"
        using up [OF here u] IH [OF failed] by blast
      fix r assume "reply_ok c (str (server w')) (mem (server w')) r"
      with plausible_reply inv [OF here] have "plausible c (Reply r)" by blast
      with IH up(1) [OF here u] show "queue_rg exec str mem t bound toks i (\<lambda>a w. P a \<and> A w) (k (Reply r)) w''"
        by blast
    qed
  next
    case (Ext x)
    show ?thesis unfolding Ext rg_Ext
    proof (intro allI impI)
      fix s lg y assume "queue_rely str mem t bound toks i w (World s lg)"
      with Await.prems rely have here: "A (World s lg)" by blast
      have "depth_inv str mem t bound (World s (lg @ [(i, x, y)]))"
        using inv [OF here] by (simp add: depth_inv_def depth_ok_def)
      then have "A (World s (lg @ [(i, x, y)]))" using here by (auto intro: step)
      moreover have "queue_guar str mem t bound toks i (World s lg) (World s (lg @ [(i, x, y)]))"
        by (rule shrink_step) (auto simp: depth_inv_def depth_ok_def)
      ultimately show "queue_guar str mem t bound toks i (World s lg) (World s (lg @ [(i, x, y)])) \<and>
        queue_rg exec str mem t bound toks i (\<lambda>a w. P a \<and> A w) (k (Answer y)) (World s (lg @ [(i, x, y)]))"
        using Await Ext by auto
    qed
  qed
qed


text \<open>The lock is held and the index of the type has no members outside \<open>S\<close>.\<close>

definition locked :: "('s \<Rightarrow> string \<Rightarrow> ('d, 'r) job_value option) \<Rightarrow> ('s \<Rightarrow> string \<Rightarrow> string set) \<Rightarrow>
    string \<Rightarrow> int \<Rightarrow> string \<Rightarrow> string set \<Rightarrow> ('s, 'x, 'y) world \<Rightarrow> bool" where
  "locked str mem t bound token S w \<longleftrightarrow> depth_inv str mem t bound w \<and> has_lock str token w \<and>
     mem (server w) (type_index t) \<subseteq> S"

lemma locked_depth: "locked str mem t bound token S w \<Longrightarrow> depth_inv str mem t bound w"
  by (simp add: locked_def)

lemma locked_mono: "locked str mem t bound token S w \<Longrightarrow> S \<subseteq> T \<Longrightarrow> locked str mem t bound token T w"
  by (auto simp: locked_def)

lemma locked_rely:
  "locked str mem t bound token S w \<Longrightarrow> toks ! i = Some token \<Longrightarrow>
   queue_rely str mem t bound toks i w w' \<Longrightarrow> locked str mem t bound token S w'"
  by (auto simp: locked_def queue_rely_def)

lemma locked_same:
  "str (server w') = str (server w) \<Longrightarrow> mem (server w') = mem (server w) \<Longrightarrow>
   locked str mem t bound token S w' \<longleftrightarrow> locked str mem t bound token S w"
  by (simp add: locked_def depth_inv_def depth_ok_def has_lock_def)

lemma same_step:
  "str (server w') = str (server w) \<Longrightarrow> mem (server w') = mem (server w) \<Longrightarrow>
   queue_guar str mem t bound toks i w w'"
  by (rule shrink_step) (simp_all add: depth_inv_def depth_ok_def)

lemma rg_locked_harmless:
  assumes "redis_server exec expire str mem" "toks ! i = Some token" "harmless t P p"
    and "locked str mem t bound token S w"
  shows "queue_rg exec str mem t bound toks i (\<lambda>a w. P a \<and> locked str mem t bound token S w) p w"
  by (rule rg_harmless [where A = "locked str mem t bound token S", OF assms(1) _ _ _ assms(3,4)])
     (simp add: locked_def, erule (1) locked_rely [OF _ assms(2)], auto simp: locked_def has_lock_def)

lemma rg_locked_bind:
  assumes "redis_server exec expire str mem" "toks ! i = Some token" "harmless t P p"
    and "locked str mem t bound token S w"
    and "\<And>a w. P a \<Longrightarrow> locked str mem t bound token S w \<Longrightarrow> queue_rg exec str mem t bound toks i Q (f a) w"
  shows "queue_rg exec str mem t bound toks i Q (bind p f) w"
  by (rule rg_bind [OF queue_rely_preorder(1)],
      rule rg_weaken [OF _ rg_locked_harmless [OF assms(1-4)]]) (use assms(5) in auto)

text \<open>Reading the depth of the type under the lock bounds its index until the lock is released.\<close>

definition measured :: "('s \<Rightarrow> string \<Rightarrow> ('d, 'r) job_value option) \<Rightarrow> ('s \<Rightarrow> string \<Rightarrow> string set) \<Rightarrow>
    string \<Rightarrow> int \<Rightarrow> string \<Rightarrow> 'e + QueueDepths \<Rightarrow> ('s, 'x, 'y) world \<Rightarrow> bool" where
  "measured str mem t bound token r w \<longleftrightarrow> locked str mem t bound token UNIV w \<and>
     (\<forall>d. r = Inr d \<longrightarrow> (\<exists>S. finite S \<and> int (card S) = d_type d \<and> locked str mem t bound token S w))"

lemma measured_locked: "measured str mem t bound token r w \<Longrightarrow> locked str mem t bound token UNIV w"
  by (simp add: measured_def)

lemma rg_readDepths:
  assumes server: "redis_server exec expire str mem" and tok: "toks ! i = Some token"
    and "locked str mem t bound token UNIV w"
  shows "queue_rg exec str mem t bound toks i (measured str mem t bound token) (readDepths t userId) w"
  unfolding readDepths_def bind_ok_def [of "redis_sMembersOrThrow _ QUEUE_KEY"]
proof (rule rg_locked_bind [OF server tok _ assms(3), where P = "\<lambda>_. True"], goal_cases)
  case 1
  then show ?case by simp
next
  case (2 g w)
  let ?user = "if truthy userId then redis_sMembersOrThrow QueueUnavailable (user_index (the userId))
              else Return (Inr [])"
  let ?rest = "\<lambda>g ty. bind_ok ?user (\<lambda>u.
     Return (Inr \<lparr>d_global = int (length g), d_type = int (length ty), d_user = int (length u)\<rparr>))"
  have done_err: "queue_rg exec str mem t bound toks i (measured str mem t bound token) (Return (Inl e)) v"
    if "locked str mem t bound token UNIV v" for e v
    using that tok by (auto simp: measured_def intro: locked_rely)
  have rest: "queue_rg exec str mem t bound toks i (measured str mem t bound token) (?rest g ty) v"
    if "distinct ty" "locked str mem t bound token (set ty) v" for g ty v
  proof -
    have "harmless t (\<lambda>r. \<forall>d. r = Inr d \<longrightarrow> d_type d = int (length ty)) (?rest g ty)"
      by (intro harmless_bind_ok) auto
    from rg_locked_harmless [OF server tok this that(2)] show ?thesis
      by (rule rg_weaken [rotated])
         (use that(1) in \<open>auto simp: measured_def distinct_card intro: locked_mono intro!: exI [of _ "set ty"]\<close>)
  qed
  show ?case
  proof (cases g)
    case (Inl e)
    with 2 done_err show ?thesis by simp
  next
    case (Inr members)
    show ?thesis unfolding Inr sum.case redis_sMembersOrThrow_def [of _ "type_index t"]
      bind_ok_def [of "Await _ _"] bind.simps
    proof (rule redis_server.rg_cmd [OF server], goal_cases)
      case (1 w')
      then have "locked str mem t bound token UNIV w'" using 2 tok locked_rely by blast
      with done_err [of w' QueueUnavailable] same_step [where w = w' and w' = w']
      show ?case by (simp del: rg.simps)
    next
      case (2 w' w'')
      then have "locked str mem t bound token UNIV w'" using \<open>locked str mem t bound token UNIV w\<close> tok locked_rely by blast
      moreover have same: "str (server w'') = str (server w')" "mem (server w'') = mem (server w')"
        using 2 by (auto simp: updates_def)
      ultimately have "locked str mem t bound token UNIV w''" using locked_same [OF same] by blast
      with done_err [of w'' QueueUnavailable] same_step [where w = w' and w' = w''] same
      show ?case by (simp del: rg.simps)
    next
      case (3 w' w'' r)
      then obtain xs where xs: "r = Members xs" "set xs = mem (server w') (type_index t)" "distinct xs" by auto
      have "locked str mem t bound token UNIV w'"
        using 3 \<open>locked str mem t bound token UNIV w\<close> tok locked_rely by blast
      then have "locked str mem t bound token (set xs) w'" by (simp add: locked_def xs)
      moreover have same: "str (server w'') = str (server w')" "mem (server w'') = mem (server w')"
        using 3 by (auto simp: updates_def)
      ultimately have "locked str mem t bound token (set xs) w''" using locked_same [OF same] by blast
      with rest [OF xs(3)] show ?case
        unfolding xs(1) by (simp only: response.case redis_reply.case sum.case)
    qed
  qed
qed


lemma rg_add_to_index:
  assumes server: "redis_server exec expire str mem" and toks: "distinct_tokens toks" "i < length toks"
    and tok: "toks ! i = Some token" and room: "finite S" "int (card S) < bound"
    and "locked str mem t bound token S w"
    and rest: "\<And>w. locked str mem t bound token UNIV w \<Longrightarrow> queue_rg exec str mem t bound toks i Q (f ()) w"
  shows "queue_rg exec str mem t bound toks i Q (bind (redis_sAdd (type_index t) x) f) w"
proof -
  have here: "locked str mem t bound token S w'" if "queue_rely str mem t bound toks i w w'" for w'
    using locked_rely [OF assms(7) tok that] .
  have after: "locked str mem t bound token UNIV w''" "queue_guar str mem t bound toks i w' w''"
    if "queue_rely str mem t bound toks i w w'" "updates str mem (SADD (type_index t) x) w' w''" for w' w''
  proof -
    note h = here [OF that(1)]
    have sub: "mem (server w'') (type_index t) \<subseteq> insert x S"
      using h that(2) by (auto simp: updates_def locked_def)
    then have fin: "finite (mem (server w'') (type_index t))" using room(1) by (simp add: finite_subset)
    have "card (mem (server w'') (type_index t)) \<le> card (insert x S)"
      by (rule card_mono [OF _ sub]) (simp add: room(1))
    also have "\<dots> \<le> Suc (card S)" using room(1) by (simp add: card_insert_if)
    finally have "int (card (mem (server w'') (type_index t))) \<le> bound" using room(2) by simp
    with fin h that(2) have inv: "depth_inv str mem t bound w''"
      by (simp add: locked_def depth_inv_def depth_ok_def updates_def)
    with h that(2) show "locked str mem t bound token UNIV w''"
      by (simp add: locked_def has_lock_def updates_def)
    from h show "queue_guar str mem t bound toks i w' w''"
      by (intro locked_step [OF toks tok _ inv]) (simp add: locked_def)
  qed
  have quiet: "queue_guar str mem t bound toks i w' w'" for w' by (rule same_step) simp_all
  show ?thesis unfolding redis_sAdd_def bind.simps
    by (rule redis_server.rg_cmd [OF server])
       (use quiet rest after locked_mono [OF here subset_UNIV] in blast)+
qed


lemma rg_persistNewJob:
  assumes server: "redis_server exec expire str mem" and toks: "distinct_tokens toks" "i < length toks"
    and tok: "toks ! i = Some token" and room: "finite S" "int (card S) < bound"
    and "locked str mem t bound token S w" and t: "p_type payload = t" and id: "fst uuids \<noteq> LOCK_ID"
  shows "queue_rg exec str mem t bound toks i (\<lambda>_. locked str mem t bound token UNIV)
    (persistNewJob payload maxRetries userId uuids now) w"
proof -
  let ?job = "new_job payload maxRetries userId uuids now"
  note step = rg_locked_bind [OF server tok, where P = "\<lambda>_. True"]
  have job: "j_id ?job = fst uuids" "j_type ?job = t" by (simp_all add: new_job_def t)
  have last: "queue_rg exec str mem t bound toks i (\<lambda>_. locked str mem t bound token UNIV)
      (bind (if truthy userId then redis_sAdd (user_index (the userId)) (fst uuids) else Return ())
        (\<lambda>_. Return (Inr ?job))) v"
    if "locked str mem t bound token UNIV v" for v
    by (rule step [OF _ that]) (use tok in \<open>auto intro: locked_rely\<close>)
  have add: "queue_rg exec str mem t bound toks i (\<lambda>_. locked str mem t bound token UNIV)
      (bind (redis_sAdd (type_index t) (fst uuids)) (\<lambda>_.
       bind (if truthy userId then redis_sAdd (user_index (the userId)) (fst uuids) else Return ())
        (\<lambda>_. Return (Inr ?job)))) v"
    if "locked str mem t bound token S v" for v
    by (rule rg_add_to_index [OF server toks tok room that]) (rule last)
  show ?thesis unfolding persistNewJob_def Let_def job(2)
    by (rule step [OF _ assms(7)], simp add: job id, rule step, simp, assumption,
        rule step, simp add: id, assumption, rule add)
qed

lemma harmless_persistNewJob:
  assumes "p_type payload \<noteq> t" "fst uuids \<noteq> LOCK_ID"
  shows "harmless t (\<lambda>_. True) (persistNewJob payload maxRetries userId uuids now)"
  using assms unfolding persistNewJob_def Let_def
  by (auto simp: new_job_def intro!: harmless_bind_all)

lemma harmless_prune_members: "harmless t (\<lambda>_. True) (prune_members key ids)"
  by (induction ids) (auto intro!: harmless_bind_ok harmless_bind_all)

lemma harmless_prune_keys: "harmless t (\<lambda>_. True) (prune_keys keys)"
  by (induction keys) (auto intro!: harmless_bind_ok harmless_prune_members)

lemma harmless_pruneIndexes: "harmless t (\<lambda>_. True) (pruneIndexes u userId)"
  unfolding pruneIndexes_def by (rule harmless_prune_keys)

lemma harmless_readDepths: "harmless t (\<lambda>_. True) (readDepths u userId)"
  unfolding readDepths_def by (intro harmless_bind_ok) auto

lemma harmless_admission:
  assumes "p_type payload \<noteq> t" "fst uuids \<noteq> LOCK_ID"
  shows "harmless t (\<lambda>_. True) (admission limits payload maxRetries privileged uuids now)"
  using harmless_persistNewJob [OF assms]
  by (auto simp: admission_def admit_def Let_def split: option.split BackpressureDecision.split
      intro!: harmless_bind_ok harmless_readDepths harmless_pruneIndexes)

lemma admitted_below_bound:
  assumes "decideAdmission limits cap d privileged = Admitted" "adminReserve cap \<ge> 0"
  shows "d_type d < maxDepth cap + adminReserve cap"
  using assms by (auto simp: decideAdmission_def Let_def split: if_splits)

text \<open>The whole admission: it ends with the lock still held and the type within its bound.\<close>

lemma rg_admission:
  assumes server: "redis_server exec expire str mem" and toks: "distinct_tokens toks" "i < length toks"
    and tok: "toks ! i = Some token" and id: "fst uuids \<noteq> LOCK_ID"
    and cap: "map_of (q_types limits) t = Some cap" "adminReserve cap \<ge> 0"
    and bound: "bound = maxDepth cap + adminReserve cap"
    and w: "locked str mem t bound token UNIV w"
  shows "queue_rg exec str mem t bound toks i (\<lambda>_. locked str mem t bound token UNIV)
    (admission limits payload maxRetries privileged uuids now) w"
proof (cases "p_type payload = t")
  case False
  from rg_locked_harmless [OF server tok harmless_admission [OF False id] w] show ?thesis by simp
next
  case t: True
  let ?Q = "\<lambda>_. locked str mem t bound token UNIV"
  define userId where "userId = (if privileged then None else p_userId payload)"
  have err: "queue_rg exec str mem t bound toks i ?Q (Return (Inl e)) v"
    if "locked str mem t bound token UNIV v" for e v
    using that tok by (auto intro: locked_rely)
  have store: "queue_rg exec str mem t bound toks i ?Q (persistNewJob payload maxRetries userId uuids now) v"
    if "measured str mem t bound token (Inr d) v" "decideAdmission limits cap d privileged = Admitted" for d v
  proof -
    from that(1) obtain S where "finite S" "int (card S) = d_type d" "locked str mem t bound token S v"
      by (auto simp: measured_def)
    with admitted_below_bound [OF that(2) cap(2)] show ?thesis
      by (intro rg_persistNewJob [OF server toks tok _ _ _ t id]) (auto simp: bound)
  qed
  have read: "queue_rg exec str mem t bound toks i ?Q (bind_ok (readDepths t userId) f) v"
    if "locked str mem t bound token UNIV v"
      "\<And>d v. measured str mem t bound token (Inr d) v \<Longrightarrow> queue_rg exec str mem t bound toks i ?Q (f d) v" for f v
    unfolding bind_ok_def
    by (rule rg_bind [OF queue_rely_preorder(1)], rule rg_weaken [OF _ rg_readDepths [OF server tok that(1)]])
       (use that(2) err in \<open>auto split: sum.split simp: measured_def simp del: rg.simps\<close>)
  have again: "queue_rg exec str mem t bound toks i ?Q
      (bind_ok (pruneIndexes t userId) (\<lambda>_. bind_ok (readDepths t userId) (\<lambda>d.
        admit limits cap payload maxRetries privileged userId uuids now (decideAdmission limits cap d privileged)))) v"
    if "locked str mem t bound token UNIV v" for v
    unfolding bind_ok_def [of "pruneIndexes _ _"]
    by (rule rg_locked_bind [OF server tok harmless_pruneIndexes that])
       (auto split: sum.split BackpressureDecision.split simp: admit_def simp del: rg.simps
         intro!: err read store intro: measured_locked)
  show ?thesis unfolding admission_def userId_def [symmetric] Let_def t cap(1) option.case
    by (rule read [OF w])
       (auto split: BackpressureDecision.split simp del: rg.simps intro!: again store intro: measured_locked)
qed


lemma rg_acquireAdmission:
  assumes server: "redis_server exec expire str mem" and tok: "toks ! i = Some token"
    and "depth_inv str mem t bound w"
  shows "queue_rg exec str mem t bound toks i
    (\<lambda>r w. depth_inv str mem t bound w \<and> (r = Inr True \<longrightarrow> locked str mem t bound token UNIV w))
    (acquireAdmission n token) w"
  using assms(3)
proof (induction n arbitrary: w)
  case 0
  then show ?case by (auto simp: queue_rely_def)
next
  case (Suc n)
  let ?Q = "\<lambda>r w. depth_inv str mem t bound w \<and> (r = Inr True \<longrightarrow> locked str mem t bound token UNIV w)"
  have inv: "depth_inv str mem t bound w'" if "queue_rely str mem t bound toks i w w'" for w'
    using that Suc.prems by (simp add: queue_rely_def)
  have after: "depth_inv str mem t bound w''" "queue_guar str mem t bound toks i w' w''"
    "str (server w') ADMISSION_LOCK_KEY = None \<Longrightarrow> locked str mem t bound token UNIV w''"
    if "queue_rely str mem t bound toks i w w'"
      "updates str mem (SET ADMISSION_LOCK_KEY (Lock token) True (Some ADMISSION_LOCK_TTL_MS)) w' w''" for w' w''
  proof -
    show inv'': "depth_inv str mem t bound w''"
      using inv [OF that(1)] that(2) by (auto simp: depth_inv_def depth_ok_def updates_def proper_jobs_def)
    show "queue_guar str mem t bound toks i w' w''"
    proof (cases "str (server w') ADMISSION_LOCK_KEY = None")
      case True
      with that(2) inv'' show ?thesis by (intro take_lock_step) (auto simp: updates_def)
    next
      case False
      with that(2) show ?thesis by (intro same_step) (auto simp: updates_def)
    qed
    show "locked str mem t bound token UNIV w''" if "str (server w') ADMISSION_LOCK_KEY = None"
      using that \<open>updates _ _ _ _ _\<close> inv'' by (auto simp: locked_def has_lock_def updates_def)
  qed
  have stop: "queue_rg exec str mem t bound toks i ?Q (Return (Inl e)) v" if "depth_inv str mem t bound v" for e v
    using that by (auto simp: queue_rely_def)
  have got: "queue_rg exec str mem t bound toks i ?Q (Return (Inr True)) v"
    if "locked str mem t bound token UNIV v" for v
    using locked_rely [OF that tok] by (auto intro: locked_depth)
  show ?case
    unfolding acquireAdmission.simps bind_ok_def redis_acquireLockOrThrow_def bind.simps
  proof (rule redis_server.rg_cmd [OF server], goal_cases)
    case (1 w')
    then show ?case using stop [OF inv [OF 1]] by (auto simp del: rg.simps intro: same_step)
  next
    case (2 w' w'')
    then show ?case using stop [OF after(1) [OF 2]] after(2) [OF 2] by (simp del: rg.simps)
  next
    case (3 w' w'' r)
    show ?case
    proof (cases "str (server w') ADMISSION_LOCK_KEY = None")
      case True
      with 3(3) got [OF after(3) [OF 3(1,2) True]] show ?thesis by (simp del: rg.simps)
    next
      case False
      with 3(3) Suc.IH [OF after(1) [OF 3(1,2)]] show ?thesis by (simp del: rg.simps)
    qed
  qed
qed

lemma rg_enqueue:
  assumes server: "redis_server exec expire str mem" and toks: "distinct_tokens toks" "i < length toks"
    and tok: "toks ! i = Some token" and id: "fst uuids \<noteq> LOCK_ID"
    and cap: "map_of (q_types limits) t = Some cap" "adminReserve cap \<ge> 0" "q_enabled limits"
    and bound: "bound = maxDepth cap + adminReserve cap"
    and w: "depth_inv str mem t bound w"
  shows "queue_rg exec str mem t bound toks i (\<lambda>_. depth_inv str mem t bound)
    (enqueue limits payload maxRetries privileged token uuids now) w"
proof -
  let ?Q = "\<lambda>_. depth_inv str mem t bound"
  have leave: "queue_rg exec str mem t bound toks i ?Q (Return r) v" if "depth_inv str mem t bound v" for r v
    using that by (auto simp: queue_rely_def)
  have release: "queue_rg exec str mem t bound toks i ?Q
      (bind (redis_releaseLockOrThrow QueueUnavailable ADMISSION_LOCK_KEY (Lock token)) (\<lambda>_. Return r)) v"
    if v: "locked str mem t bound token UNIV v" for r v
  proof -
    have inv: "depth_inv str mem t bound w'" if "queue_rely str mem t bound toks i v w'" for w'
      using locked_rely [OF v tok that] by (simp add: locked_def)
    have after: "depth_inv str mem t bound w''" "queue_guar str mem t bound toks i w' w''"
      if "queue_rely str mem t bound toks i v w'" "updates str mem (UNLOCK ADMISSION_LOCK_KEY (Lock token)) w' w''" for w' w''
    proof -
      show inv'': "depth_inv str mem t bound w''"
        using inv [OF that(1)] that(2) by (auto simp: depth_inv_def depth_ok_def updates_def proper_jobs_def)
      show "queue_guar str mem t bound toks i w' w''"
        using locked_rely [OF v tok that(1)] by (intro locked_step [OF toks tok _ inv'']) (simp add: locked_def)
    qed
    have quiet: "queue_guar str mem t bound toks i w' w'" for w' by (rule same_step) simp_all
    show ?thesis unfolding redis_releaseLockOrThrow_def bind.simps
    proof (rule redis_server.rg_cmd [OF server], goal_cases)
      case (1 w')
      then show ?case by (intro conjI quiet leave inv)
    next
      case (2 w' w'')
      then show ?case by (intro conjI leave after)
    next
      case (3 w' w'' r)
      then show ?case by (intro leave after(1))
    qed
  qed
  have sect: "queue_rg exec str mem t bound toks i ?Q
      (bind (admission limits payload maxRetries privileged uuids now) (\<lambda>r.
        bind (redis_releaseLockOrThrow QueueUnavailable ADMISSION_LOCK_KEY (Lock token)) (\<lambda>_. Return r))) v"
    if "locked str mem t bound token UNIV v" for v
    by (rule rg_bind [OF queue_rely_preorder(1)],
        rule rg_weaken [OF _ rg_admission [OF server toks tok id cap(1,2) bound that]]) (rule release)
  show ?thesis using cap(3) unfolding enqueue_def bind_ok_def
    by (simp, intro rg_bind [OF queue_rely_preorder(1)],
        intro rg_weaken [OF _ rg_acquireAdmission [OF server tok w]])
       (auto split: sum.split simp del: rg.simps intro!: leave sect)
qed


lemma rg_client:
  assumes server: "redis_server exec expire str mem" and toks: "toks = map client_token cs"
      "distinct_tokens toks" "i < length cs" and "client_uuid_ok (cs ! i)"
    and cap: "map_of (q_types limits) t = Some cap" "adminReserve cap \<ge> 0" "q_enabled limits"
    and bound: "bound = maxDepth cap + adminReserve cap" and w: "depth_inv str mem t bound w"
  shows "queue_rg exec str mem t bound toks i (\<lambda>_ _. True) (client_prog limits (cs ! i)) w"
proof (cases "cs ! i")
  case (Submit payload maxRetries privileged token uuids now)
  with assms have "toks ! i = Some token" "i < length toks" "fst uuids \<noteq> LOCK_ID" by auto
  note run = rg_enqueue [OF server toks(2) this(2,1,3) cap bound w]
  show ?thesis unfolding Submit client_prog.simps
    by (rule rg_bind [OF queue_rely_preorder(1)], rule rg_weaken [OF _ run]) simp
next
  case (Work busy handlers now later)
  have "queue_rg exec str mem t bound toks i (\<lambda>a w. True \<and> depth_inv str mem t bound w)
      (processNextJob busy handlers now later) w"
    by (rule rg_harmless [where A = "depth_inv str mem t bound", OF server _ _ _ harmless_processNextJob w])
       (auto simp: queue_rely_def)
  then show ?thesis unfolding Work client_prog.simps
    by (intro rg_bind [OF queue_rely_preorder(1)], elim rg_weaken [rotated]) simp
qed

lemma queue_expiry:
  assumes "redis_server exec expire str mem" "k \<noteq> ADMISSION_LOCK_KEY"
  shows "queue_rely str mem t bound toks i (World s lg) (World (expire k s) lg)"
    and "depth_inv str mem t bound (World s lg) \<Longrightarrow> depth_inv str mem t bound (World (expire k s) lg)"
proof -
  have str: "str (expire k s) = (str s)(k := None)" and mem: "mem (expire k s) = (mem s)(k := {})"
    by (rule redis_server.str_expire [OF assms(1)], rule redis_server.mem_expire [OF assms(1)])
  show inv: "depth_inv str mem t bound (World (expire k s) lg)" if "depth_inv str mem t bound (World s lg)"
    using that by (auto simp: depth_inv_def depth_ok_def str mem proper_jobs_def)
  from inv assms(2) show "queue_rely str mem t bound toks i (World s lg) (World (expire k s) lg)"
    by (auto simp: queue_rely_def has_lock_def str mem)
qed

lemma resolved_reserve:
  "map_of (q_types (resolveQueueLimits env)) t = Some cap \<Longrightarrow> adminReserve cap \<ge> 0"
  by (auto simp: resolveQueueLimits_def DEFAULT_QUEUE_LIMITS_def job_types type_limit_def Let_def
      split: if_splits)

section \<open>Properties\<close>



definition default_env :: queue_env where
  "default_env = \<lparr>env_off = False, env_max_depth = NaN, env_admin_reserve = NaN,
     env_type_depth = (\<lambda>_. NaN), env_user_depth = (\<lambda>_. NaN)\<rparr>"

definition job_payload :: "string \<Rightarrow> string \<Rightarrow> nat JobPayload" where
  "job_payload t u = \<lparr>p_type = t, p_data = 0, p_userId = Some u, p_correlationId = None\<rparr>"

definition queue_clients :: "nat queue_client list" where
  "queue_clients = [Submit (job_payload DATA_EXPORT ''ann'') 3 False ''lock-1'' (''job-1'', ''corr-1'') 10,
     Submit (job_payload DATA_EXPORT ''bob'') 3 False ''lock-2'' (''job-2'', ''corr-2'') 11,
     Work False (\<lambda>_. True) 12 13]"

definition queue_schedule :: "nat job_answer event list" where
  "queue_schedule = [Deliver 0, Deliver 1, Deliver 0, Deliver 0, Deliver 0, Deliver 0, Deliver 0, Deliver 0,
     Deliver 2, Deliver 0, Deliver 0, Deliver 0, Deliver 1, Deliver 1, Lose 1, Deliver 2, Deliver 2,
     Deliver 2, Respond 2 (HandlerReturned 7), Deliver 2, Deliver 2, Deliver 2, Refuse 2, Expire ''job:job-9'']"

definition queue_end where
  "queue_end = sys_run memory_exec forget queue_schedule
     (World empty_redis [], map (client_prog (resolveQueueLimits default_env)) queue_clients)"


text \<open>
  Three rebalancing jobs of one user are pending and no export job is. The user's index
  counts all three, so the export bound of three is reached.
\<close>

definition rebalance_job :: "string \<Rightarrow> (nat, nat) Job" where
  "rebalance_job i = new_job (job_payload PORTFOLIO_REBALANCE ''ann'') 3 (Some ''ann'') (i, ''corr'') 5"

definition rebalancing_redis :: "(nat, nat) job_value memory_redis" where
  "rebalancing_redis =
     \<lparr>texts = map (\<lambda>i. (job_key i, JobText (rebalance_job i))) [''a'', ''b'', ''c''],
      groups = [(QUEUE_KEY, [''a'', ''b'', ''c'']), (type_index PORTFOLIO_REBALANCE, [''a'', ''b'', ''c'']),
                (user_index ''ann'', [''a'', ''b'', ''c''])]\<rparr>"



text \<open>Repeated failures of a job.\<close>

primrec fail_run :: "(('d, 'r) job_value redis_cmd \<Rightarrow> 's \<Rightarrow> ('d, 'r) job_value redis_reply \<times> 's) \<Rightarrow> string \<Rightarrow>
    string \<Rightarrow> instant \<Rightarrow> nat \<Rightarrow> 's \<Rightarrow> 's" where
  "fail_run exec i err now 0 s = s"
| "fail_run exec i err now (Suc n) s =
     snd (run_alone exec (\<lambda>_ :: unit. ()) (markFailure i err now) (fail_run exec i err now n s))"

lemma job_keys_differ [simp]: "processing_key i \<noteq> job_key i" "job_key i \<noteq> processing_key i"
  by (auto simp: queue_keys)

lemma processing_key_no_set [simp]:
  "processing_key i \<noteq> QUEUE_KEY" "processing_key i \<noteq> DEAD_LETTER_KEY" "processing_key i \<noteq> type_index t"
  "processing_key i \<noteq> user_index u" "QUEUE_KEY \<noteq> processing_key i" "DEAD_LETTER_KEY \<noteq> processing_key i"
  "type_index t \<noteq> processing_key i" "DEAD_LETTER_KEY \<noteq> user_index u" "user_index u \<noteq> DEAD_LETTER_KEY"
  by (auto simp: queue_keys)

text \<open>One failure of a job that is not finished.\<close>

lemma markFailure_retries:
  assumes "redis_server exec expire str mem" "str s (job_key i) = Some (JobText j)" "\<not> isTerminal j"
    and "j_retries j + 1 < j_maxRetries j"
    and "s' = snd (run_alone exec ans (markFailure i err now) s)"
  shows "str s' (job_key i) = Some (JobText ((failed_job j err now)\<lparr>j_status := PENDING\<rparr>))"
    and "i \<in> mem s' QUEUE_KEY" "str s' (processing_key i) = None"
  using assms(2-5)
  by (auto simp: markFailure_def persist_def failed_job_def Let_def redis_server.alone_simps [OF assms(1)])

lemma markFailure_dead:
  assumes "redis_server exec expire str mem" "str s (job_key i) = Some (JobText j)" "\<not> isTerminal j"
    and "j_retries j + 1 \<ge> j_maxRetries j" "j_id j = i"
    and "s' = snd (run_alone exec ans (markFailure i err now) s)"
  shows "str s' (job_key i) =
      Some (JobText ((failed_job j err now)\<lparr>j_status := DEAD_LETTER, j_completedAt := Some now\<rparr>))"
    and "i \<in> mem s' DEAD_LETTER_KEY" "i \<notin> mem s' QUEUE_KEY" "i \<notin> mem s' (type_index (j_type j))"
    and "str s' (processing_key i) = None"
  using assms(2-6)
  by (auto simp: markFailure_def persist_def failed_job_def Let_def removeFromIndexes_def
      redis_server.alone_simps [OF assms(1)])

lemma markFailure_finished:
  assumes "redis_server exec expire str mem" "str s (job_key i) = Some (JobText j)" "isTerminal j"
    and "s' = snd (run_alone exec ans (markFailure i err now) s)"
  shows "str s' = str s" "mem s' = mem s"
  using assms(2-4) by (auto simp: markFailure_def redis_server.alone_simps [OF assms(1)])


definition attempts :: "('d, 'r) Job \<Rightarrow> nat" where
  "attempts j = max 1 (nat (j_maxRetries j - j_retries j))"

lemma fail_run_before:
  assumes server: "redis_server exec expire str mem" and "str s (job_key i) = Some (JobText j)" "\<not> isTerminal j"
  shows "n < attempts j \<Longrightarrow> \<exists>j'. str (fail_run exec i err now n s) (job_key i) = Some (JobText j') \<and>
    \<not> isTerminal j' \<and> j_retries j' = j_retries j + int n \<and> j_maxRetries j' = j_maxRetries j \<and>
    j_id j' = j_id j \<and> j_type j' = j_type j \<and>
    (n > 0 \<longrightarrow> j_status j' = PENDING \<and> i \<in> mem (fail_run exec i err now n s) QUEUE_KEY)"
proof (induction n)
  case (Suc n)
  then obtain j' where j': "str (fail_run exec i err now n s) (job_key i) = Some (JobText j')" "\<not> isTerminal j'"
    "j_retries j' = j_retries j + int n" "j_maxRetries j' = j_maxRetries j" "j_id j' = j_id j" "j_type j' = j_type j"
    by auto
  have "j_retries j' + 1 < j_maxRetries j'" using Suc.prems j'(3,4) by (auto simp: attempts_def)
  note retry = markFailure_retries [OF server j'(1,2) this fail_run.simps(2)]
  show ?case
    by (rule exI, rule conjI, rule retry(1)) (use retry(2) j' in \<open>simp add: isTerminal_def failed_job_def\<close>)
qed (use assms in auto)

lemma fail_run_after:
  assumes server: "redis_server exec expire str mem" and "str s (job_key i) = Some (JobText j)" "\<not> isTerminal j"
    and id: "j_id j = i"
  shows "\<exists>j'. str (fail_run exec i err now (attempts j + n) s) (job_key i) = Some (JobText j') \<and>
    j_status j' = DEAD_LETTER \<and> j_retries j' = j_retries j + int (attempts j) \<and>
    i \<in> mem (fail_run exec i err now (attempts j + n) s) DEAD_LETTER_KEY \<and>
    i \<notin> mem (fail_run exec i err now (attempts j + n) s) QUEUE_KEY \<and>
    i \<notin> mem (fail_run exec i err now (attempts j + n) s) (type_index (j_type j))"
proof (induction n)
  case 0
  obtain m where m: "attempts j = Suc m" by (metis attempts_def max.cobounded1 not0_implies_Suc not_one_le_zero)
  obtain j' where j': "str (fail_run exec i err now m s) (job_key i) = Some (JobText j')" "\<not> isTerminal j'"
    "j_retries j' = j_retries j + int m" "j_maxRetries j' = j_maxRetries j" "j_id j' = j_id j" "j_type j' = j_type j"
    using fail_run_before [OF assms(1-3), of m err now] m by auto
  have "j_retries j' + 1 \<ge> j_maxRetries j'" "j_id j' = i"
    using m j'(3,4,5) id by (auto simp: attempts_def)
  note dead = markFailure_dead [OF server j'(1,2) this fail_run.simps(2)]
  show ?case unfolding m add_0_right
    by (rule exI, rule conjI, rule dead(1)) (use dead(2-4) j' in \<open>simp add: failed_job_def del: fail_run.simps\<close>)
next
  case (Suc n)
  then obtain j' where j': "str (fail_run exec i err now (attempts j + n) s) (job_key i) = Some (JobText j')"
    "j_status j' = DEAD_LETTER" by blast
  then have "isTerminal j'" by (simp add: isTerminal_def)
  note same = markFailure_finished [OF server j'(1) this fail_run.simps(2)]
  show ?case using Suc by (simp only: add_Suc_right same)
qed

text \<open>
  C31. A job whose handler keeps failing stays queued, with its failures counted, until
  its failures reach the attempts it has left (at least one). With that failure, and not
  before, it leaves the queue and its type's index for the dead-letter list, where it stays.
\<close>

theorem failing_job_is_dead_lettered:
  assumes server: "redis_server exec expire str mem" and "str s (job_key i) = Some (JobText j)"
    and "\<not> isTerminal j" and "j_id j = i"
  shows "(0 < n \<and> n < attempts j \<longrightarrow>
      (\<exists>j'. str (fail_run exec i err now n s) (job_key i) = Some (JobText j') \<and>
         j_status j' = PENDING \<and> j_retries j' = j_retries j + int n \<and>
         i \<in> mem (fail_run exec i err now n s) QUEUE_KEY)) \<and>
    (n \<ge> attempts j \<longrightarrow>
      (\<exists>j'. str (fail_run exec i err now n s) (job_key i) = Some (JobText j') \<and>
         j_status j' = DEAD_LETTER \<and> j_retries j' = j_retries j + int (attempts j) \<and>
         i \<in> mem (fail_run exec i err now n s) DEAD_LETTER_KEY \<and>
         i \<notin> mem (fail_run exec i err now n s) QUEUE_KEY \<and>
         i \<notin> mem (fail_run exec i err now n s) (type_index (j_type j))))"
proof -
  have "\<exists>k. n = attempts j + k" if "n \<ge> attempts j" using that by (rule le_Suc_ex)
  with fail_run_before [OF assms(1-3), of n err now] fail_run_after [OF assms, of err now] show ?thesis
    by auto
qed

theorem failing_job_is_dead_lettered_witness:
  "\<exists>j'. map_of (texts (fail_run memory_exec ''a'' ''boom'' 9 3 rebalancing_redis)) (job_key ''a'') = Some (JobText j') \<and>
     j_status j' = DEAD_LETTER \<and> j_retries j' = 3 \<and>
     ''a'' \<in> set (group (fail_run memory_exec ''a'' ''boom'' 9 3 rebalancing_redis) DEAD_LETTER_KEY)"
proof -
  have j: "map_of (texts rebalancing_redis) (job_key ''a'') = Some (JobText (rebalance_job ''a''))"
    by (simp add: rebalancing_redis_def)
  have f: "\<not> isTerminal (rebalance_job ''a'')" "j_id (rebalance_job ''a'') = ''a''"
    "attempts (rebalance_job ''a'') = 3" "j_retries (rebalance_job ''a'') = 0"
    by (simp_all add: rebalance_job_def new_job_def isTerminal_def attempts_def)
  show ?thesis
    using failing_job_is_dead_lettered [OF memory.redis_server_axioms j f(1,2), of 3 "''boom''" 9]
    unfolding f(3,4) by auto
qed

end
