(* ===== verification/Soroban.thy ===== *)
theory Soroban
  imports Prelude "HOL-Library.Signed_Division"
begin

text \<open>
  The host of the smart contracts: the ledger an invocation sees, authorization,
  the Rust integers of the contracts and the propagation of errors by the
  question mark operator.

  An invocation either returns the new storage of the contract with its result
  or fails, with an error value of the contract or with a trap of the host (a
  missing authorization, a panic, an arithmetic overflow under
  \<open>overflow-checks = true\<close>). A failed invocation leaves no effect, which is what
  the host guarantees: the model returns no storage in that case. The lifetimes
  of storage entries are not modelled, so the calls that extend them have no
  effect here. The host refuses a reentrant call of a contract, so the storage
  of a contract does not change during a call it makes to another one.

  Signed 128-bit integers are \<open>int\<close> with their bounds checked where the code
  checks them; unsigned 32 and 64-bit integers are \<open>nat\<close> with their widths.
\<close>

named_theorems contract_simps \<open>inversion of a successful invocation\<close>

type_synonym address = string
type_synonym bytes = string
type_synonym symbol = string

subsection \<open>The environment of an invocation\<close>

record env =
  ledger_sequence :: nat
  ledger_timestamp :: nat
  current_contract_address :: address
  signers :: "address list"

datatype 'e failure = Err 'e | Trap

definition require_auth :: "env \<Rightarrow> address \<Rightarrow> 'e failure + unit" where
  "require_auth env a = (if a \<in> set (signers env) then Inr () else Inl Trap)"

subsection \<open>Propagation of errors\<close>

definition and_then :: "'e + 'a \<Rightarrow> ('a \<Rightarrow> 'e + 'b) \<Rightarrow> 'e + 'b" where
  "and_then r f = (case r of Inl e \<Rightarrow> Inl e | Inr x \<Rightarrow> f x)"

definition ok_or :: "'a option \<Rightarrow> 'e \<Rightarrow> 'e failure + 'a" where
  "ok_or v e = (case v of None \<Rightarrow> Inl (Err e) | Some x \<Rightarrow> Inr x)"

definition unwrap :: "'a option \<Rightarrow> 'e failure + 'a" where
  "unwrap v = (case v of None \<Rightarrow> Inl Trap | Some x \<Rightarrow> Inr x)"

definition unwrap_or :: "'a option \<Rightarrow> 'a \<Rightarrow> 'a" where
  "unwrap_or v d = (case v of None \<Rightarrow> d | Some x \<Rightarrow> x)"

lemma unwrap_or_simps [simp]: "unwrap_or None d = d" "unwrap_or (Some x) d = x"
  by (simp_all add: unwrap_or_def)

lemma and_then_simps [simp]: "and_then (Inl e) f = Inl e" "and_then (Inr x) f = f x"
  by (simp_all add: and_then_def)

lemma ok_or_simps [simp]: "ok_or None e = Inl (Err e)" "ok_or (Some x) e = Inr x"
  by (simp_all add: ok_or_def)

lemma unwrap_simps [simp]: "unwrap None = Inl Trap" "unwrap (Some x) = Inr x"
  by (simp_all add: unwrap_def)

lemma and_then_Inr_iff [contract_simps]:
  "and_then r f = Inr y \<longleftrightarrow> (\<exists>x. r = Inr x \<and> f x = Inr y)"
  by (cases r) auto

lemma ok_or_Inr_iff [contract_simps]: "ok_or v e = Inr x \<longleftrightarrow> v = Some x"
  by (cases v) auto

lemma unwrap_Inr_iff [contract_simps]: "unwrap v = Inr x \<longleftrightarrow> v = Some x"
  by (cases v) auto

lemma require_auth_Inr_iff [contract_simps]:
  "require_auth env a = Inr u \<longleftrightarrow> a \<in> set (signers env)"
  by (simp add: require_auth_def)

lemma guard_Inr_iff [contract_simps]:
  "(if b then Inl e else r) = Inr y \<longleftrightarrow> \<not> b \<and> r = Inr y"
  by simp

subsection \<open>Integers\<close>

definition i128_max :: int where
  "i128_max = 2 ^ 127 - 1"

definition i128_min :: int where
  "i128_min = - (2 ^ 127)"

definition i128 :: "int \<Rightarrow> bool" where
  "i128 x \<longleftrightarrow> i128_min \<le> x \<and> x \<le> i128_max"

definition checked :: "int \<Rightarrow> int option" where
  "checked x = (if i128 x then Some x else None)"

definition checked_add :: "int \<Rightarrow> int \<Rightarrow> int option" where
  "checked_add a b = checked (a + b)"

definition checked_sub :: "int \<Rightarrow> int \<Rightarrow> int option" where
  "checked_sub a b = checked (a - b)"

definition checked_mul :: "int \<Rightarrow> int \<Rightarrow> int option" where
  "checked_mul a b = checked (a * b)"

definition saturating_mul :: "int \<Rightarrow> int \<Rightarrow> int" where
  "saturating_mul a b = max i128_min (min i128_max (a * b))"

text \<open>An operator of an \<open>i128\<close> traps where the checked operation is \<open>None\<close>.\<close>

definition strict :: "int \<Rightarrow> 'e failure + int" where
  "strict x = unwrap (checked x)"

text \<open>The casts \<open>as u128\<close>, \<open>as u64\<close> and \<open>as u32\<close> of an \<open>i128\<close> keep the low bits.\<close>

definition as_u128 :: "int \<Rightarrow> int" where
  "as_u128 x = x mod 2 ^ 128"

definition saturating_mul_u128 :: "int \<Rightarrow> int \<Rightarrow> int" where
  "saturating_mul_u128 a b = min (2 ^ 128 - 1) (a * b)"

definition as_u64 :: "int \<Rightarrow> nat" where
  "as_u64 x = nat (x mod 2 ^ 64)"

definition as_u32 :: "int \<Rightarrow> nat" where
  "as_u32 x = nat (x mod 2 ^ 32)"

definition checked_add_u64 :: "nat \<Rightarrow> nat \<Rightarrow> nat option" where
  "checked_add_u64 a b = (if a + b < 2 ^ 64 then Some (a + b) else None)"

definition checked_add_u32 :: "nat \<Rightarrow> nat \<Rightarrow> nat option" where
  "checked_add_u32 a b = (if a + b < 2 ^ 32 then Some (a + b) else None)"

definition saturating_add_u32 :: "nat \<Rightarrow> nat \<Rightarrow> nat" where
  "saturating_add_u32 a b = min (2 ^ 32 - 1) (a + b)"

lemma checked_Some_iff [contract_simps]: "checked x = Some y \<longleftrightarrow> y = x \<and> i128 x"
  by (auto simp: checked_def)

lemma checked_add_Some_iff [contract_simps]: "checked_add a b = Some y \<longleftrightarrow> y = a + b \<and> i128 (a + b)"
  by (simp add: checked_add_def checked_Some_iff)

lemma checked_sub_Some_iff [contract_simps]: "checked_sub a b = Some y \<longleftrightarrow> y = a - b \<and> i128 (a - b)"
  by (simp add: checked_sub_def checked_Some_iff)

lemma checked_mul_Some_iff [contract_simps]: "checked_mul a b = Some y \<longleftrightarrow> y = a * b \<and> i128 (a * b)"
  by (simp add: checked_mul_def checked_Some_iff)

lemma strict_Inr_iff [contract_simps]: "strict x = Inr y \<longleftrightarrow> y = x \<and> i128 x"
  by (auto simp: strict_def unwrap_def checked_def)

lemma checked_add_u64_Some_iff [contract_simps]:
  "checked_add_u64 a b = Some y \<longleftrightarrow> y = a + b \<and> a + b < 2 ^ 64"
  by (auto simp: checked_add_u64_def)

lemma checked_add_u32_Some_iff [contract_simps]:
  "checked_add_u32 a b = Some y \<longleftrightarrow> y = a + b \<and> a + b < 2 ^ 32"
  by (auto simp: checked_add_u32_def)

lemma i128_le: "i128 y \<Longrightarrow> 0 \<le> x \<Longrightarrow> x \<le> y \<Longrightarrow> i128 x"
  by (simp add: i128_def i128_min_def)

lemma as_u128_id: "0 \<le> x \<Longrightarrow> i128 x \<Longrightarrow> as_u128 x = x"
  by (simp add: as_u128_def i128_def i128_max_def)

lemma as_u32_id: "0 \<le> x \<Longrightarrow> x < 2 ^ 32 \<Longrightarrow> as_u32 x = nat x"
  by (simp add: as_u32_def)

lemma as_u64_id: "0 \<le> x \<Longrightarrow> x < 2 ^ 64 \<Longrightarrow> as_u64 x = nat x"
  by (simp add: as_u64_def)

text \<open>Division and remainder of signed integers round towards zero.\<close>

lemma sdiv_nonneg [simp]: "0 \<le> a \<Longrightarrow> 0 < b \<Longrightarrow> a sdiv b = a div (b :: int)"
  by (simp add: signed_divide_int_def sgn_if)

lemma smod_nonneg [simp]: "0 \<le> a \<Longrightarrow> 0 < b \<Longrightarrow> a smod b = a mod (b :: int)"
  by (cases "a = 0") (simp_all add: signed_modulo_int_def)

lemmas integer_defs = i128_def i128_max_def i128_min_def checked_def checked_add_def checked_sub_def
  checked_mul_def strict_def checked_add_u64_def checked_add_u32_def

subsection \<open>Sums over the keys of a storage map\<close>

definition value_of :: "('k \<rightharpoonup> int) \<Rightarrow> 'k \<Rightarrow> int" where
  "value_of m k = unwrap_or (m k) 0"

lemma value_of_upd [simp]: "value_of (m(k \<mapsto> x)) = (value_of m)(k := x)"
  by (auto simp: value_of_def fun_eq_iff)

lemma value_of_eq_0: "k \<notin> dom m \<Longrightarrow> value_of m k = 0"
  by (simp add: value_of_def domIff)

lemma value_of_nonzero: "value_of m k \<noteq> 0 \<Longrightarrow> \<exists>x. m k = Some x"
  by (cases "m k") (simp_all add: value_of_def)

text \<open>The sum of the values over the second components of the keys that start with \<open>b\<close>.\<close>

definition row_sum :: "('b \<times> 'h \<rightharpoonup> int) \<Rightarrow> 'b \<Rightarrow> int" where
  "row_sum m b = (\<Sum>k | k \<in> dom m \<and> fst k = b. value_of m k)"

lemma row_sum_superset:
  assumes "finite K" "{k \<in> dom m. fst k = b} \<subseteq> K" "\<And>k. k \<in> K \<Longrightarrow> fst k = b"
  shows "row_sum m b = sum (value_of m) K"
  unfolding row_sum_def
  by (rule sum.mono_neutral_left) (use assms in \<open>auto dest: value_of_nonzero\<close>)

lemma row_sum_upd:
  assumes "finite (dom m)"
  shows "row_sum (m((b, h) \<mapsto> x)) c = row_sum m c + (if c = b then x - value_of m (b, h) else 0)"
proof -
  let ?K = "{k \<in> insert (b, h) (dom m). fst k = c}"
  have fin: "finite ?K" using assms by simp
  have "row_sum (m((b, h) \<mapsto> x)) c = sum (value_of (m((b, h) \<mapsto> x))) ?K"
    by (rule row_sum_superset) (use fin in auto)
  also have "\<dots> = sum (value_of m) ?K + (if c = b then x - value_of m (b, h) else 0)"
  proof (cases "c = b")
    case True
    with fin have "sum f ?K = f (b, h) + sum f (?K - {(b, h)})" for f :: "_ \<Rightarrow> int"
      by (intro sum.remove) auto
    with True show ?thesis by simp
  next
    case False
    then show ?thesis by (auto intro!: sum.cong)
  qed
  also have "sum (value_of m) ?K = row_sum m c"
    by (rule row_sum_superset [symmetric]) (use fin in auto)
  finally show ?thesis .
qed

lemma row_sum_ge:
  assumes "finite (dom m)" "\<And>k. 0 \<le> value_of m k"
  shows "value_of m (b, h) \<le> row_sum m b"
proof (cases "(b, h) \<in> dom m")
  case True
  then show ?thesis unfolding row_sum_def
    by (intro member_le_sum) (use assms in auto)
next
  case False
  then show ?thesis using assms by (simp add: value_of_eq_0 row_sum_def sum_nonneg)
qed

lemma row_sum_empty [simp]: "row_sum Map.empty b = 0"
  by (simp add: row_sum_def)

lemma row_sum_fresh: "(\<And>h. m (b, h) = None) \<Longrightarrow> row_sum m b = 0"
proof -
  assume "\<And>h. m (b, h) = None"
  then have "{k \<in> dom m. fst k = b} = {}" by (auto simp: domIff)
  then show ?thesis by (simp only: row_sum_def sum.empty)
qed

end
