(* ===== verification/Contract_Types.thy ===== *)
theory Contract_Types
  imports Soroban
begin

text \<open>
  The types the contracts share (\<open>contracts/shared/src/types.rs\<close>) and the errors
  of the bond contracts (\<open>contracts/shared/src/errors.rs\<close>).
\<close>

datatype CreditType = Carbon | Biodiversity | Basket | BlueCarbon

definition decimals :: "CreditType \<Rightarrow> nat" where
  "decimals c = (case c of Carbon \<Rightarrow> 6 | Biodiversity \<Rightarrow> 6 | Basket \<Rightarrow> 6 | BlueCarbon \<Rightarrow> 6)"

definition minor_units :: "CreditType \<Rightarrow> int" where
  "minor_units c = (if decimals c = 6 then 1000000 else 10 ^ decimals c)"

datatype BondStatus = Active | Matured | Defaulted

record bond_config =
  project_id :: bytes
  face_value :: int
  coupon_schedule :: "nat list"
  credit_type :: CreditType
  maturity_date :: nat
  total_supply :: int
  credit_vintage :: nat
  serial_number_start :: int
  serial_number_end :: int

record redemption_coverage =
  total_principal_due :: int
  funded_amount :: int
  shortfall :: int
  coverage_fraction_bps :: nat

datatype BondError = NotInitialized | Unauthorized | InvalidNonce | BondNotFound
  | BondAlreadyMatured | InsufficientSupply | ZeroAmount | ProjectNotApproved | Overflow
  | ReportNotVerified | InvalidReport | InvalidSupply | RedemptionUnderfunded
  | IncompatibleMethodologyCreditType | PerformanceFlagged | InsufficientAttestations
  | MigrationInProgress | OracleStaleManualInterventionRequired | ProjectDisputedAndFrozen
  | InvalidWaterfall | WaterfallAlreadyClaimed | InvalidBalanceSnapshot | RedemptionQueueRequired
  | DuplicateRedemptionRequest | InvalidRedemptionBudget | AuctionRequired | InvalidAuction
  | AuctionClosed | SubscriptionIneligible | IdentityCapExceeded | InvalidCovenant
  | InvalidEquivalence | UnknownEquivalence | AdminTransferPending | AdminTransferExpired
  | NoAdminTransferPending

text \<open>The cast of an error to its discriminant.\<close>

fun error_code :: "BondError \<Rightarrow> nat" where
  "error_code NotInitialized = 1"
| "error_code Unauthorized = 2"
| "error_code InvalidNonce = 3"
| "error_code BondNotFound = 4"
| "error_code BondAlreadyMatured = 5"
| "error_code InsufficientSupply = 6"
| "error_code ZeroAmount = 7"
| "error_code ProjectNotApproved = 8"
| "error_code Overflow = 9"
| "error_code ReportNotVerified = 10"
| "error_code InvalidReport = 11"
| "error_code InvalidSupply = 12"
| "error_code RedemptionUnderfunded = 13"
| "error_code IncompatibleMethodologyCreditType = 14"
| "error_code PerformanceFlagged = 15"
| "error_code InsufficientAttestations = 16"
| "error_code MigrationInProgress = 17"
| "error_code OracleStaleManualInterventionRequired = 18"
| "error_code ProjectDisputedAndFrozen = 19"
| "error_code InvalidWaterfall = 20"
| "error_code WaterfallAlreadyClaimed = 21"
| "error_code InvalidBalanceSnapshot = 22"
| "error_code RedemptionQueueRequired = 23"
| "error_code DuplicateRedemptionRequest = 24"
| "error_code InvalidRedemptionBudget = 25"
| "error_code AuctionRequired = 26"
| "error_code InvalidAuction = 27"
| "error_code AuctionClosed = 28"
| "error_code SubscriptionIneligible = 29"
| "error_code IdentityCapExceeded = 30"
| "error_code InvalidCovenant = 31"
| "error_code InvalidEquivalence = 32"
| "error_code UnknownEquivalence = 33"
| "error_code AdminTransferPending = 34"
| "error_code AdminTransferExpired = 35"
| "error_code NoAdminTransferPending = 36"

type_synonym 'a bond_result = "BondError failure + 'a"

abbreviation fail :: "BondError \<Rightarrow> 'a bond_result" where
  "fail e \<equiv> Inl (Err e)"

end
