(* ===== verification/Issuer_Storage.thy ===== *)
theory Issuer_Storage
  imports Contract_Types
begin

text \<open>
  The storage of the bond issuer contract and the internal functions its entry
  points share (\<open>contracts/bond-issuer/src/lib.rs\<close>): administrator and nonce
  checks, the balance and supply checkpoints with their binary search, the
  validation of a transfer and the settlement of a redemption.

  The storage is a record with a field for each variant of \<open>DataKey\<close> (and of
  \<open>AuctionKey\<close>, the keys of the subscription auction); a variant with arguments
  is a map. A key holds one kind of value and is used with one of the instance
  and the persistent storage only, so the two are one record here. Published
  events are appended to the field \<open>Events\<close>.
\<close>

subsection \<open>Storage\<close>

definition MAX_SUPPLY :: int where
  "MAX_SUPPLY = 1000000000000000000"

record serial_range =
  range_start :: int
  range_end :: int

record bond_state =
  total_subscribed :: int
  status :: BondStatus
  created_at :: nat

record balance_checkpoint =
  cp_version :: nat
  cp_balance :: int

record supply_checkpoint =
  sp_version :: nat
  sp_total_subscribed :: int

record redemption_budget =
  principal_per_cycle :: int
  ledgers_per_cycle :: nat

record redemption_request =
  rq_id :: nat
  rq_holder :: address
  rq_key :: bytes
  rq_submitted_ledger :: nat
  rq_amount :: int
  rq_remaining :: int

record redemption_cycle =
  cy_cycle :: nat
  cy_paid :: int

record auction_config =
  au_token :: address
  au_treasury :: address
  au_open_ledger :: nat
  au_cutoff_ledger :: nat
  au_identity_cap :: int

record auction_order =
  or_wallet :: address
  or_identity :: bytes
  or_requested :: int
  or_allocated :: int
  or_refunded :: int

record auction_state =
  au_config :: auction_config
  au_wallets :: "address list"
  au_orders :: "auction_order list"
  au_settled :: bool

datatype issuer_event =
    AdminChanged address address
  | AdminProposed address address nat
  | AdminProposalCancelled address
  | BondIssued nat bytes
  | Subscribed nat address int
  | TransferCompliance address bool
  | Transferred nat address address int
  | RedemptionFunded nat address int
  | RedemptionBudgetSet nat redemption_budget
  | RedemptionQueued nat nat address int nat
  | RedemptionProcessed nat nat int int int
  | Redeemed nat address int int
  | BondMatured nat
  | SubscriptionEntitled nat address bytes
  | SubscriptionCommitted nat address int
  | SubscriptionSettled nat "auction_order list"

record issuer =
  CommittedRanges :: "bytes \<times> nat \<rightharpoonup> serial_range list"
  Admin :: "address option"
  BondConfig :: "nat \<rightharpoonup> bond_config"
  BondState :: "nat \<rightharpoonup> bond_state"
  HolderBalance :: "nat \<times> address \<rightharpoonup> int"
  BalanceVersion :: "nat \<rightharpoonup> nat"
  HolderCheckpointCount :: "nat \<times> address \<rightharpoonup> nat"
  HolderCheckpoint :: "nat \<times> address \<times> nat \<rightharpoonup> balance_checkpoint"
  SupplyCheckpointCount :: "nat \<rightharpoonup> nat"
  SupplyCheckpoint :: "nat \<times> nat \<rightharpoonup> supply_checkpoint"
  RedemptionPool :: "nat \<rightharpoonup> int"
  BondCount :: "nat option"
  Nonce :: "address \<rightharpoonup> nat"
  ProjectRegistry :: "address option"
  RedemptionBudget :: "nat \<rightharpoonup> redemption_budget"
  RedemptionCycle :: "nat \<rightharpoonup> redemption_cycle"
  RedemptionHead :: "nat \<rightharpoonup> nat"
  RedemptionTail :: "nat \<rightharpoonup> nat"
  RedemptionRequest :: "nat \<times> nat \<rightharpoonup> redemption_request"
  RedemptionId :: "nat \<times> address \<times> bytes \<rightharpoonup> nat \<times> int"
  RedemptionReserved :: "nat \<times> address \<rightharpoonup> int"
  TransferBlocked :: "address \<rightharpoonup> bool"
  PendingAdmin :: "address option"
  PendingAdminExpiry :: "nat option"
  SubscriptionAuctionRequired :: "nat \<rightharpoonup> bool"
  SubscriptionAuction :: "nat \<rightharpoonup> auction_state"
  SubscriptionIdentity :: "nat \<times> address \<rightharpoonup> bytes"
  Events :: "issuer_event list"

definition publish :: "issuer_event \<Rightarrow> issuer \<Rightarrow> issuer" where
  "publish e s = s\<lparr>Events := Events s @ [e]\<rparr>"

subsection \<open>Internal functions\<close>

definition require_admin :: "issuer \<Rightarrow> address \<Rightarrow> unit bond_result" where
  "require_admin s caller =
     and_then (ok_or (Admin s) NotInitialized) (\<lambda>admin.
     if caller \<noteq> admin then fail Unauthorized else Inr ())"

definition advance_balance_version :: "issuer \<Rightarrow> nat \<Rightarrow> (issuer \<times> nat) bond_result" where
  "advance_balance_version s bond_id =
     (let current = unwrap_or (BalanceVersion s bond_id) 0 in
      and_then (ok_or (checked_add_u64 current 1) Overflow) (\<lambda>next.
      Inr (s\<lparr>BalanceVersion := (BalanceVersion s)(bond_id \<mapsto> next)\<rparr>, next)))"

definition append_holder_checkpoint ::
    "issuer \<Rightarrow> nat \<Rightarrow> address \<Rightarrow> nat \<Rightarrow> int \<Rightarrow> int \<Rightarrow> issuer bond_result" where
  "append_holder_checkpoint s bond_id holder version previous_balance balance =
     (let index = unwrap_or (HolderCheckpointCount s (bond_id, holder)) 0;
          s = (if index = 0
               then s\<lparr>HolderCheckpoint := (HolderCheckpoint s)((bond_id, holder, 0) \<mapsto>
                       \<lparr>cp_version = 0, cp_balance = previous_balance\<rparr>)\<rparr>
               else s);
          index = (if index = 0 then 1 else index);
          s = s\<lparr>HolderCheckpoint := (HolderCheckpoint s)((bond_id, holder, index) \<mapsto>
                  \<lparr>cp_version = version, cp_balance = balance\<rparr>)\<rparr>
      in and_then (ok_or (checked_add_u32 index 1) Overflow) (\<lambda>count.
         Inr (s\<lparr>HolderCheckpointCount := (HolderCheckpointCount s)((bond_id, holder) \<mapsto> count)\<rparr>)))"

definition append_supply_checkpoint ::
    "issuer \<Rightarrow> nat \<Rightarrow> nat \<Rightarrow> int \<Rightarrow> int \<Rightarrow> issuer bond_result" where
  "append_supply_checkpoint s bond_id version previous_total_subscribed new_total =
     (let index = unwrap_or (SupplyCheckpointCount s bond_id) 0;
          s = (if index = 0
               then s\<lparr>SupplyCheckpoint := (SupplyCheckpoint s)((bond_id, 0) \<mapsto>
                       \<lparr>sp_version = 0, sp_total_subscribed = previous_total_subscribed\<rparr>)\<rparr>
               else s);
          index = (if index = 0 then 1 else index);
          s = s\<lparr>SupplyCheckpoint := (SupplyCheckpoint s)((bond_id, index) \<mapsto>
                  \<lparr>sp_version = version, sp_total_subscribed = new_total\<rparr>)\<rparr>
      in and_then (ok_or (checked_add_u32 index 1) Overflow) (\<lambda>count.
         Inr (s\<lparr>SupplyCheckpointCount := (SupplyCheckpointCount s)(bond_id \<mapsto> count)\<rparr>)))"

text \<open>
  The loop of both binary searches: the number of checkpoints, from \<open>low\<close> on, whose
  version is at most \<open>version\<close>. \<open>versions\<close> reads the version of a stored checkpoint.
\<close>

function checkpoint_search :: "(nat \<Rightarrow> nat option) \<Rightarrow> nat \<Rightarrow> nat \<Rightarrow> nat \<Rightarrow> nat bond_result" where
  "checkpoint_search versions version low high =
     (if low < high then
        let middle = low + (high - low) div 2 in
        (case versions middle of
           None \<Rightarrow> fail BondNotFound
         | Some v \<Rightarrow>
             if v \<le> version
             then (if middle + 1 < 2 ^ 32 then checkpoint_search versions version (middle + 1) high
                   else fail Overflow)
             else checkpoint_search versions version low middle)
      else Inr low)"
  by pat_completeness auto
termination by (relation "measure (\<lambda>(_, _, low, high). high - low)") auto

declare checkpoint_search.simps [simp del]

definition holder_balance_at_version ::
    "issuer \<Rightarrow> nat \<Rightarrow> address \<Rightarrow> nat \<Rightarrow> int bond_result" where
  "holder_balance_at_version s bond_id holder version =
     (let count = unwrap_or (HolderCheckpointCount s (bond_id, holder)) 0 in
      if count = 0 then Inr (unwrap_or (HolderBalance s (bond_id, holder)) 0)
      else and_then (checkpoint_search
               (\<lambda>i. map_option cp_version (HolderCheckpoint s (bond_id, holder, i))) version 0 count)
             (\<lambda>low. if low = 0 then Inr 0
               else ok_or (map_option cp_balance (HolderCheckpoint s (bond_id, holder, low - 1)))
                      BondNotFound))"

definition total_subscribed_at_version :: "issuer \<Rightarrow> nat \<Rightarrow> nat \<Rightarrow> int bond_result" where
  "total_subscribed_at_version s bond_id version =
     (let count = unwrap_or (SupplyCheckpointCount s bond_id) 0 in
      if count = 0 then and_then (ok_or (BondState s bond_id) BondNotFound) (\<lambda>state.
        Inr (total_subscribed state))
      else and_then (checkpoint_search
               (\<lambda>i. map_option sp_version (SupplyCheckpoint s (bond_id, i))) version 0 count)
             (\<lambda>low. if low = 0 then Inr 0
               else ok_or (map_option sp_total_subscribed (SupplyCheckpoint s (bond_id, low - 1)))
                      BondNotFound))"

definition consume_nonce :: "issuer \<Rightarrow> address \<Rightarrow> nat \<Rightarrow> issuer bond_result" where
  "consume_nonce s addr nonce =
     (let expected_nonce = unwrap_or (Nonce s addr) 0 in
      if nonce \<noteq> expected_nonce then fail InvalidNonce
      else and_then (unwrap (checked_add_u64 expected_nonce 1)) (\<lambda>next.
           Inr (s\<lparr>Nonce := (Nonce s)(addr \<mapsto> next)\<rparr>)))"

definition methodology_compatible :: "symbol \<Rightarrow> CreditType \<Rightarrow> bool" where
  "methodology_compatible methodology ct =
     (let is_blue = methodology \<in> set [''blue_carbon'', ''BLUE_CARBON'', ''BLUE''];
          is_biodiv = methodology \<in> set [''biodiversity'', ''BIODIVERSITY'', ''biodiv'']
      in (case ct of
            Carbon \<Rightarrow> \<not> is_blue \<and> \<not> is_biodiv
          | BlueCarbon \<Rightarrow> is_blue
          | Biodiversity \<Rightarrow> is_biodiv
          | Basket \<Rightarrow> True))"

definition validate_transfer ::
    "env \<Rightarrow> issuer \<Rightarrow> address \<Rightarrow> address \<Rightarrow> nat \<Rightarrow> int \<Rightarrow> unit bond_result" where
  "validate_transfer env s from_addr to_addr bond_id amount =
     (if to_addr = from_addr then fail Unauthorized else
      if amount \<le> 0 then fail ZeroAmount else
      and_then (ok_or (BondConfig s bond_id) BondNotFound) (\<lambda>config.
      and_then (ok_or (BondState s bond_id) BondNotFound) (\<lambda>state.
      if status state \<noteq> Active then fail BondAlreadyMatured else
      if ledger_timestamp env \<ge> maturity_date config then fail BondAlreadyMatured else
      if unwrap_or (HolderBalance s (bond_id, from_addr)) 0 < amount then fail InsufficientSupply else
      and_then (ok_or (checked_add (unwrap_or (HolderBalance s (bond_id, to_addr)) 0) amount) Overflow) (\<lambda>_.
      if unwrap_or (TransferBlocked s from_addr) False then fail Unauthorized else
      if unwrap_or (TransferBlocked s to_addr) False then fail Unauthorized else Inr ()))))"

definition settle_redemption ::
    "issuer \<Rightarrow> address \<Rightarrow> nat \<Rightarrow> int \<Rightarrow> issuer bond_result" where
  "settle_redemption s holder bond_id amount =
     (if amount \<le> 0 then fail ZeroAmount else
      and_then (ok_or (BondState s bond_id) BondNotFound) (\<lambda>state.
      and_then (ok_or (BondConfig s bond_id) BondNotFound) (\<lambda>config.
      if status state \<noteq> Matured then fail BondAlreadyMatured else
      let current_balance = unwrap_or (HolderBalance s (bond_id, holder)) 0 in
      if current_balance < amount then fail InsufficientSupply else
      and_then (ok_or (checked_mul amount (face_value config)) Overflow) (\<lambda>payout.
      let pool = unwrap_or (RedemptionPool s bond_id) 0 in
      if pool < payout then fail RedemptionUnderfunded else
      and_then (strict (pool - payout)) (\<lambda>new_pool.
      let s = s\<lparr>RedemptionPool := (RedemptionPool s)(bond_id \<mapsto> new_pool)\<rparr> in
      and_then (ok_or (checked_sub current_balance amount) Overflow) (\<lambda>new_balance.
      let s = s\<lparr>HolderBalance := (HolderBalance s)((bond_id, holder) \<mapsto> new_balance)\<rparr>;
          previous_total = total_subscribed state in
      and_then (ok_or (checked_sub previous_total amount) Overflow) (\<lambda>new_total.
      let s = s\<lparr>BondState := (BondState s)(bond_id \<mapsto> state\<lparr>total_subscribed := new_total\<rparr>)\<rparr> in
      and_then (advance_balance_version s bond_id) (\<lambda>(s, version).
      and_then (append_holder_checkpoint s bond_id holder version current_balance new_balance) (\<lambda>s.
      and_then (append_supply_checkpoint s bond_id version previous_total new_total) (\<lambda>s.
      Inr (publish (Redeemed bond_id holder amount payout) s)))))))))))"

end
