(* ===== verification/Issuer_Ledger.thy ===== *)
theory Issuer_Ledger
  imports Issuer_Storage
begin

text \<open>
  The positions of the bond holders and their history: what the checkpoints of
  the issuer store, the invariant of the balances, and the effect of the internal
  functions on both.
\<close>

subsection \<open>Checkpoint logs\<close>

text \<open>
  A log is the list of the stored checkpoints, as pairs of a version and a value.
  Reading it at a version gives the value of the last checkpoint not after that
  version; a log without checkpoints gives the current value.
\<close>

definition log_of :: "nat \<Rightarrow> (nat \<Rightarrow> (nat \<times> int) option) \<Rightarrow> (nat \<times> int) list" where
  "log_of c e = map (\<lambda>i. the (e i)) [0..<c]"

definition log_read :: "(nat \<times> int) list \<Rightarrow> int \<Rightarrow> nat \<Rightarrow> int" where
  "log_read l current v =
     (if l = [] then current else snd (last (filter (\<lambda>x. fst x \<le> v) l)))"

definition log_extend :: "(nat \<times> int) list \<Rightarrow> int \<Rightarrow> nat \<Rightarrow> int \<Rightarrow> (nat \<times> int) list" where
  "log_extend l previous v x = (if l = [] then [(0, previous)] else l) @ [(v, x)]"

text \<open>
  The shape of a log: every checkpoint is stored, versions increase strictly from
  0 on, none is after the current version, and the last value is the current one.
\<close>

definition log_stored :: "nat \<Rightarrow> (nat \<Rightarrow> (nat \<times> int) option) \<Rightarrow> bool" where
  "log_stored c e \<longleftrightarrow> c < 2 ^ 32 \<and> (\<forall>i<c. e i \<noteq> None)"

definition log_ok :: "(nat \<times> int) list \<Rightarrow> nat \<Rightarrow> int \<Rightarrow> bool" where
  "log_ok l version current \<longleftrightarrow>
     sorted_wrt (<) (map fst l) \<and>
     (l \<noteq> [] \<longrightarrow> fst (hd l) = 0 \<and> fst (last l) \<le> version \<and> snd (last l) = current)"

lemma log_ok_le: "log_ok l v x \<Longrightarrow> v \<le> w \<Longrightarrow> log_ok l w x"
  by (auto simp: log_ok_def)

lemma log_ok_versions:
  assumes "log_ok l v x" "y \<in> set l"
  shows "fst y \<le> v"
proof -
  from assms(2) obtain ys z where l: "l = ys @ [z]" by (cases l rule: rev_cases) auto
  with assms have "fst y \<le> fst z" by (fastforce simp: log_ok_def sorted_wrt_append)
  also have "fst z \<le> v" using assms(1) l by (simp add: log_ok_def)
  finally show ?thesis .
qed

lemma log_extend_ok:
  assumes "log_ok l v x" "v < w"
  shows "log_ok (log_extend l p w y) w y"
proof -
  have "fst y < w" if "y \<in> set l" for y
    using log_ok_versions [OF assms(1) that] assms(2) by (rule le_less_trans)
  with assms show ?thesis
    by (fastforce simp: log_ok_def log_extend_def sorted_wrt_append hd_append)
qed

lemma log_read_extend:
  assumes "log_ok l v x" "u \<le> v" "v < w"
  shows "log_read (log_extend l x w y) y u = log_read l x u"
  using assms
  by (cases l) (auto simp: log_read_def log_extend_def log_ok_def)

lemma log_read_current:
  assumes "log_ok l v x"
  shows "log_read l x v = x"
proof (cases l rule: rev_cases)
  case (snoc ys z)
  then show ?thesis using assms by (simp add: log_read_def log_ok_def)
qed (simp add: log_read_def)

lemma log_extend_not_Nil [simp]: "log_extend l p v x \<noteq> []"
  by (simp add: log_extend_def)

text \<open>The binary search counts the checkpoints up to a version.\<close>

lemma checkpoint_search_spec:
  assumes vs: "\<And>i. i < c \<Longrightarrow> vs i = Some (f i)" and c: "c < 2 ^ 32"
    and mono: "\<And>i j. i < j \<Longrightarrow> j < c \<Longrightarrow> f i < f j"
  shows "low \<le> high \<Longrightarrow> high \<le> c \<Longrightarrow> \<forall>i<low. f i \<le> v \<Longrightarrow> \<forall>i<c. high \<le> i \<longrightarrow> v < f i \<Longrightarrow>
    \<exists>n\<le>c. checkpoint_search vs v low high = Inr n \<and> (\<forall>i<c. f i \<le> v \<longleftrightarrow> i < n)"
proof (induction "high - low" arbitrary: low high rule: less_induct)
  case less
  show ?case
  proof (cases "low < high")
    case False
    with less.prems show ?thesis
      by (subst checkpoint_search.simps) (auto intro!: exI [of _ low] simp: not_less)
  next
    case True
    define m where "m = low + (high - low) div 2"
    have m: "low \<le> m" "m < high" "m < c" "Suc m < 2 ^ 32"
      using True less.prems(2) c by (auto simp: m_def)
    have below: "f i \<le> f m" if "i \<le> m" for i
      using mono [of i m] that m by (cases "i = m") auto
    have above: "f m \<le> f i" if "m \<le> i" "i < c" for i
      using mono [of m i] that by (cases "i = m") auto
    show ?thesis
    proof (cases "f m \<le> v")
      case True
      then have "checkpoint_search vs v low high = checkpoint_search vs v (Suc m) high"
        using \<open>low < high\<close> m vs [OF m(3)]
        by (subst checkpoint_search.simps) (simp add: m_def [symmetric] Let_def)
      moreover have "\<forall>i<Suc m. f i \<le> v" using below True by (auto simp: less_Suc_eq_le intro: order_trans)
      ultimately show ?thesis using less.hyps [of high "Suc m"] less.prems m by simp
    next
      case False
      then have "checkpoint_search vs v low high = checkpoint_search vs v low m"
        using \<open>low < high\<close> m vs [OF m(3)]
        by (subst checkpoint_search.simps) (simp add: m_def [symmetric] Let_def)
      moreover have "\<forall>i<c. m \<le> i \<longrightarrow> v < f i" using above False by (meson leD le_less_linear less_le_trans)
      ultimately show ?thesis using less.hyps [of m low] less.prems m by simp
    qed
  qed
qed

lemma log_search:
  assumes "log_stored c e" "log_ok (log_of c e) w x" "0 < c"
  shows "\<exists>n. checkpoint_search (\<lambda>i. map_option fst (e i)) v 0 c = Inr n \<and> 0 < n \<and> n \<le> c \<and>
    snd (the (e (n - 1))) = log_read (log_of c e) x v"
proof -
  define f where "f i = fst (the (e i))" for i
  let ?l = "log_of c e"
  have e: "e i = Some (the (e i))" if "i < c" for i using assms(1) that by (simp add: log_stored_def)
  have vs: "map_option fst (e i) = Some (f i)" if "i < c" for i
    using e [OF that] by (metis f_def option.map(2))
  have nth: "?l ! i = the (e i)" if "i < c" for i using that by (simp add: log_of_def)
  have mono: "f i < f j" if "i < j" "j < c" for i j
    using assms(2) that by (simp add: log_ok_def sorted_wrt_iff_nth_less log_of_def f_def)
  have "f 0 = 0" using assms(2,3) by (simp add: log_ok_def log_of_def f_def hd_map)
  from checkpoint_search_spec [of c "\<lambda>i. map_option fst (e i)" f 0 c v, OF vs _ mono] assms(1)
  obtain n where n: "n \<le> c" "checkpoint_search (\<lambda>i. map_option fst (e i)) v 0 c = Inr n"
    "\<forall>i<c. f i \<le> v \<longleftrightarrow> i < n" by (auto simp: log_stored_def)
  have "0 < n" using n(3) \<open>0 < c\<close> \<open>f 0 = 0\<close> by (metis le0)
  have "filter (\<lambda>x. fst x \<le> v) ?l = take n ?l"
  proof -
    have "\<forall>x\<in>set (take n ?l). fst x \<le> v"
      using n(1,3) by (auto simp: all_set_conv_all_nth log_of_def f_def)
    moreover have "\<forall>x\<in>set (drop n ?l). \<not> fst x \<le> v"
      using n(1,3) by (auto simp: all_set_conv_all_nth log_of_def f_def)
    ultimately show ?thesis
      using filter_append [of "\<lambda>x. fst x \<le> v" "take n ?l" "drop n ?l"]
      by (simp add: filter_id_conv filter_False)
  qed
  then have "log_read ?l x v = snd (last (take n ?l))" using assms(3) by (simp add: log_read_def log_of_def)
  also have "last (take n ?l) = the (e (n - 1))"
    using \<open>0 < n\<close> n(1) by (cases n) (simp_all add: last_conv_nth log_of_def)
  finally show ?thesis using n \<open>0 < n\<close> by auto
qed

text \<open>
  What a store of checkpoints promises: appending keeps the other logs and
  extends the log of its key, opening it with the previous value when it is empty.
\<close>

locale checkpoint_log =
  fixes count :: "'s \<Rightarrow> 'k \<Rightarrow> nat"
    and entry :: "'s \<Rightarrow> 'k \<Rightarrow> nat \<Rightarrow> (nat \<times> int) option"
    and append :: "'s \<Rightarrow> 'k \<Rightarrow> nat \<Rightarrow> int \<Rightarrow> int \<Rightarrow> 's bond_result"
  assumes append_count: "append s k v p x = Inr s' \<Longrightarrow> count s' = (count s)(k := Suc (max 1 (count s k)))"
    and append_bound: "append s k v p x = Inr s' \<Longrightarrow> Suc (max 1 (count s k)) < 2 ^ 32"
    and append_entry: "append s k v p x = Inr s' \<Longrightarrow> entry s' = (entry s)(k :=
          (if count s k = 0 then (entry s k)(0 \<mapsto> (0, p)) else entry s k)(max 1 (count s k) \<mapsto> (v, x)))"
    and append_succeeds: "Suc (max 1 (count s k)) < 2 ^ 32 \<Longrightarrow> \<exists>s'. append s k v p x = Inr s'"
begin

lemma append_log:
  assumes "append s k v p x = Inr s'"
  shows "log_of (count s' k) (entry s' k) = log_extend (log_of (count s k) (entry s k)) p v x"
  using append_count [OF assms] append_entry [OF assms]
  by (cases "count s k") (simp_all add: log_of_def log_extend_def numeral_2_eq_2 max_def)

lemma append_stored:
  assumes "append s k v p x = Inr s'" "log_stored (count s k) (entry s k)"
  shows "log_stored (count s' k) (entry s' k)"
  using append_count [OF assms(1)] append_entry [OF assms(1)] append_bound [OF assms(1)] assms(2)
  by (cases "count s k") (auto simp: log_stored_def max_def less_Suc_eq split: if_splits)

lemma append_other:
  assumes "append s k v p x = Inr s'" "k' \<noteq> k"
  shows "count s' k' = count s k'" "entry s' k' = entry s k'"
  using append_count [OF assms(1)] append_entry [OF assms(1)] assms(2) by simp_all

end

subsection \<open>Positions and their history\<close>

definition version_of :: "issuer \<Rightarrow> nat \<Rightarrow> nat" where
  "version_of s b = unwrap_or (BalanceVersion s b) 0"

definition balance_of :: "issuer \<Rightarrow> nat \<times> address \<Rightarrow> int" where
  "balance_of s = value_of (HolderBalance s)"

definition holder_count :: "issuer \<Rightarrow> nat \<times> address \<Rightarrow> nat" where
  "holder_count s k = unwrap_or (HolderCheckpointCount s k) 0"

definition holder_entry :: "issuer \<Rightarrow> nat \<times> address \<Rightarrow> nat \<Rightarrow> (nat \<times> int) option" where
  "holder_entry s k i =
     map_option (\<lambda>c. (cp_version c, cp_balance c)) (HolderCheckpoint s (fst k, snd k, i))"

definition supply_count :: "issuer \<Rightarrow> nat \<Rightarrow> nat" where
  "supply_count s b = unwrap_or (SupplyCheckpointCount s b) 0"

definition supply_entry :: "issuer \<Rightarrow> nat \<Rightarrow> nat \<Rightarrow> (nat \<times> int) option" where
  "supply_entry s b i =
     map_option (\<lambda>c. (sp_version c, sp_total_subscribed c)) (SupplyCheckpoint s (b, i))"

definition holder_log :: "issuer \<Rightarrow> nat \<times> address \<Rightarrow> (nat \<times> int) list" where
  "holder_log s k = log_of (holder_count s k) (holder_entry s k)"

definition supply_log :: "issuer \<Rightarrow> nat \<Rightarrow> (nat \<times> int) list" where
  "supply_log s b = log_of (supply_count s b) (supply_entry s b)"

interpretation hcp: checkpoint_log holder_count holder_entry
  "\<lambda>s k. append_holder_checkpoint s (fst k) (snd k)"
  by unfold_locales
     (auto simp: append_holder_checkpoint_def Let_def contract_simps holder_count_def
       holder_entry_def checked_add_u32_def fun_eq_iff max_def split: if_splits)

interpretation scp: checkpoint_log supply_count supply_entry append_supply_checkpoint
  by unfold_locales
     (auto simp: append_supply_checkpoint_def Let_def contract_simps supply_count_def
       supply_entry_def checked_add_u32_def fun_eq_iff max_def split: if_splits)

definition history :: "issuer \<Rightarrow> nat \<Rightarrow> nat \<Rightarrow> address \<Rightarrow> int" where
  "history s b v h = log_read (holder_log s (b, h)) (balance_of s (b, h)) v"

definition supply_history :: "issuer \<Rightarrow> nat \<Rightarrow> nat \<Rightarrow> int" where
  "supply_history s b v = log_read (supply_log s b) (total_subscribed (the (BondState s b))) v"

lemma holder_balance_at_version_eq:
  assumes "log_stored (holder_count s (b, h)) (holder_entry s (b, h))"
    and "log_ok (holder_log s (b, h)) w (balance_of s (b, h))"
  shows "holder_balance_at_version s b h v = Inr (history s b v h)"
proof (cases "holder_count s (b, h) = 0")
  case True
  then show ?thesis
    by (simp add: holder_balance_at_version_def holder_count_def history_def log_read_def
        holder_log_def log_of_def balance_of_def value_of_def)
next
  case False
  from log_search [OF assms(1) assms(2) [unfolded holder_log_def]] False
  obtain n where n: "checkpoint_search (\<lambda>i. map_option fst (holder_entry s (b, h) i)) v 0
      (holder_count s (b, h)) = Inr n" "0 < n" "n \<le> holder_count s (b, h)"
    "snd (the (holder_entry s (b, h) (n - 1))) = history s b v h"
    by (auto simp: history_def holder_log_def)
  have "holder_entry s (b, h) (n - 1) \<noteq> None"
    using assms(1) n(2,3) by (auto simp: log_stored_def)
  with n False show ?thesis
    by (auto simp: holder_balance_at_version_def holder_count_def holder_entry_def Let_def
        option.map_comp comp_def)
qed

lemma total_subscribed_at_version_eq:
  assumes "log_stored (supply_count s b) (supply_entry s b)" "BondState s b = Some st"
    and "log_ok (supply_log s b) w (total_subscribed st)"
  shows "total_subscribed_at_version s b v = Inr (supply_history s b v)"
proof (cases "supply_count s b = 0")
  case True
  then show ?thesis using assms(2)
    by (simp add: total_subscribed_at_version_def supply_count_def supply_history_def log_read_def
        supply_log_def log_of_def)
next
  case False
  from log_search [OF assms(1) assms(3) [unfolded supply_log_def]] False assms(2)
  obtain n where n: "checkpoint_search (\<lambda>i. map_option fst (supply_entry s b i)) v 0
      (supply_count s b) = Inr n" "0 < n" "n \<le> supply_count s b"
    "snd (the (supply_entry s b (n - 1))) = supply_history s b v"
    by (auto simp: supply_history_def supply_log_def)
  have "supply_entry s b (n - 1) \<noteq> None"
    using assms(1) n(2,3) by (auto simp: log_stored_def)
  with n False show ?thesis
    by (auto simp: total_subscribed_at_version_def supply_count_def supply_entry_def Let_def
        option.map_comp comp_def)
qed

subsection \<open>The invariant of the positions\<close>

definition holder_ok :: "issuer \<Rightarrow> nat \<times> address \<Rightarrow> bool" where
  "holder_ok s k \<longleftrightarrow> 0 \<le> balance_of s k \<and> log_stored (holder_count s k) (holder_entry s k) \<and>
     log_ok (holder_log s k) (version_of s (fst k)) (balance_of s k)"

definition config_ok :: "bond_config \<Rightarrow> bool" where
  "config_ok c \<longleftrightarrow> 0 < face_value c \<and> 0 < total_supply c \<and> total_supply c \<le> MAX_SUPPLY"

definition bond_ok :: "issuer \<Rightarrow> nat \<Rightarrow> bool" where
  "bond_ok s b \<longleftrightarrow> (case BondState s b of
       None \<Rightarrow> BondConfig s b = None \<and> (\<forall>h. HolderBalance s (b, h) = None) \<and>
         (\<forall>h. holder_count s (b, h) = 0)
     | Some st \<Rightarrow> (\<exists>c. BondConfig s b = Some c \<and> config_ok c \<and> total_subscribed st \<le> total_supply c) \<and>
         row_sum (HolderBalance s) b = total_subscribed st \<and>
         log_stored (supply_count s b) (supply_entry s b) \<and> supply_log s b \<noteq> [] \<and>
         log_ok (supply_log s b) (version_of s b) (total_subscribed st))"

definition ledger_ok :: "issuer \<Rightarrow> bool" where
  "ledger_ok s \<longleftrightarrow> finite (dom (HolderBalance s)) \<and> (\<forall>k. holder_ok s k) \<and> (\<forall>b. bond_ok s b)"

lemma ledger_okD:
  assumes "ledger_ok s"
  shows "holder_ok s k" "bond_ok s b" "finite (dom (HolderBalance s))"
  using assms unfolding ledger_ok_def by blast+

lemma ledger_ok_balance: "ledger_ok s \<Longrightarrow> 0 \<le> balance_of s k"
  using ledger_okD(1) by (simp add: holder_ok_def)

lemma ledger_ok_log:
  "ledger_ok s \<Longrightarrow> log_ok (holder_log s (b, h)) (version_of s b) (balance_of s (b, h))"
  using ledger_okD(1) [of s "(b, h)"] by (simp add: holder_ok_def)

lemma ledger_ok_bond:
  assumes "ledger_ok s" "BondState s b = Some st"
  shows "\<exists>c. BondConfig s b = Some c \<and> config_ok c \<and> total_subscribed st \<le> total_supply c"
    "row_sum (HolderBalance s) b = total_subscribed st"
    "log_stored (supply_count s b) (supply_entry s b)" "supply_log s b \<noteq> []"
    "log_ok (supply_log s b) (version_of s b) (total_subscribed st)"
  using ledger_okD(2) [OF assms(1), of b] assms(2)
  by (simp_all add: bond_ok_def)

text \<open>
  The effect of an operation that moves positions of one bond: the version
  advances by one, the holders \<open>H\<close> get a checkpoint of that version with their new
  balances, and the supply gets one when the total changes.
\<close>

definition posted :: "issuer \<Rightarrow> issuer \<Rightarrow> nat \<Rightarrow> address set \<Rightarrow> bool" where
  "posted s s' b H \<longleftrightarrow>
     BalanceVersion s' = (BalanceVersion s)(b \<mapsto> Suc (version_of s b)) \<and>
     finite (dom (HolderBalance s')) \<and>
     (\<forall>k. k \<notin> {b} \<times> H \<longrightarrow> HolderBalance s' k = HolderBalance s k \<and>
        holder_count s' k = holder_count s k \<and> holder_entry s' k = holder_entry s k) \<and>
     (\<forall>h\<in>H. log_stored (holder_count s' (b, h)) (holder_entry s' (b, h)) \<and>
        0 \<le> balance_of s' (b, h) \<and>
        holder_log s' (b, h) = log_extend (holder_log s (b, h)) (balance_of s (b, h))
          (Suc (version_of s b)) (balance_of s' (b, h))) \<and>
     (\<forall>c. c \<noteq> b \<longrightarrow> supply_count s' c = supply_count s c \<and> supply_entry s' c = supply_entry s c) \<and>
     BondConfig s' = BondConfig s \<and>
     (\<exists>st st' x. BondState s b = Some st \<and> st' = st\<lparr>total_subscribed := x\<rparr> \<and>
        BondState s' = (BondState s)(b \<mapsto> st') \<and>
        x = row_sum (HolderBalance s') b \<and> x \<le> total_supply (the (BondConfig s b)) \<and>
        log_stored (supply_count s' b) (supply_entry s' b) \<and>
        (supply_log s' b = log_extend (supply_log s b) (total_subscribed st) (Suc (version_of s b)) x
         \<or> x = total_subscribed st \<and> supply_log s' b = supply_log s b))"

lemma posted_version:
  "posted s s' b H \<Longrightarrow> version_of s' c = (if c = b then Suc (version_of s b) else version_of s c)"
  by (simp add: posted_def version_of_def)

lemma posted_other:
  assumes "posted s s' b H" "k \<notin> {b} \<times> H"
  shows "HolderBalance s' k = HolderBalance s k" "holder_count s' k = holder_count s k"
    "holder_entry s' k = holder_entry s k" "holder_log s' k = holder_log s k"
    "balance_of s' k = balance_of s k"
proof -
  show same: "HolderBalance s' k = HolderBalance s k" "holder_count s' k = holder_count s k"
    "holder_entry s' k = holder_entry s k" using assms unfolding posted_def by blast+
  show "holder_log s' k = holder_log s k" "balance_of s' k = balance_of s k"
    by (simp_all add: same holder_log_def balance_of_def value_of_def)
qed

lemma posted_holder:
  assumes "posted s s' b H" "h \<in> H"
  shows "log_stored (holder_count s' (b, h)) (holder_entry s' (b, h))" "0 \<le> balance_of s' (b, h)"
    "holder_log s' (b, h) = log_extend (holder_log s (b, h)) (balance_of s (b, h))
       (Suc (version_of s b)) (balance_of s' (b, h))"
  using assms unfolding posted_def by blast+

lemma posted_holder_ok:
  assumes "ledger_ok s" "posted s s' b H"
  shows "holder_ok s' k"
proof (cases "k \<in> {b} \<times> H")
  case True
  then obtain h where k: "k = (b, h)" "h \<in> H" by auto
  have "log_ok (holder_log s (b, h)) (version_of s b) (balance_of s (b, h))"
    using assms(1) by (rule ledger_ok_log)
  then have "log_ok (holder_log s' (b, h)) (Suc (version_of s b)) (balance_of s' (b, h))"
    by (simp add: posted_holder [OF assms(2) k(2)] log_extend_ok)
  then show ?thesis
    using posted_holder [OF assms(2) k(2)] k by (simp add: holder_ok_def posted_version [OF assms(2)])
next
  case False
  have "version_of s (fst k) \<le> version_of s' (fst k)"
    by (simp add: posted_version [OF assms(2)])
  with ledger_okD(1) [OF assms(1), of k] show ?thesis
    by (auto simp: posted_other [OF assms(2) False] holder_ok_def intro: log_ok_le)
qed

lemma posted_bond:
  assumes "posted s s' b H"
  shows "\<exists>st x. BondState s b = Some st \<and>
        BondState s' = (BondState s)(b \<mapsto> st\<lparr>total_subscribed := x\<rparr>) \<and>
        x = row_sum (HolderBalance s') b \<and> x \<le> total_supply (the (BondConfig s b)) \<and>
        log_stored (supply_count s' b) (supply_entry s' b) \<and>
        (supply_log s' b = log_extend (supply_log s b) (total_subscribed st) (Suc (version_of s b)) x
         \<or> x = total_subscribed st \<and> supply_log s' b = supply_log s b)"
  using assms unfolding posted_def by blast

lemma posted_other_bond:
  assumes "posted s s' b H" "c \<noteq> b"
  shows "supply_count s' c = supply_count s c" "supply_entry s' c = supply_entry s c"
    "supply_log s' c = supply_log s c" "BondState s' c = BondState s c"
    "row_sum (HolderBalance s') c = row_sum (HolderBalance s) c"
    "HolderBalance s' (c, h) = HolderBalance s (c, h)" "holder_count s' (c, h) = holder_count s (c, h)"
proof -
  show same: "supply_count s' c = supply_count s c" "supply_entry s' c = supply_entry s c"
    using assms unfolding posted_def by blast+
  then show "supply_log s' c = supply_log s c" by (simp add: supply_log_def)
  show "BondState s' c = BondState s c" using posted_bond [OF assms(1)] assms(2) by auto
  have bal: "HolderBalance s' (c, g) = HolderBalance s (c, g)" for g
    using posted_other(1) [OF assms(1)] assms(2) by auto
  then show "HolderBalance s' (c, h) = HolderBalance s (c, h)" .
  show "holder_count s' (c, h) = holder_count s (c, h)"
    using posted_other(2) [OF assms(1)] assms(2) by auto
  have "{k. k \<in> dom (HolderBalance s') \<and> fst k = c} = {k. k \<in> dom (HolderBalance s) \<and> fst k = c}"
    by (auto simp: domIff bal)
  then show "row_sum (HolderBalance s') c = row_sum (HolderBalance s) c"
    unfolding row_sum_def by (intro sum.cong) (auto simp: value_of_def bal)
qed

lemma posted_bond_ok:
  assumes "ledger_ok s" "posted s s' b H"
  shows "bond_ok s' c"
proof (cases "c = b")
  case False
  note same = posted_other_bond [OF assms(2) False]
  have "BondConfig s' = BondConfig s" using assms(2) unfolding posted_def by blast
  with ledger_okD(2) [OF assms(1), of c] show ?thesis
    by (cases "BondState s c") (simp_all add: bond_ok_def same posted_version [OF assms(2)] False)
next
  case True
  from posted_bond [OF assms(2)] obtain st x where st: "BondState s b = Some st"
    "BondState s' = (BondState s)(b \<mapsto> st\<lparr>total_subscribed := x\<rparr>)"
    "x = row_sum (HolderBalance s') b" "x \<le> total_supply (the (BondConfig s b))"
    "log_stored (supply_count s' b) (supply_entry s' b)"
    "supply_log s' b = log_extend (supply_log s b) (total_subscribed st) (Suc (version_of s b)) x
         \<or> x = total_subscribed st \<and> supply_log s' b = supply_log s b" by blast
  have conf: "BondConfig s' = BondConfig s" using assms(2) unfolding posted_def by blast
  note old = ledger_ok_bond [OF assms(1) st(1)]
  have "log_ok (supply_log s' b) (Suc (version_of s b)) x"
    using st(6) log_extend_ok [OF old(5)] log_ok_le [OF old(5)] by auto
  moreover have "supply_log s' b \<noteq> []" using st(6) old(4) by auto
  ultimately show ?thesis
    using st old(1) by (auto simp: bond_ok_def True conf posted_version [OF assms(2)])
qed

lemma posted_ledger_ok:
  assumes "ledger_ok s" "posted s s' b H"
  shows "ledger_ok s'"
  using assms(2) posted_holder_ok [OF assms] posted_bond_ok [OF assms]
  by (simp add: ledger_ok_def) (simp add: posted_def)

lemma posted_history:
  assumes "ledger_ok s" "posted s s' b H" "v \<le> version_of s c"
  shows "history s' c v h = history s c v h"
proof (cases "(c, h) \<in> {b} \<times> H")
  case True
  then have "c = b" "h \<in> H" by auto
  moreover have "log_ok (holder_log s (b, h)) (version_of s b) (balance_of s (b, h))"
    using assms(1) by (rule ledger_ok_log)
  ultimately show ?thesis
    using assms(3) by (simp add: history_def posted_holder [OF assms(2)] log_read_extend)
qed (simp add: history_def posted_other [OF assms(2)])

lemma posted_supply_history:
  assumes "ledger_ok s" "posted s s' b H" "v \<le> version_of s c"
  shows "supply_history s' c v = supply_history s c v"
proof (cases "c = b")
  case True
  from posted_bond [OF assms(2)] obtain st x where st: "BondState s b = Some st"
    "BondState s' = (BondState s)(b \<mapsto> st\<lparr>total_subscribed := x\<rparr>)"
    "supply_log s' b = log_extend (supply_log s b) (total_subscribed st) (Suc (version_of s b)) x
         \<or> x = total_subscribed st \<and> supply_log s' b = supply_log s b" by blast
  with ledger_ok_bond(5) [OF assms(1) st(1)] assms(3) True show ?thesis by (auto simp: supply_history_def log_read_extend)
qed (simp add: supply_history_def posted_other_bond [OF assms(2)])

text \<open>The history of the current version is the current state.\<close>

lemma history_current: "ledger_ok s \<Longrightarrow> history s b (version_of s b) h = balance_of s (b, h)"
  unfolding history_def by (intro log_read_current ledger_ok_log)

lemma supply_history_current:
  "ledger_ok s \<Longrightarrow> BondState s b = Some st \<Longrightarrow> supply_history s b (version_of s b) = total_subscribed st"
  using log_read_current [OF ledger_ok_bond(5)] by (simp add: supply_history_def)

subsection \<open>Posting positions\<close>

lemma advance_balance_version_iff [contract_simps]:
  "advance_balance_version s b = Inr (s', v) \<longleftrightarrow>
     v = Suc (version_of s b) \<and> v < 2 ^ 64 \<and> s' = s\<lparr>BalanceVersion := (BalanceVersion s)(b \<mapsto> v)\<rparr>"
  by (auto simp: advance_balance_version_def version_of_def Let_def and_then_Inr_iff ok_or_Inr_iff
      checked_add_u64_Some_iff)

lemma append_holder_checkpoint_frame:
  assumes "append_holder_checkpoint s b h v p x = Inr s'"
  shows "s' = s\<lparr>HolderCheckpoint := HolderCheckpoint s', HolderCheckpointCount := HolderCheckpointCount s'\<rparr>"
  using assms
  by (auto simp: append_holder_checkpoint_def Let_def contract_simps simp del: fun_upd_apply)

lemma append_supply_checkpoint_frame:
  assumes "append_supply_checkpoint s b v p x = Inr s'"
  shows "s' = s\<lparr>SupplyCheckpoint := SupplyCheckpoint s', SupplyCheckpointCount := SupplyCheckpointCount s'\<rparr>"
  using assms
  by (auto simp: append_supply_checkpoint_def Let_def contract_simps simp del: fun_upd_apply)

text \<open>The fields of the positions, and the storage with other positions.\<close>

definition with_positions :: "issuer \<Rightarrow> issuer \<Rightarrow> issuer" where
  "with_positions s s' = s\<lparr>HolderBalance := HolderBalance s', BondState := BondState s',
     BalanceVersion := BalanceVersion s', HolderCheckpoint := HolderCheckpoint s',
     HolderCheckpointCount := HolderCheckpointCount s', SupplyCheckpoint := SupplyCheckpoint s',
     SupplyCheckpointCount := SupplyCheckpointCount s'\<rparr>"

lemmas position_views = holder_count_def holder_entry_def supply_count_def supply_entry_def
  holder_log_def supply_log_def version_of_def balance_of_def

definition same_positions :: "issuer \<Rightarrow> issuer \<Rightarrow> bool" where
  "same_positions s s' \<longleftrightarrow> HolderBalance s' = HolderBalance s \<and> BondState s' = BondState s \<and>
     BondConfig s' = BondConfig s \<and>
     BalanceVersion s' = BalanceVersion s \<and> HolderCheckpoint s' = HolderCheckpoint s \<and>
     HolderCheckpointCount s' = HolderCheckpointCount s \<and> SupplyCheckpoint s' = SupplyCheckpoint s \<and>
     SupplyCheckpointCount s' = SupplyCheckpointCount s"

lemma same_positions_views:
  assumes "same_positions s s'"
  shows "holder_count s' = holder_count s" "holder_entry s' = holder_entry s"
    "supply_count s' = supply_count s" "supply_entry s' = supply_entry s"
    "holder_log s' = holder_log s" "supply_log s' = supply_log s"
    "version_of s' = version_of s" "balance_of s' = balance_of s"
    "history s' = history s" "supply_history s' = supply_history s"
proof -
  show views: "holder_count s' = holder_count s" "holder_entry s' = holder_entry s"
    "supply_count s' = supply_count s" "supply_entry s' = supply_entry s"
    "version_of s' = version_of s" "balance_of s' = balance_of s"
    by (rule ext, use assms in \<open>simp add: same_positions_def position_views\<close>)+
  show logs: "holder_log s' = holder_log s" "supply_log s' = supply_log s"
    by (rule ext, simp add: views holder_log_def supply_log_def)+
  show "history s' = history s" "supply_history s' = supply_history s"
    by ((rule ext)+, use assms in \<open>simp add: views logs history_def supply_history_def same_positions_def\<close>)+
qed

lemma same_positions_ledger_ok:
  assumes "same_positions s s'" "ledger_ok s"
  shows "ledger_ok s'"
proof -
  have "bond_ok s' b = bond_ok s b" for b
    using assms(1) [unfolded same_positions_def]
    by (cases "BondState s b") (simp_all add: bond_ok_def same_positions_views [OF assms(1)])
  moreover have "holder_ok s' k = holder_ok s k" for k
    by (simp add: holder_ok_def same_positions_views [OF assms(1)])
  ultimately show ?thesis using assms by (simp add: ledger_ok_def same_positions_def)
qed

lemma same_positions_posted: "posted s s' b H \<Longrightarrow> same_positions s' s'' \<Longrightarrow> posted s s'' b H"
  by (simp add: posted_def same_positions_views) (simp add: same_positions_def)

lemma posted_single:
  assumes ok: "ledger_ok s" and st: "BondState s b = Some st"
    and s1: "HolderBalance s1 = (HolderBalance s)((b, h) \<mapsto> x)"
      "BondState s1 = (BondState s)(b \<mapsto> st\<lparr>total_subscribed := t\<rparr>)"
      "same_positions s (s1\<lparr>HolderBalance := HolderBalance s, BondState := BondState s\<rparr>)"
    and adv: "advance_balance_version s1 b = Inr (s2, v)"
    and hold: "append_holder_checkpoint s2 b h v (balance_of s (b, h)) x = Inr s3"
    and sup: "append_supply_checkpoint s3 b v (total_subscribed st) t = Inr s4"
    and x: "0 \<le> x" "t = total_subscribed st + x - balance_of s (b, h)"
      "t \<le> total_supply (the (BondConfig s b))"
  shows "posted s s4 b {h}"
proof -
  have views: "holder_count s2 = holder_count s" "holder_entry s2 = holder_entry s"
    "supply_count s2 = supply_count s" "supply_entry s2 = supply_entry s"
    "v = Suc (version_of s b)" "BalanceVersion s2 = (BalanceVersion s)(b \<mapsto> v)"
    "HolderBalance s2 = (HolderBalance s)((b, h) \<mapsto> x)" "BondConfig s2 = BondConfig s"
    "BondState s2 = (BondState s)(b \<mapsto> st\<lparr>total_subscribed := t\<rparr>)"
    using adv s1 by (simp_all add: contract_simps position_views same_positions_def fun_eq_iff)
  note f3 = append_holder_checkpoint_frame [OF hold]
  note f4 = append_supply_checkpoint_frame [OF sup]
  have hc: "holder_count s4 = holder_count s3" "holder_entry s4 = holder_entry s3"
    by (subst f4, simp add: position_views fun_eq_iff)+
  have sc: "supply_count s3 = supply_count s2" "supply_entry s3 = supply_entry s2"
    by (subst f3, simp add: position_views fun_eq_iff)+
  have other: "BalanceVersion s4 = BalanceVersion s2" "HolderBalance s4 = HolderBalance s2"
    "BondConfig s4 = BondConfig s2" "BondState s4 = BondState s2"
    by (subst f4, simp, subst f3, simp)+
  note h1 = hcp.append_log [where k = "(b, h)", simplified, OF hold]
    hcp.append_stored [where k = "(b, h)", simplified, OF hold]
    hcp.append_other [where k = "(b, h)", simplified, OF hold]
  note h2 = scp.append_log [OF sup] scp.append_stored [OF sup] scp.append_other [OF sup]
  have "row_sum (HolderBalance s4) b = t"
    using row_sum_upd [OF ledger_okD(3) [OF ok], of b h x b] ledger_ok_bond(2) [OF ok st] x(2)
    by (simp add: other views balance_of_def)
  moreover have "log_stored (holder_count s (b, h)) (holder_entry s (b, h))"
    using ledger_okD(1) [OF ok] by (simp add: holder_ok_def)
  ultimately show ?thesis
    unfolding posted_def
    using h1 h2 st x ledger_okD(3) [OF ok] ledger_ok_bond(3) [OF ok st]
    by (auto simp: hc sc other views holder_log_def supply_log_def balance_of_def value_of_def)
qed

text \<open>
  The history of a state is kept by a later state: versions only grow, and every
  version of an issued bond reads as it did.
\<close>

definition extends :: "issuer \<Rightarrow> issuer \<Rightarrow> bool" where
  "extends s s' \<longleftrightarrow> (\<forall>b. BondState s b \<noteq> None \<longrightarrow>
     BondState s' b \<noteq> None \<and> version_of s b \<le> version_of s' b \<and>
     (\<forall>v\<le>version_of s b. (\<forall>h. history s' b v h = history s b v h) \<and>
        supply_history s' b v = supply_history s b v))"

lemma extends_refl: "extends s s"
  by (simp add: extends_def)

lemma extends_trans: "extends s s' \<Longrightarrow> extends s' s'' \<Longrightarrow> extends s s''"
  unfolding extends_def by (metis order_trans)

lemma posted_extends:
  assumes "ledger_ok s" "posted s s' b H"
  shows "extends s s'"
  unfolding extends_def
  using posted_bond [OF assms(2)]
  by (auto simp: posted_history [OF assms] posted_supply_history [OF assms] posted_version [OF assms(2)])

lemma same_positions_extends: "same_positions s s' \<Longrightarrow> extends s s'"
  by (simp add: extends_def same_positions_views) (simp add: same_positions_def)

subsection \<open>The settlement of a redemption\<close>

lemma settle_redemption_effect:
  assumes ok: "ledger_ok s" and run: "settle_redemption s h b amount = Inr s'"
    and conf: "BondConfig s b = Some c"
  shows "posted s s' b {h}"
    and "s' = (with_positions s s')\<lparr>RedemptionPool := (RedemptionPool s)(b \<mapsto>
            value_of (RedemptionPool s) b - amount * face_value c),
          Events := Events s @ [Redeemed b h amount (amount * face_value c)]\<rparr>"
    and "HolderBalance s' = (HolderBalance s)((b, h) \<mapsto> balance_of s (b, h) - amount)"
    and "0 < amount" "amount \<le> balance_of s (b, h)" "amount * face_value c \<le> value_of (RedemptionPool s) b"
    and "\<exists>st. BondState s b = Some st \<and> status st = Matured \<and>
      BondState s' = (BondState s)(b \<mapsto> st\<lparr>total_subscribed := total_subscribed st - amount\<rparr>)"
proof -
  let ?x = "balance_of s (b, h) - amount"
  let ?p = "value_of (RedemptionPool s) b - amount * face_value c"
  have bal: "balance_of s (b, h) = unwrap_or (HolderBalance s (b, h)) 0"
    by (simp add: balance_of_def value_of_def)
  from run conf obtain st s2 v s3 s4 where st: "BondState s b = Some st" "status st = Matured"
    and am: "0 < amount" "amount \<le> balance_of s (b, h)"
      "amount * face_value c \<le> value_of (RedemptionPool s) b"
    and adv: "advance_balance_version (s\<lparr>RedemptionPool := (RedemptionPool s)(b \<mapsto> ?p),
        HolderBalance := (HolderBalance s)((b, h) \<mapsto> ?x),
        BondState := (BondState s)(b \<mapsto> st\<lparr>total_subscribed := total_subscribed st - amount\<rparr>)\<rparr>) b
        = Inr (s2, v)"
    and hold: "append_holder_checkpoint s2 b h v (balance_of s (b, h)) ?x = Inr s3"
    and sup: "append_supply_checkpoint s3 b v (total_subscribed st) (total_subscribed st - amount) = Inr s4"
    and s': "s' = publish (Redeemed b h amount (amount * face_value c)) s4"
    by (auto simp: settle_redemption_def contract_simps Let_def value_of_def bal
        simp del: advance_balance_version_iff split: prod.splits)
  obtain c' where "BondConfig s b = Some c'" "total_subscribed st \<le> total_supply c'"
    using ledger_ok_bond(1) [OF ok st(1)] by blast
  then have le: "total_subscribed st - amount \<le> total_supply (the (BondConfig s b))" using am(1) by simp
  have "posted s s4 b {h}"
    by (rule posted_single [OF ok st(1) _ _ _ adv hold sup _ _ le])
       (use am in \<open>simp_all add: same_positions_def\<close>)
  then show "posted s s' b {h}"
    by (rule same_positions_posted) (simp add: s' publish_def same_positions_def)
  have s2: "s2 = s\<lparr>RedemptionPool := (RedemptionPool s)(b \<mapsto> ?p),
        HolderBalance := (HolderBalance s)((b, h) \<mapsto> ?x),
        BondState := (BondState s)(b \<mapsto> st\<lparr>total_subscribed := total_subscribed st - amount\<rparr>),
        BalanceVersion := (BalanceVersion s)(b \<mapsto> v)\<rparr>"
    using adv by (simp add: advance_balance_version_iff)
  obtain HC HN where s3: "s3 = s2\<lparr>HolderCheckpoint := HC, HolderCheckpointCount := HN\<rparr>"
    using append_holder_checkpoint_frame [OF hold] by blast
  obtain SC SN where s4: "s4 = s3\<lparr>SupplyCheckpoint := SC, SupplyCheckpointCount := SN\<rparr>"
    using append_supply_checkpoint_frame [OF sup] by blast
  show "s' = (with_positions s s')\<lparr>RedemptionPool := (RedemptionPool s)(b \<mapsto> ?p),
          Events := Events s @ [Redeemed b h amount (amount * face_value c)]\<rparr>"
    "HolderBalance s' = (HolderBalance s)((b, h) \<mapsto> ?x)"
    by (simp_all add: s' s4 s3 s2 publish_def with_positions_def)
  show "\<exists>st. BondState s b = Some st \<and> status st = Matured \<and>
      BondState s' = (BondState s)(b \<mapsto> st\<lparr>total_subscribed := total_subscribed st - amount\<rparr>)"
    using st by (simp add: s' s4 s3 s2 publish_def)
  show "0 < amount" "amount \<le> balance_of s (b, h)"
    "amount * face_value c \<le> value_of (RedemptionPool s) b" by (fact am)+
qed

lemma settle_redemption_frame:
  assumes "ledger_ok s" "settle_redemption s h b amount = Inr s'" "BondConfig s b = Some c"
  shows "RedemptionRequest s' = RedemptionRequest s" "RedemptionReserved s' = RedemptionReserved s"
    "RedemptionTail s' = RedemptionTail s" "RedemptionHead s' = RedemptionHead s"
    "RedemptionBudget s' = RedemptionBudget s" "RedemptionCycle s' = RedemptionCycle s"
    "RedemptionId s' = RedemptionId s" "BondConfig s' = BondConfig s" "Nonce s' = Nonce s"
    "RedemptionPool s' = (RedemptionPool s)(b \<mapsto> value_of (RedemptionPool s) b - amount * face_value c)"
  by (subst settle_redemption_effect(2) [OF assms], simp add: with_positions_def)+

text \<open>The counters of a bond can take \<open>n\<close> more changes of positions.\<close>

definition counters_room :: "issuer \<Rightarrow> nat \<Rightarrow> nat \<Rightarrow> bool" where
  "counters_room s b n \<longleftrightarrow> version_of s b + n < 2 ^ 64 \<and> max 1 (supply_count s b) + n < 2 ^ 32 \<and>
     (\<forall>h. max 1 (holder_count s (b, h)) + n < 2 ^ 32)"

lemma settle_redemption_succeeds:
  assumes "ledger_ok s" "BondState s b = Some st" "status st = Matured" "BondConfig s b = Some c"
    and "0 < amount" "amount \<le> balance_of s (b, h)"
    and "amount * face_value c \<le> value_of (RedemptionPool s) b" "i128 (value_of (RedemptionPool s) b)"
    and "counters_room s b 1"
  shows "\<exists>s'. settle_redemption s h b amount = Inr s'"
proof -
  have c': "config_ok c" "total_subscribed st \<le> total_supply c"
    using ledger_ok_bond(1) [OF assms(1,2)] assms(4) by auto
  have "balance_of s (b, h) \<le> total_subscribed st"
    using row_sum_ge [OF ledger_okD(3) [OF assms(1)], of b h] ledger_ok_bond(2) [OF assms(1,2)]
      ledger_ok_balance [OF assms(1)] by (simp add: balance_of_def)
  with c' assms(5,6) have small: "i128 (balance_of s (b, h) - amount)" "i128 (total_subscribed st - amount)"
    by (simp_all add: i128_def i128_min_def i128_max_def config_ok_def MAX_SUPPLY_def)
  have "0 < amount * face_value c" using assms(5) c'(1) by (simp add: config_ok_def)
  with assms(7,8) have pay: "i128 (amount * face_value c)"
    "i128 (value_of (RedemptionPool s) b - amount * face_value c)"
    using i128_le by (smt (verit, best))+
  define s1 where "s1 = s\<lparr>RedemptionPool := (RedemptionPool s)(b \<mapsto> value_of (RedemptionPool s) b - amount * face_value c),
      HolderBalance := (HolderBalance s)((b, h) \<mapsto> balance_of s (b, h) - amount),
      BondState := (BondState s)(b \<mapsto> st\<lparr>total_subscribed := total_subscribed st - amount\<rparr>)\<rparr>"
  define s2 where "s2 = s1\<lparr>BalanceVersion := (BalanceVersion s)(b \<mapsto> Suc (version_of s b))\<rparr>"
  have adv: "advance_balance_version s1 b = Inr (s2, Suc (version_of s b))"
    using assms(9) by (simp add: advance_balance_version_iff s1_def s2_def version_of_def counters_room_def)
  have "holder_count s2 (b, h) = holder_count s (b, h)" by (simp add: s2_def s1_def holder_count_def)
  then obtain s3 where hold: "append_holder_checkpoint s2 b h (Suc (version_of s b)) (balance_of s (b, h))
      (balance_of s (b, h) - amount) = Inr s3"
    using hcp.append_succeeds [of s2 "(b, h)" "Suc (version_of s b)" "balance_of s (b, h)"
        "balance_of s (b, h) - amount"] assms(9) by (auto simp: counters_room_def)
  have "supply_count s3 b = supply_count s b"
    by (subst append_holder_checkpoint_frame [OF hold]) (simp add: s2_def s1_def supply_count_def)
  then obtain s4 where sup: "append_supply_checkpoint s3 b (Suc (version_of s b)) (total_subscribed st)
      (total_subscribed st - amount) = Inr s4"
    using scp.append_succeeds [of s3 b "Suc (version_of s b)" "total_subscribed st"
        "total_subscribed st - amount"] assms(9) by (auto simp: counters_room_def)
  have "settle_redemption s h b amount = Inr (publish (Redeemed b h amount (amount * face_value c)) s4)"
    using assms(2-7) small pay adv hold sup
    by (simp add: settle_redemption_def Let_def checked_mul_def checked_sub_def checked_def strict_def
        s1_def balance_of_def value_of_def)
  then show ?thesis by blast
qed

end
