(* ===== verification/Redemption_Queue.thy ===== *)
theory Redemption_Queue
  imports Issuer_Ledger
begin

text \<open>
  The queue of redemption requests of a matured bond
  (\<open>contracts/bond-issuer/src/redemption_queue.rs\<close>): requests are appended with
  increasing ids and paid from the head, within the redemption pool and a budget
  of principal per cycle of ledgers. The theory gives the invariant of the queue,
  an abstract specification of a payment run on the list of waiting requests, and
  the refinement of that specification by \<open>process\<close>.
\<close>

subsection \<open>The module\<close>

definition DEFAULT_REDEMPTION_BUDGET :: int where
  "DEFAULT_REDEMPTION_BUDGET = 1000000000"

definition DEFAULT_REDEMPTION_CYCLE :: nat where
  "DEFAULT_REDEMPTION_CYCLE = 720"

definition MAX_REDEMPTION_BATCH :: nat where
  "MAX_REDEMPTION_BATCH = 50"

definition budget :: "issuer \<Rightarrow> nat \<Rightarrow> redemption_budget" where
  "budget s bond_id = unwrap_or (RedemptionBudget s bond_id)
     \<lparr>principal_per_cycle = DEFAULT_REDEMPTION_BUDGET, ledgers_per_cycle = DEFAULT_REDEMPTION_CYCLE\<rparr>"

definition cycle :: "env \<Rightarrow> issuer \<Rightarrow> nat \<Rightarrow> redemption_budget \<Rightarrow> redemption_cycle bond_result" where
  "cycle env s bond_id config =
     (if ledgers_per_cycle config = 0 then Inl Trap
      else let current = ledger_sequence env div ledgers_per_cycle config;
               value = unwrap_or (RedemptionCycle s bond_id) \<lparr>cy_cycle = current, cy_paid = 0\<rparr>
           in Inr (if cy_cycle value = current then value else \<lparr>cy_cycle = current, cy_paid = 0\<rparr>))"

definition reserved :: "issuer \<Rightarrow> nat \<Rightarrow> address \<Rightarrow> int" where
  "reserved s bond_id holder = unwrap_or (RedemptionReserved s (bond_id, holder)) 0"

definition cursor :: "nat option \<Rightarrow> nat" where
  "cursor value = unwrap_or value 0"

definition enqueue ::
    "env \<Rightarrow> issuer \<Rightarrow> address \<Rightarrow> nat \<Rightarrow> int \<Rightarrow> bytes \<Rightarrow> nat \<Rightarrow> (issuer \<times> nat) bond_result" where
  "enqueue env s holder bond_id amount request_key nonce =
     (case RedemptionId s (bond_id, holder, request_key) of
        Some (rid, queued_amount) \<Rightarrow>
          if queued_amount \<noteq> amount then fail DuplicateRedemptionRequest else Inr (s, rid)
      | None \<Rightarrow>
          and_then (ok_or (BondState s bond_id) BondNotFound) (\<lambda>state.
          if status state \<noteq> Matured then fail BondAlreadyMatured else
          if amount \<le> 0 then fail ZeroAmount else
          let balance = unwrap_or (HolderBalance s (bond_id, holder)) 0;
              current_reserved = reserved s bond_id holder in
          and_then (ok_or (checked_sub balance current_reserved) Overflow) (\<lambda>free.
          if amount > free then fail InsufficientSupply else
          and_then (consume_nonce s holder nonce) (\<lambda>s.
          and_then (ok_or (checked_add_u64 (cursor (RedemptionTail s bond_id)) 1) Overflow) (\<lambda>rid.
          let request = \<lparr>rq_id = rid, rq_holder = holder, rq_key = request_key,
                rq_submitted_ledger = ledger_sequence env, rq_amount = amount, rq_remaining = amount\<rparr>;
              s = s\<lparr>RedemptionRequest := (RedemptionRequest s)((bond_id, rid) \<mapsto> request)\<rparr>;
              s = s\<lparr>RedemptionId := (RedemptionId s)((bond_id, holder, request_key) \<mapsto> (rid, amount))\<rparr>;
              s = s\<lparr>RedemptionTail := (RedemptionTail s)(bond_id \<mapsto> rid)\<rparr>;
              s = (if cursor (RedemptionHead s bond_id) = 0
                   then s\<lparr>RedemptionHead := (RedemptionHead s)(bond_id \<mapsto> 1)\<rparr> else s) in
          and_then (ok_or (checked_add current_reserved amount) Overflow) (\<lambda>new_reserved.
          let s = s\<lparr>RedemptionReserved := (RedemptionReserved s)((bond_id, holder) \<mapsto> new_reserved)\<rparr>;
              s = s\<lparr>RedemptionBudget := (RedemptionBudget s)(bond_id \<mapsto> budget s bond_id)\<rparr>
          in Inr (publish (RedemptionQueued bond_id rid holder amount (ledger_sequence env)) s, rid)))))))"

text \<open>The loop of \<open>process\<close>; its first argument is the number of iterations left.\<close>

primrec process_loop :: "nat \<Rightarrow> nat \<Rightarrow> bond_config \<Rightarrow> redemption_budget \<Rightarrow> nat \<Rightarrow> redemption_cycle \<Rightarrow> nat \<Rightarrow> nat
    \<Rightarrow> issuer \<Rightarrow> (issuer \<times> redemption_cycle \<times> nat \<times> nat) bond_result" where
  "process_loop 0 bond_id config config_budget tail usage head completed s =
     Inr (s, usage, head, completed)"
| "process_loop (Suc n) bond_id config config_budget tail usage head completed s =
     (if head = 0 \<or> head > tail then Inr (s, usage, head, completed) else
      let pool = unwrap_or (RedemptionPool s bond_id) 0 in
      and_then (ok_or (checked_sub (principal_per_cycle config_budget) (cy_paid usage)) Overflow) (\<lambda>unused.
      let available = min pool unused in
      and_then (ok_or (RedemptionRequest s (bond_id, head)) RedemptionQueueRequired) (\<lambda>request.
      let amount = min (rq_remaining request) (available sdiv face_value config) in
      if amount \<le> 0 then Inr (s, usage, head, completed) else
      and_then (ok_or (checked_mul amount (face_value config)) Overflow) (\<lambda>payout.
      and_then (settle_redemption s (rq_holder request) bond_id amount) (\<lambda>s.
      and_then (ok_or (checked_add (cy_paid usage) payout) Overflow) (\<lambda>paid.
      and_then (strict (rq_remaining request - amount)) (\<lambda>remaining.
      and_then (ok_or (checked_sub (reserved s bond_id (rq_holder request)) amount) Overflow) (\<lambda>next_reserved.
      let usage = usage\<lparr>cy_paid := paid\<rparr>;
          s = s\<lparr>RedemptionReserved :=
                  (RedemptionReserved s)((bond_id, rq_holder request) \<mapsto> next_reserved)\<rparr>;
          s = s\<lparr>RedemptionRequest :=
                  (RedemptionRequest s)((bond_id, head) \<mapsto> request\<lparr>rq_remaining := remaining\<rparr>)\<rparr>;
          s = publish (RedemptionProcessed bond_id head amount payout remaining) s in
      if remaining \<noteq> 0 then Inr (s, usage, head, completed) else
      and_then (ok_or (checked_add_u64 head 1) Overflow) (\<lambda>head.
      process_loop n bond_id config config_budget tail usage head (completed + 1) s)))))))))"

definition process :: "env \<Rightarrow> issuer \<Rightarrow> nat \<Rightarrow> nat \<Rightarrow> (issuer \<times> nat) bond_result" where
  "process env s bond_id limit =
     and_then (ok_or (BondConfig s bond_id) BondNotFound) (\<lambda>config.
     if face_value config \<le> 0 then fail InvalidRedemptionBudget else
     let config_budget = budget s bond_id in
     and_then (cycle env s bond_id config_budget) (\<lambda>usage.
     and_then (process_loop (min limit MAX_REDEMPTION_BATCH) bond_id config config_budget
                 (cursor (RedemptionTail s bond_id)) usage (cursor (RedemptionHead s bond_id)) 0 s)
       (\<lambda>(s, usage, head, completed).
     Inr (s\<lparr>RedemptionHead := (RedemptionHead s)(bond_id \<mapsto> head),
            RedemptionCycle := (RedemptionCycle s)(bond_id \<mapsto> usage)\<rparr>, completed))))"

subsection \<open>A payment run on the waiting list\<close>

text \<open>
  The abstract specification: the waiting requests as a list of holders and open
  units, and a run that may pay \<open>A\<close> units to at most \<open>n\<close> requests. A request is
  paid in full before the next one is looked at; \<open>payments\<close> are the units paid,
  \<open>unpaid\<close> is the list after the run.
\<close>

fun payments :: "nat \<Rightarrow> int \<Rightarrow> (address \<times> int) list \<Rightarrow> (address \<times> int) list" where
  "payments (Suc n) A ((h, r) # q) =
     (if A \<le> 0 then [] else if A < r then [(h, A)] else (h, r) # payments n (A - r) q)"
| "payments _ _ _ = []"

fun unpaid :: "nat \<Rightarrow> int \<Rightarrow> (address \<times> int) list \<Rightarrow> (address \<times> int) list" where
  "unpaid (Suc n) A ((h, r) # q) =
     (if A \<le> 0 then (h, r) # q else if A < r then (h, r - A) # q else unpaid n (A - r) q)"
| "unpaid _ _ q = q"

definition owed :: "(address \<times> int) list \<Rightarrow> address \<Rightarrow> int" where
  "owed q h = sum_list (map (\<lambda>(g, r). if g = h then r else 0) q)"

definition units :: "(address \<times> int) list \<Rightarrow> int" where
  "units q = sum_list (map snd q)"

lemma owed_simps [simp]:
  "owed [] h = 0" "owed ((g, r) # q) h = (if g = h then r else 0) + owed q h"
  "owed (p @ q) h = owed p h + owed q h"
  by (simp_all add: owed_def)

lemma units_simps [simp]: "units [] = 0" "units ((h, r) # q) = r + units q" "units (p @ q) = units p + units q"
  by (simp_all add: units_def)

lemma owed_nonneg: "list_all (\<lambda>x. 0 < snd x) q \<Longrightarrow> 0 \<le> owed q h"
  by (induction q) auto

lemma owed_units: "list_all (\<lambda>x. 0 < snd x) q \<Longrightarrow> owed q h \<le> units q"
  by (induction q) auto

text \<open>Nothing is lost, what is paid is what was allowed, and requests are paid in order.\<close>

lemma payments_conserve: "owed (payments n A q) h + owed (unpaid n A q) h = owed q h"
  by (induction n A q rule: payments.induct) auto

lemma units_take_nonneg: "list_all (\<lambda>x. 0 < snd x) q \<Longrightarrow> 0 \<le> units (take n q)"
  by (induction q arbitrary: n) (auto simp: take_Cons' add_pos_nonneg less_imp_le)

lemma payments_total:
  assumes "list_all (\<lambda>x. 0 < snd x) q" "0 \<le> A"
  shows "units (payments n A q) = min A (units (take n q))"
  using assms
proof (induction n A q rule: payments.induct)
  case (1 n A h r q)
  then show ?case using units_take_nonneg [of q n] by (auto simp: min_def)
qed auto

lemma payments_fifo:
  assumes "list_all (\<lambda>x. 0 < snd x) q"
  shows "\<exists>p. payments n A q = take (length p) q \<and> unpaid n A q = drop (length p) q \<or>
     (\<exists>h r k. q = p @ (h, r) # drop (Suc (length p)) q \<and> 0 < k \<and> k < r \<and>
       payments n A q = p @ [(h, k)] \<and> unpaid n A q = (h, r - k) # drop (Suc (length p)) q)"
  using assms
proof (induction n A q rule: payments.induct)
  case (1 n A h r q)
  show ?case
  proof (cases "A \<le> 0 \<or> A < r")
    case True
    then show ?thesis by (auto intro: exI [of _ "[]"])
  next
    case False
    with 1 obtain p where "payments n (A - r) q = take (length p) q \<and> unpaid n (A - r) q = drop (length p) q \<or>
     (\<exists>h r' k. q = p @ (h, r') # drop (Suc (length p)) q \<and> 0 < k \<and> k < r' \<and>
       payments n (A - r) q = p @ [(h, k)] \<and> unpaid n (A - r) q = (h, r' - k) # drop (Suc (length p)) q)"
      by auto
    with False show ?thesis by (intro exI [of _ "(h, r) # p"]) auto
  qed
qed (rule exI [of _ "[]"], simp)+

subsection \<open>The invariant of the queue\<close>

definition pool_of :: "issuer \<Rightarrow> nat \<Rightarrow> int" where
  "pool_of s b = value_of (RedemptionPool s) b"

definition waiting :: "issuer \<Rightarrow> nat \<Rightarrow> nat \<Rightarrow> nat \<Rightarrow> (address \<times> int) list" where
  "waiting s b head tail = (if head = 0 then [] else
     map (\<lambda>i. let r = the (RedemptionRequest s (b, i)) in (rq_holder r, rq_remaining r)) [head..<Suc tail])"

definition requests_ok :: "issuer \<Rightarrow> nat \<Rightarrow> nat \<Rightarrow> nat \<Rightarrow> bool" where
  "requests_ok s b head tail \<longleftrightarrow> (head = 0 \<longleftrightarrow> tail = 0) \<and> head \<le> Suc tail \<and> tail < 2 ^ 64 \<and>
     (\<forall>i\<in>{1..tail}. \<exists>r. RedemptionRequest s (b, i) = Some r \<and> rq_id r = i \<and>
        0 \<le> rq_remaining r \<and> rq_remaining r \<le> rq_amount r \<and> (rq_remaining r = 0 \<longleftrightarrow> i < head))"

definition backed :: "issuer \<Rightarrow> nat \<Rightarrow> nat \<Rightarrow> nat \<Rightarrow> bool" where
  "backed s b head tail \<longleftrightarrow>
     (\<forall>h. reserved s b h = owed (waiting s b head tail) h) \<and>
     (\<forall>h. owed (waiting s b head tail) h \<le> balance_of s (b, h))"

definition pool_ok :: "issuer \<Rightarrow> nat \<Rightarrow> bool" where
  "pool_ok s b \<longleftrightarrow> 0 \<le> pool_of s b \<and> i128 (pool_of s b)"

definition usage_ok :: "redemption_budget \<Rightarrow> redemption_cycle \<Rightarrow> bool" where
  "usage_ok bd u \<longleftrightarrow> 0 \<le> cy_paid u \<and> cy_paid u \<le> principal_per_cycle bd"

lemma waiting_Nil [simp]: "tail < head \<Longrightarrow> waiting s b head tail = []"
  by (simp add: waiting_def)

lemma waiting_Cons:
  assumes "head \<noteq> 0" "head \<le> tail" "RedemptionRequest s (b, head) = Some r"
  shows "waiting s b head tail = (rq_holder r, rq_remaining r) # waiting s b (Suc head) tail"
  using assms by (simp add: waiting_def upt_conv_Cons del: upt_Suc)

lemma waiting_positive:
  assumes "requests_ok s b head tail"
  shows "list_all (\<lambda>x. 0 < snd x) (waiting s b head tail)"
proof -
  have "0 < rq_remaining (the (RedemptionRequest s (b, i)))" if "head \<le> i" "i \<le> tail" "head \<noteq> 0" for i
  proof -
    have "i \<in> {1..tail}" using that by simp
    then obtain r where "RedemptionRequest s (b, i) = Some r" "0 \<le> rq_remaining r" "rq_remaining r = 0 \<longleftrightarrow> i < head"
      using assms unfolding requests_ok_def by blast
    then show ?thesis using that by simp
  qed
  then show ?thesis by (auto simp: waiting_def list_all_iff Let_def)
qed

subsection \<open>One iteration\<close>

definition allowance :: "issuer \<Rightarrow> nat \<Rightarrow> bond_config \<Rightarrow> redemption_budget \<Rightarrow> redemption_cycle \<Rightarrow> int" where
  "allowance s b c bd u = min (pool_of s b) (principal_per_cycle bd - cy_paid u) div face_value c"

text \<open>What one payment of \<open>amount\<close> units to the head request changes.\<close>

definition head_paid :: "issuer \<Rightarrow> issuer \<Rightarrow> nat \<Rightarrow> bond_config \<Rightarrow> nat \<Rightarrow> redemption_request \<Rightarrow> int \<Rightarrow> bool" where
  "head_paid s s' b c head r amount \<longleftrightarrow>
     posted s s' b {rq_holder r} \<and>
     HolderBalance s' = (HolderBalance s)((b, rq_holder r) \<mapsto> balance_of s (b, rq_holder r) - amount) \<and>
     RedemptionPool s' = (RedemptionPool s)(b \<mapsto> pool_of s b - amount * face_value c) \<and>
     RedemptionReserved s' = (RedemptionReserved s)((b, rq_holder r) \<mapsto> reserved s b (rq_holder r) - amount) \<and>
     RedemptionRequest s' = (RedemptionRequest s)((b, head) \<mapsto> r\<lparr>rq_remaining := rq_remaining r - amount\<rparr>) \<and>
     RedemptionTail s' = RedemptionTail s \<and> RedemptionHead s' = RedemptionHead s \<and>
     RedemptionBudget s' = RedemptionBudget s \<and> RedemptionCycle s' = RedemptionCycle s \<and>
     BondConfig s' = BondConfig s \<and>
     (\<exists>st. BondState s b = Some st \<and> status st = Matured \<and>
        BondState s' = (BondState s)(b \<mapsto> st\<lparr>total_subscribed := total_subscribed st - amount\<rparr>))"

lemma head_paid_waiting:
  assumes "head_paid s s' b c head r amount" "head \<noteq> 0" "head \<le> tail"
  shows "waiting s' b head tail = (rq_holder r, rq_remaining r - amount) # waiting s b (Suc head) tail"
    and "waiting s' b (Suc head) tail = waiting s b (Suc head) tail"
proof -
  have req: "RedemptionRequest s' = (RedemptionRequest s)((b, head) \<mapsto> r\<lparr>rq_remaining := rq_remaining r - amount\<rparr>)"
    using assms(1) by (simp add: head_paid_def)
  show tl: "waiting s' b (Suc head) tail = waiting s b (Suc head) tail"
    by (auto simp: waiting_def req Let_def)
  show "waiting s' b head tail = (rq_holder r, rq_remaining r - amount) # waiting s b (Suc head) tail"
    using assms(2,3) by (subst waiting_Cons [of _ _ _ _ "r\<lparr>rq_remaining := rq_remaining r - amount\<rparr>"])
      (simp_all add: req tl)
qed

lemma allowance_paid:
  assumes "head_paid s s' b c head r amount" "0 < face_value c"
  shows "allowance s' b c bd (u\<lparr>cy_paid := cy_paid u + amount * face_value c\<rparr>) = allowance s b c bd u - amount"
proof -
  have pool: "pool_of s' b = pool_of s b - amount * face_value c"
    using assms(1) by (simp add: head_paid_def pool_of_def value_of_def)
  have "min (pool_of s' b) (principal_per_cycle bd - (cy_paid u + amount * face_value c)) =
      min (pool_of s b) (principal_per_cycle bd - cy_paid u) + face_value c * - amount"
    by (simp add: pool min_def algebra_simps)
  then show ?thesis using assms(2) by (simp only: allowance_def) (simp del: mult_minus_right)
qed

text \<open>The storage after the payment, from the storage after the settlement.\<close>

definition after_payment :: "nat \<Rightarrow> bond_config \<Rightarrow> nat \<Rightarrow> redemption_request \<Rightarrow> int \<Rightarrow> issuer \<Rightarrow> issuer" where
  "after_payment b c head r amount s =
     publish (RedemptionProcessed b head amount (amount * face_value c) (rq_remaining r - amount))
       (s\<lparr>RedemptionReserved := (RedemptionReserved s)((b, rq_holder r) \<mapsto> reserved s b (rq_holder r) - amount),
          RedemptionRequest := (RedemptionRequest s)((b, head) \<mapsto> r\<lparr>rq_remaining := rq_remaining r - amount\<rparr>)\<rparr>)"

lemma after_payment_head_paid:
  assumes "ledger_ok s" "settle_redemption s (rq_holder r) b amount = Inr s1" "BondConfig s b = Some c"
  shows "head_paid s (after_payment b c head r amount s1) b c head r amount"
proof -
  note e = settle_redemption_effect [OF assms] settle_redemption_frame [OF assms]
  have "posted s (after_payment b c head r amount s1) b {rq_holder r}"
    by (rule same_positions_posted [OF e(1)]) (simp add: after_payment_def publish_def same_positions_def)
  then show ?thesis
    using e(3,7-) by (simp add: head_paid_def after_payment_def publish_def reserved_def pool_of_def)
qed

lemma process_step:
  assumes ok: "ledger_ok s" and c: "BondConfig s b = Some c" "0 < face_value c"
    and r: "RedemptionRequest s (b, head) = Some r" "0 < rq_remaining r" "head \<noteq> 0" "head \<le> tail"
    and pool: "pool_ok s b" and u: "usage_ok bd u"
    and run: "process_loop (Suc n) b c bd tail u head k s = Inr out"
  shows "(let A = allowance s b c bd u; amount = min (rq_remaining r) A in
     if amount \<le> 0 then out = (s, u, head, k)
     else \<exists>s'. head_paid s s' b c head r amount \<and>
       (let u' = u\<lparr>cy_paid := cy_paid u + amount * face_value c\<rparr> in
        if amount < rq_remaining r then out = (s', u', head, k)
        else process_loop n b c bd tail u' (Suc head) (Suc k) s' = Inr out))"
proof -
  have A: "min (unwrap_or (RedemptionPool s b) 0) (principal_per_cycle bd - cy_paid u) sdiv face_value c =
      allowance s b c bd u"
    using pool u c(2) by (simp add: allowance_def pool_ok_def usage_ok_def pool_of_def value_of_def)
  show ?thesis
  proof (cases "min (rq_remaining r) (allowance s b c bd u) \<le> 0")
    case True
    then show ?thesis using run r by (auto simp: Let_def contract_simps A)
  next
    case False
    define amount where "amount = min (rq_remaining r) (allowance s b c bd u)"
    have pos: "\<not> amount \<le> 0" using False unfolding amount_def .
    from run r(1,3,4) pos obtain s1 where s1: "settle_redemption s (rq_holder r) b amount = Inr s1"
      and rest: "(let u' = u\<lparr>cy_paid := cy_paid u + amount * face_value c\<rparr>;
          s' = after_payment b c head r amount s1 in
        if rq_remaining r - amount \<noteq> 0 then out = (s', u', head, k)
        else process_loop n b c bd tail u' (Suc head) (Suc k) s' = Inr out)"
      by (auto simp: Let_def contract_simps A amount_def [symmetric] after_payment_def split: if_splits)
    note after_payment_head_paid [OF ok s1 c(1), of head]
    moreover have "rq_remaining r - amount \<noteq> 0 \<longleftrightarrow> amount < rq_remaining r"
      by (auto simp: amount_def)
    ultimately show ?thesis using rest pos unfolding amount_def [symmetric] Let_def by auto
  qed
qed

subsection \<open>The run refines the specification\<close>

definition queue_state ::
    "issuer \<Rightarrow> nat \<Rightarrow> bond_config \<Rightarrow> redemption_budget \<Rightarrow> nat \<Rightarrow> redemption_cycle \<Rightarrow> nat \<Rightarrow> bool" where
  "queue_state s b c bd tail u head \<longleftrightarrow> ledger_ok s \<and> BondConfig s b = Some c \<and> 0 < face_value c \<and>
     requests_ok s b head tail \<and> backed s b head tail \<and> pool_ok s b \<and> usage_ok bd u"

lemma div_times_le: "0 < f \<Longrightarrow> m div f * f \<le> (m :: int)"
  using minus_mod_eq_div_mult [of m f] pos_mod_sign [of f m] by linarith

lemma allowance_covers:
  assumes "queue_state s b c bd tail u head" "a \<le> allowance s b c bd u"
  shows "a * face_value c \<le> pool_of s b" "a * face_value c \<le> principal_per_cycle bd - cy_paid u"
proof -
  let ?m = "min (pool_of s b) (principal_per_cycle bd - cy_paid u)"
  have f: "0 < face_value c" using assms(1) by (simp add: queue_state_def)
  have "a * face_value c \<le> ?m div face_value c * face_value c"
    using assms(2) f by (simp add: allowance_def)
  also have "\<dots> \<le> ?m" using f by (rule div_times_le)
  finally show "a * face_value c \<le> pool_of s b" "a * face_value c \<le> principal_per_cycle bd - cy_paid u"
    by simp_all
qed

lemma head_request:
  assumes "queue_state s b c bd tail u head" "head \<noteq> 0" "head \<le> tail"
  obtains r where "RedemptionRequest s (b, head) = Some r" "0 < rq_remaining r" "rq_id r = head"
    "rq_remaining r \<le> rq_amount r"
proof -
  have "head \<in> {1..tail}" using assms(2,3) by simp
  then obtain r where "RedemptionRequest s (b, head) = Some r" "rq_id r = head" "0 \<le> rq_remaining r"
    "rq_remaining r \<le> rq_amount r" "rq_remaining r = 0 \<longleftrightarrow> head < head"
    using assms(1) unfolding queue_state_def requests_ok_def by blast
  then show thesis using that [of r] by simp
qed

lemma head_paid_requests_ok:
  assumes "requests_ok s b head tail" "head_paid s s' b c head r amount" "head \<noteq> 0" "head \<le> tail"
    and "rq_id r = head" "rq_remaining r \<le> rq_amount r" "0 < amount" "amount \<le> rq_remaining r"
  shows "requests_ok s' b (if amount < rq_remaining r then head else Suc head) tail"
proof -
  have req: "RedemptionRequest s' = (RedemptionRequest s)((b, head) \<mapsto> r\<lparr>rq_remaining := rq_remaining r - amount\<rparr>)"
    using assms(2) unfolding head_paid_def by blast
  have "\<exists>r'. RedemptionRequest s' (b, i) = Some r' \<and> rq_id r' = i \<and> 0 \<le> rq_remaining r' \<and>
      rq_remaining r' \<le> rq_amount r' \<and>
      (rq_remaining r' = 0 \<longleftrightarrow> i < (if amount < rq_remaining r then head else Suc head))" if i: "i \<in> {1..tail}" for i
  proof (cases "i = head")
    case False
    obtain r' where "RedemptionRequest s (b, i) = Some r'" "rq_id r' = i" "0 \<le> rq_remaining r'"
      "rq_remaining r' \<le> rq_amount r'" "rq_remaining r' = 0 \<longleftrightarrow> i < head"
      using assms(1) i unfolding requests_ok_def by blast
    with False show ?thesis by (intro exI [of _ r']) (auto simp: req less_Suc_eq)
  next
    case True
    then show ?thesis
      using assms(5-8) by (intro exI [of _ "r\<lparr>rq_remaining := rq_remaining r - amount\<rparr>"]) (simp add: req)
  qed
  moreover have "tail \<noteq> 0" "tail < 2 ^ 64" using assms(1,3,4) by (auto simp: requests_ok_def)
  ultimately show ?thesis using assms(3,4) unfolding requests_ok_def by (intro conjI ballI) simp_all
qed

lemma head_paid_state:
  assumes st: "queue_state s b c bd tail u head" and paid: "head_paid s s' b c head r amount"
    and hd: "head \<noteq> 0" "head \<le> tail" "RedemptionRequest s (b, head) = Some r" "rq_id r = head"
      "rq_remaining r \<le> rq_amount r"
    and am: "0 < amount" "amount \<le> rq_remaining r" "amount \<le> allowance s b c bd u"
  shows "queue_state s' b c bd tail (u\<lparr>cy_paid := cy_paid u + amount * face_value c\<rparr>)
     (if amount < rq_remaining r then head else Suc head)"
proof -
  let ?h = "rq_holder r" and ?hd = "if amount < rq_remaining r then head else Suc head"
  have ok: "ledger_ok s" "requests_ok s b head tail" "backed s b head tail" "pool_ok s b" "usage_ok bd u"
    "0 < face_value c" "BondConfig s b = Some c" using st by (simp_all add: queue_state_def)
  have fields: "posted s s' b {?h}" "balance_of s' = (balance_of s)((b, ?h) := balance_of s (b, ?h) - amount)"
    "pool_of s' b = pool_of s b - amount * face_value c" "BondConfig s' = BondConfig s"
    "reserved s' b g = (if g = ?h then reserved s b ?h - amount else reserved s b g)" for g
    using paid by (simp_all add: head_paid_def balance_of_def pool_of_def reserved_def value_of_def)
  note w = waiting_Cons [OF hd(1-3)] head_paid_waiting [OF paid hd(1,2)]
  have "owed (waiting s' b ?hd tail) g = owed (waiting s b head tail) g - (if g = ?h then amount else 0)" for g
    using am(2) by (simp add: w)
  moreover have "reserved s b g = owed (waiting s b head tail) g"
    "owed (waiting s b head tail) g \<le> balance_of s (b, g)" for g
    using ok(3) by (simp_all add: backed_def)
  ultimately have "backed s' b ?hd tail" by (simp add: backed_def fields)
  moreover have "0 < amount * face_value c" using am(1) ok(6) by simp
  moreover note allowance_covers [OF st am(3)]
  moreover have "requests_ok s' b ?hd tail"
    by (rule head_paid_requests_ok [OF ok(2) paid hd(1,2,4,5) am(1,2)])
  moreover have "ledger_ok s'" by (rule posted_ledger_ok [OF ok(1) fields(1)])
  ultimately show ?thesis using ok(4-7) i128_le [of "pool_of s b" "pool_of s' b"]
    by (simp add: queue_state_def fields pool_ok_def usage_ok_def)
qed

text \<open>
  What a run has done: the waiting list is the unpaid one, the payments were taken
  from the pool, from the allowance of the cycle and from the balances of the
  holders, the history is kept, and nothing else of the queue changed.
\<close>

definition paid_out ::
    "issuer \<Rightarrow> issuer \<Rightarrow> nat \<Rightarrow> bond_config \<Rightarrow> (address \<times> int) list \<Rightarrow> bool" where
  "paid_out s s' b c p \<longleftrightarrow>
     (\<forall>h. balance_of s' (b, h) = balance_of s (b, h) - owed p h) \<and>
     (\<forall>k. fst k \<noteq> b \<longrightarrow> HolderBalance s' k = HolderBalance s k) \<and>
     RedemptionPool s' = (if p = [] then RedemptionPool s
       else (RedemptionPool s)(b \<mapsto> pool_of s b - units p * face_value c)) \<and>
     (\<forall>b'. b' \<noteq> b \<longrightarrow> (\<forall>k. RedemptionReserved s' (b', k) = RedemptionReserved s (b', k)) \<and>
        (\<forall>k. RedemptionRequest s' (b', k) = RedemptionRequest s (b', k)) \<and> BondState s' b' = BondState s b') \<and>
     (\<forall>st. BondState s b = Some st \<longrightarrow>
        BondState s' b = Some (st\<lparr>total_subscribed := total_subscribed st - units p\<rparr>)) \<and>
     RedemptionTail s' = RedemptionTail s \<and> RedemptionHead s' = RedemptionHead s \<and>
     RedemptionBudget s' = RedemptionBudget s \<and> RedemptionCycle s' = RedemptionCycle s \<and>
     BondConfig s' = BondConfig s \<and> extends s s'"

lemma paid_out_Nil: "paid_out s s b c []"
  by (simp add: paid_out_def extends_refl)

lemma paid_out_Cons:
  assumes "ledger_ok s" "head_paid s s1 b c head r amount" "paid_out s1 s' b c p"
  shows "paid_out s s' b c ((rq_holder r, amount) # p)"
proof -
  have ext: "extends s s'"
    using assms posted_extends [OF assms(1)] extends_trans unfolding head_paid_def paid_out_def by blast
  have pool: "RedemptionPool s1 = (RedemptionPool s)(b \<mapsto> pool_of s b - amount * face_value c)"
    "pool_of s1 b = pool_of s b - amount * face_value c"
    using assms(2) by (simp_all add: head_paid_def pool_of_def value_of_def)
  show ?thesis
    unfolding paid_out_def
    using assms(2,3) ext
    by (auto simp: paid_out_def head_paid_def balance_of_def pool algebra_simps)
qed

theorem process_loop_refines:
  assumes "queue_state s b c bd tail u head" "process_loop n b c bd tail u head k s = Inr (s', u', head', k')"
  defines "A \<equiv> allowance s b c bd u" and "q \<equiv> waiting s b head tail"
  shows "queue_state s' b c bd tail u' head' \<and> paid_out s s' b c (payments n A q) \<and>
     waiting s' b head' tail = unpaid n A q \<and> k' + length (unpaid n A q) = k + length q \<and>
     u' = u\<lparr>cy_paid := cy_paid u + units (payments n A q) * face_value c\<rparr>"
  using assms(1,2) unfolding A_def q_def
proof (induction n arbitrary: s u head k)
  case 0
  then show ?case by (simp add: paid_out_Nil)
next
  case (Suc n)
  show ?case
  proof (cases "head \<noteq> 0 \<and> head \<le> tail")
    case False
    then have "waiting s b head tail = []" by (auto simp: waiting_def)
    with False Suc.prems show ?thesis by (auto simp: paid_out_Nil)
  next
    case True
    with Suc.prems(1) obtain r where r: "RedemptionRequest s (b, head) = Some r" "0 < rq_remaining r"
      "rq_id r = head" "rq_remaining r \<le> rq_amount r" by (auto elim: head_request)
    note q = waiting_Cons [OF conjunct1 [OF True] conjunct2 [OF True] r(1)]
    have st: "ledger_ok s" "BondConfig s b = Some c" "0 < face_value c" "pool_ok s b" "usage_ok bd u"
      using Suc.prems(1) by (simp_all add: queue_state_def)
    define A where "A = allowance s b c bd u"
    define amount where "amount = min (rq_remaining r) A"
    note step = process_step [OF st(1-3) r(1,2) conjunct1 [OF True] conjunct2 [OF True] st(4,5) Suc.prems(2),
        unfolded Let_def, folded A_def, folded amount_def]
    show ?thesis
    proof (cases "amount \<le> 0")
      case True
      then have "A \<le> 0" using r(2) by (auto simp: amount_def min_def split: if_splits)
      with True step Suc.prems(1) show ?thesis by (simp add: q A_def [symmetric] paid_out_Nil)
    next
      case False
      let ?u = "u\<lparr>cy_paid := cy_paid u + amount * face_value c\<rparr>"
      from False step obtain s1 where paid: "head_paid s s1 b c head r amount"
        and rest: "if amount < rq_remaining r then (s', u', head', k') = (s1, ?u, head, k)
          else process_loop n b c bd tail ?u (Suc head) (Suc k) s1 = Inr (s', u', head', k')" by auto
      have am: "0 < amount" "amount \<le> rq_remaining r" "amount \<le> A" using False by (auto simp: amount_def)
      note st1 = head_paid_state [OF Suc.prems(1) paid conjunct1 [OF True] conjunct2 [OF True] r(1,3,4) am(1,2)]
      note w1 = head_paid_waiting [OF paid conjunct1 [OF True] conjunct2 [OF True]]
      show ?thesis
      proof (cases "amount < rq_remaining r")
        case True
        then have "amount = A" by (simp add: amount_def min_def split: if_splits)
        with True rest st1 w1 am paid_out_Cons [OF st(1) paid paid_out_Nil] show ?thesis
          by (simp add: q A_def)
      next
        case False
        then have full: "amount = rq_remaining r" "rq_remaining r \<le> A" using am by auto
        with rest st1 am A_def have "process_loop n b c bd tail ?u (Suc head) (Suc k) s1 = Inr (s', u', head', k')"
          "queue_state s1 b c bd tail ?u (Suc head)" by auto
        note IH = Suc.IH [OF this(2,1), unfolded allowance_paid [OF paid st(3)] w1(2), folded A_def]
        with full r(2) paid_out_Cons [OF st(1) paid] show ?thesis
          by (auto simp: q A_def [symmetric] algebra_simps)
      qed
    qed
  qed
qed

subsection \<open>The queue of a bond\<close>

definition head_of :: "issuer \<Rightarrow> nat \<Rightarrow> nat" where
  "head_of s b = cursor (RedemptionHead s b)"

definition tail_of :: "issuer \<Rightarrow> nat \<Rightarrow> nat" where
  "tail_of s b = cursor (RedemptionTail s b)"

definition queue_of :: "issuer \<Rightarrow> nat \<Rightarrow> (address \<times> int) list" where
  "queue_of s b = waiting s b (head_of s b) (tail_of s b)"

definition budget_ok :: "issuer \<Rightarrow> nat \<Rightarrow> bool" where
  "budget_ok s b \<longleftrightarrow> 0 < ledgers_per_cycle (budget s b) \<and> 0 \<le> principal_per_cycle (budget s b) \<and>
     (\<forall>u. RedemptionCycle s b = Some u \<longrightarrow> usage_ok (budget s b) u \<and> (tail_of s b = 0 \<longrightarrow> cy_paid u = 0))"

definition queue_ok :: "issuer \<Rightarrow> nat \<Rightarrow> bool" where
  "queue_ok s b \<longleftrightarrow> requests_ok s b (head_of s b) (tail_of s b) \<and> backed s b (head_of s b) (tail_of s b) \<and>
     pool_ok s b \<and> budget_ok s b \<and>
     (tail_of s b \<noteq> 0 \<longrightarrow> (\<exists>st. BondState s b = Some st \<and> status st = Matured))"

lemma cycle_usage:
  assumes "budget_ok s b"
  obtains u where "cycle env s b (budget s b) = Inr u" "usage_ok (budget s b) u"
    "cy_cycle u = ledger_sequence env div ledgers_per_cycle (budget s b)" "tail_of s b = 0 \<longrightarrow> cy_paid u = 0"
  using assms
  by (cases "RedemptionCycle s b") (auto simp: budget_ok_def cycle_def Let_def usage_ok_def)

lemma queue_ok_state:
  assumes "ledger_ok s" "queue_ok s b" "BondConfig s b = Some c" "usage_ok (budget s b) u"
  shows "queue_state s b c (budget s b) (tail_of s b) u (head_of s b)"
proof -
  have "config_ok c"
    using ledger_okD(2) [OF assms(1), of b] assms(3) by (auto simp: bond_ok_def split: option.splits)
  with assms show ?thesis by (simp add: queue_state_def queue_ok_def config_ok_def)
qed

text \<open>
  A processed run: \<open>p\<close> are the payments. The invariant of the bond's queue holds
  again, the waiting list is the unpaid one, and the cycle records what was paid.
\<close>

lemma process_effect:
  assumes ok: "ledger_ok s" "queue_ok s b" and run: "process env s b limit = Inr (s', k)"
  obtains c u p where "BondConfig s b = Some c" "cycle env s b (budget s b) = Inr u"
    "usage_ok (budget s b) u"
    "p = payments (min limit MAX_REDEMPTION_BATCH) (allowance s b c (budget s b) u) (queue_of s b)"
    "queue_of s' b = unpaid (min limit MAX_REDEMPTION_BATCH) (allowance s b c (budget s b) u) (queue_of s b)"
    "k + length (queue_of s' b) = length (queue_of s b)"
    "RedemptionCycle s' = (RedemptionCycle s)(b \<mapsto> u\<lparr>cy_paid := cy_paid u + units p * face_value c\<rparr>)"
    "paid_out s (s'\<lparr>RedemptionHead := RedemptionHead s, RedemptionCycle := RedemptionCycle s\<rparr>) b c p"
    "RedemptionHead s' = (RedemptionHead s)(b \<mapsto> head_of s' b)"
    "ledger_ok s'" "queue_ok s' b"
proof -
  have bud: "budget_ok s b" using ok(2) by (simp add: queue_ok_def)
  from bud obtain u where u: "cycle env s b (budget s b) = Inr u" "usage_ok (budget s b) u"
    "cy_cycle u = ledger_sequence env div ledgers_per_cycle (budget s b)" "tail_of s b = 0 \<longrightarrow> cy_paid u = 0" by (rule cycle_usage [where env = env])
  from run u(1) obtain c s1 u1 hd1 where c: "BondConfig s b = Some c"
    and loop: "process_loop (min limit MAX_REDEMPTION_BATCH) b c (budget s b) (tail_of s b) u (head_of s b) 0 s
      = Inr (s1, u1, hd1, k)"
    and s': "s' = s1\<lparr>RedemptionHead := (RedemptionHead s1)(b \<mapsto> hd1),
            RedemptionCycle := (RedemptionCycle s1)(b \<mapsto> u1)\<rparr>"
    by (auto simp: process_def contract_simps Let_def tail_of_def head_of_def split: prod.splits)
  let ?p = "payments (min limit MAX_REDEMPTION_BATCH) (allowance s b c (budget s b) u) (queue_of s b)"
  from process_loop_refines [OF queue_ok_state [OF ok c u(2)] loop, folded queue_of_def]
  have st: "queue_state s1 b c (budget s b) (tail_of s b) u1 hd1" and po: "paid_out s s1 b c ?p"
    and w: "waiting s1 b hd1 (tail_of s b) =
      unpaid (min limit MAX_REDEMPTION_BATCH) (allowance s b c (budget s b) u) (queue_of s b)"
      "k + length (waiting s1 b hd1 (tail_of s b)) = length (queue_of s b)"
    and u1: "u1 = u\<lparr>cy_paid := cy_paid u + units ?p * face_value c\<rparr>" by auto
  have f: "RedemptionHead s1 = RedemptionHead s" "RedemptionCycle s1 = RedemptionCycle s"
    "RedemptionTail s1 = RedemptionTail s" "RedemptionBudget s1 = RedemptionBudget s"
    using po by (simp_all add: paid_out_def)
  have cur: "head_of s' b = hd1" "tail_of s' b = tail_of s b" "budget s' b = budget s b"
    by (simp_all add: s' f head_of_def tail_of_def cursor_def budget_def)
  have same: "same_positions s1 s'" by (simp add: s' same_positions_def)
  have views: "waiting s' b = waiting s1 b" "requests_ok s' b = requests_ok s1 b" "pool_ok s' b = pool_ok s1 b"
    "backed s' b = backed s1 b" "BondState s' = BondState s1"
    by (simp_all add: s' fun_eq_iff waiting_def requests_ok_def pool_ok_def pool_of_def backed_def reserved_def
        balance_of_def)
  have "tail_of s b = 0 \<Longrightarrow> queue_of s b = []"
    using ok(2) by (simp add: queue_of_def queue_ok_def requests_ok_def waiting_def)
  then have "budget_ok s' b"
    using bud st u(4) by (auto simp: budget_ok_def cur) (auto simp: s' queue_state_def u1)
  moreover have "\<exists>st. BondState s' b = Some st \<and> status st = Matured" if "tail_of s b \<noteq> 0"
    using ok(2) that po by (auto simp: queue_ok_def paid_out_def views)
  ultimately have "queue_ok s' b" using st by (simp add: queue_ok_def cur views queue_state_def)
  moreover have "ledger_ok s'"
    using st by (intro same_positions_ledger_ok [OF same]) (simp add: queue_state_def)
  moreover have "paid_out s (s'\<lparr>RedemptionHead := RedemptionHead s, RedemptionCycle := RedemptionCycle s\<rparr>) b c ?p"
  proof -
    have "s'\<lparr>RedemptionHead := RedemptionHead s, RedemptionCycle := RedemptionCycle s\<rparr> = s1"
      by (simp add: s' f [symmetric])
    then show ?thesis using po by simp
  qed
  moreover have "queue_of s' b = waiting s1 b hd1 (tail_of s b)" by (simp add: queue_of_def cur views)
  ultimately show thesis
    using that [OF c u(1,2) refl] w cur(1) by (simp add: s' f u1)
qed

text \<open>The queue of a bond depends on the entries of that bond only.\<close>

definition same_queue :: "issuer \<Rightarrow> issuer \<Rightarrow> nat \<Rightarrow> bool" where
  "same_queue s s' b \<longleftrightarrow> RedemptionHead s' b = RedemptionHead s b \<and> RedemptionTail s' b = RedemptionTail s b \<and>
     (\<forall>i. RedemptionRequest s' (b, i) = RedemptionRequest s (b, i)) \<and>
     (\<forall>h. RedemptionReserved s' (b, h) = RedemptionReserved s (b, h)) \<and>
     RedemptionPool s' b = RedemptionPool s b \<and> RedemptionBudget s' b = RedemptionBudget s b \<and>
     RedemptionCycle s' b = RedemptionCycle s b"

lemma same_queue_refl: "same_queue s s b"
  by (simp add: same_queue_def)

lemma same_queue_views:
  assumes "same_queue s s' b"
  shows "head_of s' b = head_of s b" "tail_of s' b = tail_of s b" "waiting s' b i j = waiting s b i j"
    "queue_of s' b = queue_of s b" "reserved s' b h = reserved s b h" "pool_of s' b = pool_of s b"
    "budget s' b = budget s b" "requests_ok s' b i j = requests_ok s b i j"
    "budget_ok s' b = budget_ok s b" "pool_ok s' b = pool_ok s b"
  using assms
  by (simp_all add: same_queue_def head_of_def tail_of_def waiting_def queue_of_def reserved_def pool_of_def
      budget_def requests_ok_def budget_ok_def pool_ok_def value_of_def)

lemma queue_ok_cong:
  assumes "same_queue s s' b" "queue_ok s b"
    and "\<And>h. reserved s b h \<le> balance_of s' (b, h)"
    and "tail_of s b \<noteq> 0 \<Longrightarrow> \<exists>st. BondState s' b = Some st \<and> status st = Matured"
  shows "queue_ok s' b"
  using assms(2-4) by (simp add: queue_ok_def backed_def same_queue_views [OF assms(1)])

lemma queue_ok_same:
  assumes "same_queue s s' b" "queue_ok s b" "\<And>h. HolderBalance s' (b, h) = HolderBalance s (b, h)"
    "BondState s' b = BondState s b"
  shows "queue_ok s' b"
  using assms by (intro queue_ok_cong [OF assms(1,2)]) (auto simp: queue_ok_def backed_def balance_of_def value_of_def)

lemma queue_ok_idle: "queue_ok s b \<Longrightarrow> tail_of s b = 0 \<Longrightarrow> reserved s b h = 0 \<and> queue_of s b = []"
  by (auto simp: queue_ok_def requests_ok_def backed_def waiting_def queue_of_def)

lemma process_other:
  assumes "ledger_ok s" "queue_ok s b" "process env s b limit = Inr (s', k)" "b' \<noteq> b"
  shows "same_queue s s' b'" "HolderBalance s' (b', h) = HolderBalance s (b', h)" "BondState s' b' = BondState s b'"
proof -
  from assms(1-3) obtain c u p where
    c: "RedemptionCycle s' = (RedemptionCycle s)(b \<mapsto> u\<lparr>cy_paid := cy_paid u + units p * face_value c\<rparr>)"
    and po: "paid_out s (s'\<lparr>RedemptionHead := RedemptionHead s, RedemptionCycle := RedemptionCycle s\<rparr>) b c p"
    and h: "RedemptionHead s' = (RedemptionHead s)(b \<mapsto> head_of s' b)" by (rule process_effect)
  have "RedemptionHead s' b' = RedemptionHead s b'" by (subst h) (simp add: assms(4))
  then show "same_queue s s' b'" "HolderBalance s' (b', h) = HolderBalance s (b', h)" "BondState s' b' = BondState s b'"
    using po assms(4) by (auto simp: paid_out_def same_queue_def c)
qed

subsection \<open>Requests\<close>

lemma consume_nonce_iff [contract_simps]:
  "consume_nonce s a n = Inr s' \<longleftrightarrow>
     n = unwrap_or (Nonce s a) 0 \<and> Suc n < 2 ^ 64 \<and> s' = s\<lparr>Nonce := (Nonce s)(a \<mapsto> Suc n)\<rparr>"
  by (auto simp: consume_nonce_def Let_def contract_simps)

definition new_request :: "env \<Rightarrow> nat \<Rightarrow> address \<Rightarrow> bytes \<Rightarrow> int \<Rightarrow> redemption_request" where
  "new_request env i h key amount = \<lparr>rq_id = i, rq_holder = h, rq_key = key,
     rq_submitted_ledger = ledger_sequence env, rq_amount = amount, rq_remaining = amount\<rparr>"

lemma enqueue_new:
  assumes "enqueue env s h b amount key nonce = Inr (s', i)" "RedemptionId s (b, h, key) = None"
  shows "i = Suc (tail_of s b)" "i < 2 ^ 64" "0 < amount" "amount \<le> balance_of s (b, h) - reserved s b h"
    "\<exists>st. BondState s b = Some st \<and> status st = Matured"
    "s' = publish (RedemptionQueued b i h amount (ledger_sequence env))
       (s\<lparr>Nonce := (Nonce s)(h \<mapsto> Suc nonce),
          RedemptionRequest := (RedemptionRequest s)((b, i) \<mapsto> new_request env i h key amount),
          RedemptionId := (RedemptionId s)((b, h, key) \<mapsto> (i, amount)),
          RedemptionTail := (RedemptionTail s)(b \<mapsto> i),
          RedemptionHead := (if head_of s b = 0 then (RedemptionHead s)(b \<mapsto> 1) else RedemptionHead s),
          RedemptionReserved := (RedemptionReserved s)((b, h) \<mapsto> reserved s b h + amount),
          RedemptionBudget := (RedemptionBudget s)(b \<mapsto> budget s b)\<rparr>)"
  using assms
  by (auto simp: enqueue_def contract_simps Let_def tail_of_def head_of_def cursor_def new_request_def
      balance_of_def value_of_def budget_def split: if_splits)

lemma waiting_snoc:
  assumes "requests_ok s b head tail" "head' = (if head = 0 then 1 else head)"
    and "\<And>j. j \<le> tail \<Longrightarrow> RedemptionRequest s' (b, j) = RedemptionRequest s (b, j)"
    and "RedemptionRequest s' (b, Suc tail) = Some r"
  shows "waiting s' b head' (Suc tail) = waiting s b head tail @ [(rq_holder r, rq_remaining r)]"
proof -
  have h: "head' \<le> Suc tail" "head = 0 \<Longrightarrow> tail = 0" using assms(1,2) by (auto simp: requests_ok_def)
  have "map f [head'..<Suc (Suc tail)] = map f [head'..<Suc tail] @ [f (Suc tail)]" for f :: "nat \<Rightarrow> address \<times> int"
    using h(1) by simp
  then show ?thesis using h assms(2-4) by (auto simp: waiting_def)
qed

lemma enqueue_queue_ok:
  assumes ok: "queue_ok s b" and run: "enqueue env s h b amount key nonce = Inr (s', i)"
    and fresh: "RedemptionId s (b, h, key) = None"
  shows "queue_of s' b = queue_of s b @ [(h, amount)]" "queue_ok s' b"
proof -
  note e = enqueue_new [OF run fresh]
  have f: "head_of s' b = (if head_of s b = 0 then 1 else head_of s b)" "tail_of s' b = Suc (tail_of s b)"
    "budget s' b = budget s b" "RedemptionCycle s' = RedemptionCycle s" "pool_of s' = pool_of s"
    "reserved s' b g = reserved s b g + (if g = h then amount else 0)" "balance_of s' = balance_of s"
    "BondState s' = BondState s"
    "RedemptionRequest s' = (RedemptionRequest s)((b, Suc (tail_of s b)) \<mapsto> new_request env i h key amount)" for g
    by (simp_all add: e(6) publish_def head_of_def tail_of_def cursor_def budget_def pool_of_def reserved_def
        balance_of_def fun_eq_iff) (simp_all add: e(1) tail_of_def cursor_def)
  have req: "requests_ok s b (head_of s b) (tail_of s b)" and bk: "backed s b (head_of s b) (tail_of s b)"
    using ok by (simp_all add: queue_ok_def)
  show q: "queue_of s' b = queue_of s b @ [(h, amount)]"
    using waiting_snoc [OF req refl, of s' "new_request env i h key amount"]
    by (simp add: queue_of_def f new_request_def)
  have "requests_ok s' b (head_of s' b) (tail_of s' b)"
    unfolding requests_ok_def
  proof (intro conjI ballI)
    fix j assume j: "j \<in> {1..tail_of s' b}"
    show "\<exists>r. RedemptionRequest s' (b, j) = Some r \<and> rq_id r = j \<and> 0 \<le> rq_remaining r \<and>
        rq_remaining r \<le> rq_amount r \<and> (rq_remaining r = 0 \<longleftrightarrow> j < head_of s' b)"
    proof (cases "j = Suc (tail_of s b)")
      case True
      then show ?thesis using req e(1,3) by (auto simp: f new_request_def requests_ok_def)
    next
      case False
      then have "j \<in> {1..tail_of s b}" using j by (simp add: f)
      then obtain r where "RedemptionRequest s (b, j) = Some r" "rq_id r = j" "0 \<le> rq_remaining r"
        "rq_remaining r \<le> rq_amount r" "rq_remaining r = 0 \<longleftrightarrow> j < head_of s b"
        using req unfolding requests_ok_def by blast
      moreover have "head_of s b \<noteq> 0" using \<open>j \<in> {1..tail_of s b}\<close> req by (auto simp: requests_ok_def)
      ultimately show ?thesis using False by (simp add: f)
    qed
  qed (use req e(1,2) in \<open>auto simp: requests_ok_def f\<close>)
  moreover have "backed s' b (head_of s' b) (tail_of s' b)"
    using bk [unfolded backed_def queue_of_def [symmetric]] e(4)
    unfolding backed_def queue_of_def [symmetric] q by (auto simp: f)
  moreover have "budget_ok s' b" using ok by (auto simp: queue_ok_def budget_ok_def f)
  ultimately show "queue_ok s' b" using ok e(5) by (simp add: queue_ok_def pool_ok_def f)
qed

lemma enqueue_other:
  assumes "enqueue env s h b amount key nonce = Inr (s', i)"
  shows "same_positions s s'" "b' \<noteq> b \<Longrightarrow> same_queue s s' b'" "pool_of s' b = pool_of s b"
    "RedemptionCycle s' = RedemptionCycle s" "budget s' b' = budget s b'"
proof -
  show "same_positions s s'" "b' \<noteq> b \<Longrightarrow> same_queue s s' b'" "pool_of s' b = pool_of s b"
    "RedemptionCycle s' = RedemptionCycle s" "budget s' b' = budget s b'"
    by (cases "RedemptionId s (b, h, key)";
        use assms enqueue_new [OF assms] in \<open>auto simp: enqueue_def same_positions_def same_queue_def
          pool_of_def budget_def publish_def split: if_splits\<close>)+
qed

subsection \<open>A run does not fail\<close>

lemma log_lengths: "length (holder_log s k) = holder_count s k" "length (supply_log s b) = supply_count s b"
  "length (log_extend l p v x) = Suc (max 1 (length l))"
  by (auto simp: holder_log_def supply_log_def log_of_def log_extend_def Suc_le_eq)

lemma room_step: "x \<le> Suc y \<Longrightarrow> y + Suc n < m \<Longrightarrow> x + n < (m :: nat)"
  by linarith

lemma posted_room:
  assumes "posted s s' b H" "counters_room s b (Suc n)"
  shows "counters_room s' b n"
proof -
  have old: "version_of s b + Suc n < 2 ^ 64" "max 1 (supply_count s b) + Suc n < 2 ^ 32"
    "max 1 (holder_count s (b, h)) + Suc n < 2 ^ 32" for h
    using assms(2) unfolding counters_room_def by blast+
  have "holder_count s' (b, h) \<le> Suc (max 1 (holder_count s (b, h)))" for h
  proof (cases "h \<in> H")
    case True
    then have "length (holder_log s' (b, h)) = Suc (max 1 (length (holder_log s (b, h))))"
      by (simp only: posted_holder(3) [OF assms(1)] log_lengths(3))
    then show ?thesis by (simp only: log_lengths order_refl)
  qed (simp add: posted_other(2) [OF assms(1)])
  then have "max 1 (holder_count s' (b, h)) \<le> Suc (max 1 (holder_count s (b, h)))" for h
    by (intro max.boundedI) simp_all
  then have "max 1 (holder_count s' (b, h)) + n < 2 ^ 32" for h
    using old(3) by (rule room_step)
  moreover have "supply_count s' b = Suc (max 1 (supply_count s b)) \<or> supply_count s' b = supply_count s b"
    using posted_bond [OF assms(1)] log_lengths(2) [of s' b] log_lengths(2) [of s b] log_lengths(3) by metis
  then have "max 1 (supply_count s' b) \<le> Suc (max 1 (supply_count s b))" by (intro max.boundedI) auto
  then have "max 1 (supply_count s' b) + n < 2 ^ 32"
    using old(2) by (rule room_step)
  moreover have "version_of s' b + n < 2 ^ 64" using old(1) by (simp add: posted_version [OF assms(1)])
  ultimately show ?thesis unfolding counters_room_def by blast
qed

text \<open>
  The widths a run needs: the budget is a 128-bit value, the counters of the bond
  can take the run's payments, and the queue can take one more id.
\<close>

definition run_fits :: "issuer \<Rightarrow> nat \<Rightarrow> redemption_budget \<Rightarrow> nat \<Rightarrow> nat \<Rightarrow> bool" where
  "run_fits s b bd tail n \<longleftrightarrow> i128 (principal_per_cycle bd) \<and> counters_room s b n \<and> Suc tail < 2 ^ 64"

lemma room_one: "x + Suc n < m \<Longrightarrow> x + 1 < (m :: nat)"
  by linarith

lemma counters_room_one: "counters_room s b (Suc n) \<Longrightarrow> counters_room s b 1"
  unfolding counters_room_def using room_one by blast

lemma ledger_ok_i128:
  assumes "ledger_ok s"
  shows "i128 (balance_of s (b, h))"
proof (cases "BondState s b")
  case None
  then have "balance_of s (b, h) = 0"
    using ledger_okD(2) [OF assms, of b] by (simp add: bond_ok_def balance_of_def value_of_def)
  then show ?thesis by (simp add: i128_def i128_min_def i128_max_def)
next
  case (Some st)
  have "balance_of s (b, h) \<le> total_subscribed st"
    using row_sum_ge [OF ledger_okD(3) [OF assms], of b h] ledger_ok_bond(2) [OF assms Some]
      ledger_ok_balance [OF assms] by (simp add: balance_of_def)
  with ledger_ok_bond(1) [OF assms Some] ledger_ok_balance [OF assms, of "(b, h)"] show ?thesis
    by (auto simp: i128_def i128_min_def i128_max_def config_ok_def MAX_SUPPLY_def)
qed

lemma process_loop_succeeds:
  assumes "queue_state s b c bd tail u head" "run_fits s b bd tail n"
    and "\<exists>st. BondState s b = Some st \<and> status st = Matured"
  shows "\<exists>r. process_loop n b c bd tail u head k s = Inr r"
  using assms
proof (induction n arbitrary: s u head k)
  case (Suc n)
  show ?case
  proof (cases "head \<noteq> 0 \<and> head \<le> tail")
    case True
    then have hd: "head \<noteq> 0" "head \<le> tail" by auto
    from head_request [OF Suc.prems(1) hd] obtain r where r: "RedemptionRequest s (b, head) = Some r"
      "0 < rq_remaining r" "rq_id r = head" "rq_remaining r \<le> rq_amount r" .
    have st: "ledger_ok s" "BondConfig s b = Some c" "0 < face_value c" "pool_ok s b" "usage_ok bd u"
      "backed s b head tail"
      using Suc.prems(1) by (simp_all add: queue_state_def)
    have room: "i128 (principal_per_cycle bd)" "counters_room s b (Suc n)" "Suc tail < 2 ^ 64"
      using Suc.prems(2) by (simp_all add: run_fits_def)
    have A: "min (unwrap_or (RedemptionPool s b) 0) (principal_per_cycle bd - cy_paid u) sdiv face_value c =
        allowance s b c bd u"
      using st(3-5) by (simp add: allowance_def pool_ok_def usage_ok_def pool_of_def value_of_def)
    define amount where "amount = min (rq_remaining r) (allowance s b c bd u)"
    have sub: "checked_sub (principal_per_cycle bd) (cy_paid u) = Some (principal_per_cycle bd - cy_paid u)"
      using st(5) room(1) by (simp add: checked_sub_Some_iff usage_ok_def i128_le)
    show ?thesis
    proof (cases "amount \<le> 0")
      case True
      then show ?thesis using hd r(1) sub by (simp add: Let_def A amount_def [symmetric])
    next
      case False
      then have am: "0 < amount" "amount \<le> rq_remaining r" "amount \<le> allowance s b c bd u"
        by (auto simp: amount_def)
      note cover = allowance_covers [OF Suc.prems(1) am(3)]
      have q: "rq_remaining r \<le> owed (waiting s b head tail) (rq_holder r)"
        using waiting_positive [of s b head tail] Suc.prems(1) owed_nonneg [of "waiting s b (Suc head) tail"]
        by (simp add: waiting_Cons [OF hd r(1)] queue_state_def)
      then have bal: "rq_remaining r \<le> reserved s b (rq_holder r)"
        "reserved s b (rq_holder r) \<le> balance_of s (b, rq_holder r)"
        using st(6) by (simp_all add: backed_def)
      have pos: "0 < amount * face_value c" using am(1) st(3) by simp
      obtain b0 where b0: "BondState s b = Some b0" "status b0 = Matured" using Suc.prems(3) by blast
      obtain s1 where s1: "settle_redemption s (rq_holder r) b amount = Inr s1"
        using settle_redemption_succeeds [OF st(1) b0 st(2) am(1), of "rq_holder r"] am bal cover st(4)
          counters_room_one [OF room(2)] by (auto simp: pool_of_def pool_ok_def)
      have fits: "i128 (amount * face_value c)" "i128 (cy_paid u + amount * face_value c)"
        "i128 (rq_remaining r - amount)" "i128 (reserved s b (rq_holder r) - amount)" "Suc head < 2 ^ 64"
        using pos cover am bal st(4,5) room(1,3) hd ledger_ok_i128 [OF st(1), of b "rq_holder r"]
        by (auto simp: pool_ok_def usage_ok_def intro: i128_le)
      have res: "reserved s1 = reserved s"
        using settle_redemption_frame(2) [OF st(1) s1 st(2)] by (simp add: reserved_def fun_eq_iff)
      let ?s = "after_payment b c head r amount s1" and ?u = "u\<lparr>cy_paid := cy_paid u + amount * face_value c\<rparr>"
      have loop: "process_loop (Suc n) b c bd tail u head k s =
          (if rq_remaining r - amount \<noteq> 0 then Inr (?s, ?u, head, k)
           else process_loop n b c bd tail ?u (Suc head) (Suc k) ?s)"
        using hd r(1) False s1 sub fits res
        by (simp add: Let_def A amount_def [symmetric] checked_mul_def checked_add_def checked_sub_def [of "reserved _ _ _"]
            checked_def strict_def checked_add_u64_def after_payment_def)
      note paid = after_payment_head_paid [OF st(1) s1 st(2), of head]
      show ?thesis
      proof (cases "amount < rq_remaining r")
        case True
        then show ?thesis by (simp only: loop) simp
      next
        case False
        then have "queue_state ?s b c bd tail ?u (Suc head)"
          using head_paid_state [OF Suc.prems(1) paid hd r(1,3,4) am] by simp
        moreover have "run_fits ?s b bd tail n"
          using room paid posted_room by (auto simp: run_fits_def head_paid_def)
        moreover have "\<exists>b1. BondState ?s b = Some b1 \<and> status b1 = Matured"
          using paid b0 by (auto simp: head_paid_def)
        ultimately have "\<exists>r. process_loop n b c bd tail ?u (Suc head) (Suc k) ?s = Inr r" by (rule Suc.IH)
        then show ?thesis using False am(2) by (simp only: loop) simp
      qed
    qed
  qed auto
qed simp

lemma process_succeeds:
  assumes ok: "ledger_ok s" "queue_ok s b" and c: "BondConfig s b = Some c"
    and fits: "run_fits s b (budget s b) (tail_of s b) (min limit MAX_REDEMPTION_BATCH)"
  shows "\<exists>s' k. process env s b limit = Inr (s', k)"
proof -
  obtain u where u: "cycle env s b (budget s b) = Inr u" "usage_ok (budget s b) u"
    using ok(2) cycle_usage [where env = env] unfolding queue_ok_def by metis
  note st = queue_ok_state [OF ok c u(2)]
  have "\<exists>r. process_loop (min limit MAX_REDEMPTION_BATCH) b c (budget s b) (tail_of s b) u (head_of s b) 0 s = Inr r"
  proof (cases "tail_of s b = 0")
    case True
    then have "head_of s b = 0" using ok(2) by (simp add: queue_ok_def requests_ok_def)
    then show ?thesis by (cases "min limit MAX_REDEMPTION_BATCH") simp_all
  next
    case False
    then show ?thesis using ok(2) by (intro process_loop_succeeds [OF st fits]) (simp add: queue_ok_def)
  qed
  with c u(1) st show ?thesis
    by (auto simp: process_def queue_state_def Let_def head_of_def tail_of_def)
qed

end
