(* ===== verification/Subscription_Auction.thy ===== *)
theory Subscription_Auction
  imports Issuer_Ledger "HOL-Library.Product_Lexorder" "HOL-Library.Multiset"
begin

text \<open>
  The primary subscription auction (\<open>contracts/bond-issuer/src/subscription_auction.rs\<close>):
  apportionment of a capacity by largest remainders, the canonical order of the
  orders, the allocation to identities and wallets, and the steps of a settlement.

  The settlement token is another contract. Its \<open>transfer\<close> is a parameter: a
  function of the state \<open>'w\<close> of the world outside, the token's address, the two
  parties and the amount, which traps by \<open>None\<close>. What a token promises is the
  locale \<open>token_contract\<close>.
\<close>

subsection \<open>Apportionment\<close>

definition MAX_AUCTION_WALLETS :: nat where
  "MAX_AUCTION_WALLETS = 32"

fun demand_total :: "int list \<Rightarrow> int \<Rightarrow> int bond_result" where
  "demand_total [] total_demand = Inr total_demand"
| "demand_total (request # requests) total_demand =
     (if \<not> (0 \<le> request \<and> request \<le> MAX_SUPPLY) then fail InvalidAuction else
      and_then (ok_or (checked_add total_demand request) Overflow) (demand_total requests))"

fun quotas :: "int list \<Rightarrow> int \<Rightarrow> int \<Rightarrow> int \<Rightarrow> (int list \<times> int list \<times> int) bond_result" where
  "quotas [] capacity total_demand allocated = Inr ([], [], allocated)"
| "quotas (request # requests) capacity total_demand allocated =
     and_then (ok_or (checked_mul request capacity) Overflow) (\<lambda>product.
     let amount = product sdiv total_demand in
     and_then (ok_or (checked_add allocated amount) Overflow) (\<lambda>allocated.
     and_then (quotas requests capacity total_demand allocated) (\<lambda>(allocations, remainders, allocated).
     Inr (amount # allocations, product smod total_demand # remainders, allocated))))"

fun best_from :: "int list \<Rightarrow> nat \<Rightarrow> nat list \<Rightarrow> nat" where
  "best_from remainders best [] = best"
| "best_from remainders best (index # indices) =
     best_from remainders (if remainders ! index > remainders ! best then index else best) indices"

primrec hand_out :: "nat \<Rightarrow> int list \<Rightarrow> int list \<Rightarrow> int list bond_result" where
  "hand_out 0 allocations remainders = Inr allocations"
| "hand_out (Suc n) allocations remainders =
     (let best = best_from remainders 0 [1..<length remainders] in
      if best < length allocations then
        and_then (strict (allocations ! best + 1)) (\<lambda>x.
        hand_out n (allocations[best := x]) (remainders[best := -1]))
      else Inl Trap)"

definition apportion :: "int list \<Rightarrow> int \<Rightarrow> int list bond_result" where
  "apportion requests capacity =
     (if capacity < 0 \<or> length requests > MAX_AUCTION_WALLETS then fail InvalidAuction else
      and_then (demand_total requests 0) (\<lambda>total_demand.
      if total_demand \<le> capacity then Inr requests else
      and_then (quotas requests capacity total_demand 0) (\<lambda>(allocations, remainders, allocated).
      and_then (strict (capacity - allocated)) (\<lambda>left_over.
      hand_out (as_u32 left_over) allocations remainders))))"

subsection \<open>Orders\<close>

definition order_key :: "auction_order \<Rightarrow> bytes \<times> address" where
  "order_key ord = (or_identity ord, or_wallet ord)"

text \<open>The inner loop of the insertion sort: the element at \<open>j\<close> moves left past larger ones.\<close>

primrec sift :: "nat \<Rightarrow> auction_order list \<Rightarrow> auction_order list" where
  "sift 0 orders = orders"
| "sift (Suc j) orders =
     (if order_key (orders ! j) \<le> order_key (orders ! Suc j) then orders
      else sift j (orders[j := orders ! Suc j, Suc j := orders ! j]))"

definition sort_orders :: "auction_order list \<Rightarrow> auction_order list" where
  "sort_orders orders = fold sift [1..<length orders] orders"

fun gather :: "auction_order list \<Rightarrow> bytes list \<Rightarrow> int list \<Rightarrow> (bytes list \<times> int list) bond_result" where
  "gather [] identities demands = Inr (identities, demands)"
| "gather (ord # orders) identities demands =
     (if identities \<noteq> [] \<and> last identities = or_identity ord then
        and_then (ok_or (checked_add (last demands) (or_requested ord)) Overflow) (\<lambda>d.
        gather orders identities (butlast demands @ [d]))
      else gather orders (identities @ [or_identity ord]) (demands @ [or_requested ord]))"

fun set_allocations :: "int \<Rightarrow> (nat \<times> int) list \<Rightarrow> auction_order list \<Rightarrow> auction_order list bond_result" where
  "set_allocations face [] orders = Inr orders"
| "set_allocations face ((index, amount) # rest) orders =
     (let ord = orders ! index in
      and_then (strict (or_requested ord - amount)) (\<lambda>unfilled.
      and_then (ok_or (checked_mul unfilled face) Overflow) (\<lambda>refund.
      set_allocations face rest (orders[index := ord\<lparr>or_allocated := amount, or_refunded := refund\<rparr>]))))"

definition allocate_identity ::
    "int \<Rightarrow> bytes \<Rightarrow> int \<Rightarrow> auction_order list \<Rightarrow> auction_order list bond_result" where
  "allocate_identity face identity capacity orders =
     (let indexes = filter (\<lambda>j. or_identity (orders ! j) = identity) [0..<length orders];
          requests = map (\<lambda>j. or_requested (orders ! j)) indexes in
      and_then (apportion requests capacity) (\<lambda>amounts.
      set_allocations face (zip indexes amounts) orders))"

fun allocate_all :: "int \<Rightarrow> (bytes \<times> int) list \<Rightarrow> auction_order list \<Rightarrow> auction_order list bond_result" where
  "allocate_all face [] orders = Inr orders"
| "allocate_all face ((identity, capacity) # rest) orders =
     and_then (allocate_identity face identity capacity orders) (allocate_all face rest)"

subsection \<open>The state of an auction\<close>

definition configured :: "issuer \<Rightarrow> nat \<Rightarrow> bool" where
  "configured s bond_id \<longleftrightarrow> SubscriptionAuctionRequired s bond_id \<noteq> None"

definition load :: "issuer \<Rightarrow> nat \<Rightarrow> auction_state bond_result" where
  "load s bond_id = ok_or (SubscriptionAuction s bond_id) InvalidAuction"

type_synonym 'w token_move = "'w \<Rightarrow> address \<Rightarrow> address \<Rightarrow> address \<Rightarrow> int \<Rightarrow> 'w option"

text \<open>Crediting the orders of a settlement and paying their refunds.\<close>

fun credit_orders :: "'w token_move \<Rightarrow> env \<Rightarrow> address \<Rightarrow> nat \<Rightarrow> nat \<Rightarrow> auction_order list \<Rightarrow> issuer \<Rightarrow> bond_state \<Rightarrow> 'w
    \<Rightarrow> (issuer \<times> bond_state \<times> 'w) bond_result" where
  "credit_orders transfer env token bond_id version [] s state w = Inr (s, state, w)"
| "credit_orders transfer env token bond_id version (ord # orders) s state w =
     and_then (if or_allocated ord > 0 then
         let previous = unwrap_or (HolderBalance s (bond_id, or_wallet ord)) 0 in
         and_then (ok_or (checked_add previous (or_allocated ord)) Overflow) (\<lambda>balance.
         let s = s\<lparr>HolderBalance := (HolderBalance s)((bond_id, or_wallet ord) \<mapsto> balance)\<rparr> in
         and_then (append_holder_checkpoint s bond_id (or_wallet ord) version previous balance) (\<lambda>s.
         and_then (ok_or (checked_add (total_subscribed state) (or_allocated ord)) Overflow) (\<lambda>t.
         Inr (s, state\<lparr>total_subscribed := t\<rparr>))))
       else Inr (s, state)) (\<lambda>(s, state).
     and_then (if or_refunded ord > 0
         then unwrap (transfer w token (current_contract_address env) (or_wallet ord) (or_refunded ord))
         else Inr w) (\<lambda>w.
     credit_orders transfer env token bond_id version orders s state w))"

subsection \<open>Apportionment by largest remainders\<close>

text \<open>
  The rule of the protocol's documentation: an undersubscribed capacity fills every
  request; otherwise request \<open>i\<close> gets the whole part of its quota, and the units that
  are left go, one each, to the largest remainders, ties to the earlier request.
\<close>

definition quota :: "int list \<Rightarrow> int \<Rightarrow> nat \<Rightarrow> int" where
  "quota rs cap i = rs ! i * cap div sum_list rs"

definition remainder :: "int list \<Rightarrow> int \<Rightarrow> nat \<Rightarrow> int" where
  "remainder rs cap i = rs ! i * cap mod sum_list rs"

definition prefers :: "(nat \<Rightarrow> int) \<Rightarrow> nat \<Rightarrow> nat \<Rightarrow> bool" where
  "prefers f i j \<longleftrightarrow> f j < f i \<or> f j = f i \<and> i < j"

definition hamilton :: "int list \<Rightarrow> int \<Rightarrow> int list \<Rightarrow> bool" where
  "hamilton rs cap out \<longleftrightarrow>
     (if sum_list rs \<le> cap then out = rs
      else \<exists>C \<subseteq> {..<length rs}.
        out = map (\<lambda>i. quota rs cap i + (if i \<in> C then 1 else 0)) [0..<length rs] \<and>
        int (card C) = cap - (\<Sum>i<length rs. quota rs cap i) \<and>
        (\<forall>i\<in>C. 0 < remainder rs cap i) \<and>
        (\<forall>i\<in>C. \<forall>j<length rs. j \<notin> C \<longrightarrow> prefers (remainder rs cap) i j))"

lemma prefers_trans: "prefers f i j \<Longrightarrow> prefers f j k \<Longrightarrow> prefers f i k"
  by (auto simp: prefers_def)

lemma best_from_spec:
  assumes "sorted_wrt (<) (b # is)"
  shows "best_from rs b is \<in> set (b # is) \<and>
      (\<forall>i\<in>set (b # is). i \<noteq> best_from rs b is \<longrightarrow> prefers ((!) rs) (best_from rs b is) i)"
  using assms
proof (induction "is" arbitrary: b)
  case (Cons i "is")
  let ?b = "if rs ! i > rs ! b then i else b"
  have sorted: "sorted_wrt (<) (?b # is)" and lt: "b < i" using Cons.prems by auto
  note IH = Cons.IH [OF sorted]
  have first: "prefers ((!) rs) ?b j" if "j \<in> {b, i}" "j \<noteq> ?b" for j
    using that lt by (auto simp: prefers_def split: if_splits)
  show ?case
  proof (intro conjI ballI impI)
    show "best_from rs b (i # is) \<in> set (b # i # is)" using IH by (auto split: if_splits)
    fix j assume j: "j \<in> set (b # i # is)" "j \<noteq> best_from rs b (i # is)"
    show "prefers ((!) rs) (best_from rs b (i # is)) j"
    proof (cases "j \<in> set (?b # is)")
      case True
      then show ?thesis using IH j(2) by auto
    next
      case False
      then have pj: "prefers ((!) rs) ?b j" using j(1) by (intro first) auto
      show ?thesis
      proof (cases "?b = best_from rs ?b is")
        case True
        then show ?thesis using pj by simp
      next
        case False
        then have "prefers ((!) rs) (best_from rs ?b is) ?b" using IH by simp
        then show ?thesis using pj prefers_trans by simp
      qed
    qed
  qed
qed simp

lemma hand_out_spec:
  assumes "length al = length rm" "n \<le> card {i. i < length rm \<and> 0 < rm ! i}"
    and "\<And>i. i < length rm \<Longrightarrow> 0 < rm ! i \<Longrightarrow> i128 (al ! i + 1)"
  shows "\<exists>C \<subseteq> {i. i < length rm \<and> 0 < rm ! i}. card C = n \<and>
     hand_out n al rm = Inr (map (\<lambda>i. al ! i + (if i \<in> C then 1 else 0)) [0..<length al]) \<and>
     (\<forall>i\<in>C. \<forall>j<length rm. j \<notin> C \<longrightarrow> prefers ((!) rm) i j)"
  using assms
proof (induction n arbitrary: al rm)
  case 0
  have "map ((!) al) [0..<length al] = al" by (rule map_nth)
  then show ?case by (intro exI [of _ "{}"]) simp
next
  case (Suc n)
  define best where "best = best_from rm 0 [1..<length rm]"
  have pos: "{i. i < length rm \<and> 0 < rm ! i} \<noteq> {}" using Suc.prems(2) by force
  then have ne: "length rm > 0" by auto
  then have all: "set (0 # [1..<length rm]) = {..<length rm}" by auto
  have best: "best < length rm" "\<And>i. i < length rm \<Longrightarrow> i \<noteq> best \<Longrightarrow> prefers ((!) rm) best i"
    using best_from_spec [of 0 "[1..<length rm]" rm] unfolding all best_def [symmetric]
    by (auto simp: sorted_wrt_upt)
  have bpos: "0 < rm ! best"
  proof -
    obtain i where "i < length rm" "0 < rm ! i" using pos by auto
    then show ?thesis using best(2) [of i] by (cases "i = best") (auto simp: prefers_def)
  qed
  let ?al = "al[best := al ! best + 1]" and ?rm = "rm[best := -1]"
  have P: "{i. i < length ?rm \<and> 0 < ?rm ! i} = {i. i < length rm \<and> 0 < rm ! i} - {best}"
    using best(1) by (auto simp: nth_list_update split: if_splits)
  have bestP: "best \<in> {i. i < length rm \<and> 0 < rm ! i}" using best(1) bpos by simp
  then have card: "n \<le> card {i. i < length ?rm \<and> 0 < ?rm ! i}" using Suc.prems(2) by (simp only: P) simp
  have "i128 (?al ! i + 1)" if "i < length ?rm" "0 < ?rm ! i" for i
  proof -
    have "i \<in> {i. i < length rm \<and> 0 < rm ! i} - {best}" using that P by blast
    then show ?thesis using Suc.prems(3) by simp
  qed
  then obtain C where C: "C \<subseteq> {i. i < length rm \<and> 0 < rm ! i} - {best}" "card C = n"
    "hand_out n ?al ?rm = Inr (map (\<lambda>i. ?al ! i + (if i \<in> C then 1 else 0)) [0..<length ?al])"
    "\<forall>i\<in>C. \<forall>j<length ?rm. j \<notin> C \<longrightarrow> prefers ((!) ?rm) i j"
    using Suc.IH [of ?al ?rm] card Suc.prems(1) unfolding P by auto
  have len: "best < length al" and step: "i128 (al ! best + 1)"
    using Suc.prems(1,3) best(1) bpos by simp_all
  have fin: "finite C" by (rule finite_subset [OF C(1)]) simp
  show ?case
  proof (intro exI [of _ "insert best C"] conjI ballI allI impI)
    show "insert best C \<subseteq> {i. i < length rm \<and> 0 < rm ! i}" using C(1) bestP by blast
    show "card (insert best C) = Suc n" using C(1,2) fin by (subst card_insert_disjoint) auto
    have "hand_out (Suc n) al rm = hand_out n ?al ?rm"
      using len step unfolding hand_out.simps Let_def best_def [symmetric] by (simp add: strict_def checked_def)
    also have "\<dots> = Inr (map (\<lambda>i. al ! i + (if i \<in> insert best C then 1 else 0)) [0..<length al])"
      unfolding C(3) using C(1) len by (intro arg_cong [of _ _ Inr] map_cong) (auto simp: nth_list_update)
    finally show "hand_out (Suc n) al rm = Inr (map (\<lambda>i. al ! i + (if i \<in> insert best C then 1 else 0)) [0..<length al])" .
  next
    fix i j assume "i \<in> insert best C" "j < length rm" "j \<notin> insert best C"
    then show "prefers ((!) rm) i j"
    proof (cases "i = best")
      case False
      then have "prefers ((!) ?rm) i j" using C(4) \<open>i \<in> insert best C\<close> \<open>j < length rm\<close> \<open>j \<notin> insert best C\<close> by simp
      then show ?thesis using False \<open>j \<notin> insert best C\<close> by (simp add: prefers_def)
    qed (use best(2) in simp)
  qed
qed

lemma demand_total_succeeds:
  "\<lbrakk>list_all (\<lambda>r. 0 \<le> r \<and> r \<le> MAX_SUPPLY) rs; 0 \<le> acc; i128 (acc + sum_list rs)\<rbrakk> \<Longrightarrow>
     demand_total rs acc = Inr (acc + sum_list rs)"
proof (induction rs arbitrary: acc)
  case (Cons r rs)
  then have "0 \<le> sum_list rs" by (auto intro!: sum_list_nonneg simp: list_all_iff)
  then have "i128 (acc + r)" using Cons.prems by (auto intro: i128_le)
  then show ?case using Cons.prems Cons.IH [of "acc + r"] by (simp add: checked_add_def checked_def add.assoc)
qed simp

lemma quotas_succeeds:
  "\<lbrakk>list_all (\<lambda>r. 0 \<le> r \<and> i128 (r * cap)) rs; 0 \<le> cap; 0 < D; 0 \<le> acc;
     i128 (acc + (\<Sum>r\<leftarrow>rs. r * cap div D))\<rbrakk> \<Longrightarrow>
     quotas rs cap D acc =
       Inr (map (\<lambda>r. r * cap div D) rs, map (\<lambda>r. r * cap mod D) rs, acc + (\<Sum>r\<leftarrow>rs. r * cap div D))"
proof (induction rs arbitrary: acc)
  case (Cons r rs)
  let ?q = "\<lambda>r. r * cap div D"
  have q: "0 \<le> ?q r" "0 \<le> (\<Sum>r\<leftarrow>rs. ?q r)"
    using Cons.prems by (auto intro!: sum_list_nonneg simp: list_all_iff pos_imp_zdiv_nonneg_iff)
  then have fits: "i128 (acc + ?q r)" "0 \<le> acc + ?q r" using Cons.prems by (auto intro: i128_le)
  moreover have "i128 (acc + ?q r + (\<Sum>r\<leftarrow>rs. ?q r))" using Cons.prems(5) by (simp add: add.assoc)
  ultimately have "quotas rs cap D (acc + ?q r) =
      Inr (map ?q rs, map (\<lambda>r. r * cap mod D) rs, acc + ?q r + (\<Sum>r\<leftarrow>rs. ?q r))"
    using Cons.prems by (intro Cons.IH) simp_all
  then show ?case using Cons.prems fits
    by (simp add: checked_add_def checked_mul_def checked_def Let_def add.assoc)
qed simp

text \<open>The units left over are no more than the requests with a positive remainder.\<close>

lemma left_over_bounds:
  fixes rs :: "int list"
  defines "D \<equiv> sum_list rs"
  assumes "0 \<le> cap" "cap < D"
  shows "0 \<le> cap - (\<Sum>i<length rs. quota rs cap i)"
    and "cap - (\<Sum>i<length rs. quota rs cap i) \<le> int (card {i. i < length rs \<and> 0 < remainder rs cap i})"
proof -
  let ?q = "\<Sum>i<length rs. quota rs cap i" and ?m = "\<Sum>i<length rs. remainder rs cap i"
  let ?P = "{i. i < length rs \<and> 0 < remainder rs cap i}"
  have D: "0 < D" using assms by simp
  have "D * cap = (\<Sum>i<length rs. rs ! i * cap)"
    by (simp add: D_def sum_list_sum_nth atLeast0LessThan sum_distrib_right)
  also have "\<dots> = (\<Sum>i<length rs. D * quota rs cap i + remainder rs cap i)"
    by (simp add: quota_def remainder_def D_def [symmetric])
  finally have split: "D * (cap - ?q) = ?m" by (simp add: sum.distrib sum_distrib_left algebra_simps)
  have m: "0 \<le> remainder rs cap i" "remainder rs cap i \<le> D" for i
    using D by (simp_all add: remainder_def D_def [symmetric] less_imp_le)
  then have "0 \<le> ?m" by (simp add: sum_nonneg)
  then show "0 \<le> cap - ?q" using D split by (metis zero_le_mult_iff less_le_not_le)
  have "?m = (\<Sum>i\<in>?P. remainder rs cap i)"
    using m(1) by (intro sum.mono_neutral_right) (auto simp: less_le)
  also have "\<dots> \<le> (\<Sum>i\<in>?P. D)" by (intro sum_mono m)
  finally have "D * (cap - ?q) \<le> D * int (card ?P)" using split by (simp add: mult.commute)
  then show "cap - ?q \<le> int (card ?P)" using D by simp
qed

definition requests_fit :: "int list \<Rightarrow> bool" where
  "requests_fit rs \<longleftrightarrow> length rs \<le> MAX_AUCTION_WALLETS \<and> list_all (\<lambda>r. 0 \<le> r \<and> r \<le> MAX_SUPPLY) rs"

lemma sum_list_upper: "list_all (\<lambda>r. r \<le> (M :: int)) rs \<Longrightarrow> sum_list rs \<le> int (length rs) * M"
  by (induction rs) (auto simp: algebra_simps)

lemma requests_fit_sum:
  assumes "requests_fit rs"
  shows "0 \<le> sum_list rs" "sum_list rs \<le> 32 * MAX_SUPPLY" "i128 (sum_list rs)"
proof -
  show "0 \<le> sum_list rs" using assms by (auto simp: requests_fit_def list_all_iff intro!: sum_list_nonneg)
  have "sum_list rs \<le> int (length rs) * MAX_SUPPLY"
    using assms by (intro sum_list_upper) (auto simp: requests_fit_def list_all_iff)
  also have "\<dots> \<le> 32 * MAX_SUPPLY"
    using assms by (intro mult_right_mono) (auto simp: requests_fit_def MAX_AUCTION_WALLETS_def MAX_SUPPLY_def)
  finally show "sum_list rs \<le> 32 * MAX_SUPPLY" .
  then show "i128 (sum_list rs)" using \<open>0 \<le> sum_list rs\<close>
    by (simp add: i128_def i128_min_def i128_max_def MAX_SUPPLY_def)
qed

lemma request_product:
  assumes "0 \<le> r" "r \<le> MAX_SUPPLY" "0 \<le> cap" "cap \<le> MAX_SUPPLY"
  shows "i128 (r * cap)"
proof (rule i128_le)
  show "i128 (MAX_SUPPLY * MAX_SUPPLY)" by (simp add: i128_def i128_min_def i128_max_def MAX_SUPPLY_def)
qed (use assms in \<open>simp_all add: mult_mono\<close>)

lemma apportion_hamilton:
  assumes "requests_fit rs" "0 \<le> cap" "cap \<le> MAX_SUPPLY"
  shows "\<exists>out. apportion rs cap = Inr out \<and> hamilton rs cap out"
proof (cases "sum_list rs \<le> cap")
  case True
  then show ?thesis using assms requests_fit_sum [OF assms(1)]
    by (auto simp: apportion_def hamilton_def requests_fit_def not_less demand_total_succeeds [where acc = 0, simplified])
next
  case False
  let ?D = "sum_list rs"
  let ?al = "map (\<lambda>r. r * cap div ?D) rs" and ?rm = "map (\<lambda>r. r * cap mod ?D) rs"
  let ?n = "cap - (\<Sum>i<length rs. quota rs cap i)"
  note fits = requests_fit_sum [OF assms(1)]
  have D: "0 < ?D" "cap < ?D" using False assms(2) by simp_all
  have rs: "list_all (\<lambda>r. 0 \<le> r \<and> r \<le> MAX_SUPPLY) rs" using assms(1) by (simp add: requests_fit_def)
  have nth: "?al ! i = quota rs cap i" "?rm ! i = remainder rs cap i" if "i < length rs" for i
    using that by (simp_all add: quota_def remainder_def)
  have sum: "sum_list ?al = (\<Sum>i<length rs. quota rs cap i)"
    by (simp add: sum_list_sum_nth atLeast0LessThan quota_def)
  note left = left_over_bounds [OF assms(2) D(2)]
  have nneg: "0 \<le> quota rs cap i" if "i < length rs" for i
    using that rs assms(2) D(1) by (simp add: quota_def list_all_length pos_imp_zdiv_nonneg_iff)
  then have nonneg: "0 \<le> sum_list ?al" unfolding sum by (intro sum_nonneg) simp
  have P: "{i. i < length ?rm \<and> 0 < ?rm ! i} = {i. i < length rs \<and> 0 < remainder rs cap i}" using nth by auto
  have "card {i. i < length rs \<and> 0 < remainder rs cap i} \<le> length rs"
    using card_mono [of "{..<length rs}" "{i. i < length rs \<and> 0 < remainder rs cap i}"] by auto
  then have few: "?n \<le> 32" using left(2) assms(1) by (simp add: requests_fit_def MAX_AUCTION_WALLETS_def)
  have maxfit: "i128 (MAX_SUPPLY + 1)" by (simp add: i128_def i128_min_def i128_max_def MAX_SUPPLY_def)
  have capfit: "i128 (sum_list ?al)" "i128 ?n"
    using left(1) nonneg assms(2,3) sum by (auto intro!: i128_le [OF maxfit])
  have "i128 (?al ! i + 1)" if "i < length ?rm" for i
  proof (rule i128_le [OF maxfit])
    have "quota rs cap i \<le> sum_list ?al"
      unfolding sum using that nneg by (intro member_le_sum) simp_all
    then show "?al ! i + 1 \<le> MAX_SUPPLY + 1" using that nth(1) sum left(1) assms(3) by simp
    show "0 \<le> ?al ! i + 1" using that nth(1) nneg by simp
  qed
  moreover have "nat ?n \<le> card {i. i < length ?rm \<and> 0 < ?rm ! i}" using left(2) unfolding P by simp
  ultimately obtain C where C: "C \<subseteq> {i. i < length rs \<and> 0 < remainder rs cap i}" "card C = nat ?n"
     "hand_out (nat ?n) ?al ?rm = Inr (map (\<lambda>i. ?al ! i + (if i \<in> C then 1 else 0)) [0..<length rs])"
     "\<forall>i\<in>C. \<forall>j<length rs. j \<notin> C \<longrightarrow> prefers ((!) ?rm) i j"
    using hand_out_spec [of ?al ?rm "nat ?n"] unfolding P by auto
  have "quotas rs cap ?D 0 = Inr (?al, ?rm, sum_list ?al)"
    using quotas_succeeds [of cap rs ?D 0] rs assms(2,3) D(1) capfit(1)
    by (auto simp: list_all_iff request_product)
  moreover have "demand_total rs 0 = Inr ?D" using demand_total_succeeds [of rs 0] rs fits(3) by simp
  moreover have "as_u32 ?n = nat ?n" using left(1) few by (intro as_u32_id) simp_all
  ultimately have "apportion rs cap = hand_out (nat ?n) ?al ?rm"
    using assms(1,2) False capfit(2) unfolding sum
    by (simp add: apportion_def requests_fit_def not_less strict_def checked_def)
  moreover have "hamilton rs cap (map (\<lambda>i. ?al ! i + (if i \<in> C then 1 else 0)) [0..<length rs])"
    using False
  proof (simp only: hamilton_def if_False, intro exI [of _ C] conjI)
    show "C \<subseteq> {..<length rs}" "\<forall>i\<in>C. 0 < remainder rs cap i" using C(1) by auto
    show "int (card C) = ?n" using C(2) left(1) by simp
    show "\<forall>i\<in>C. \<forall>j<length rs. j \<notin> C \<longrightarrow> prefers (remainder rs cap) i j"
    proof (intro ballI allI impI)
      fix i j assume ij: "i \<in> C" "j < length rs" "j \<notin> C"
      then have "prefers ((!) ?rm) i j" "i < length rs" using C(1,4) by auto
      then show "prefers (remainder rs cap) i j" using ij(2) by (simp add: prefers_def remainder_def)
    qed
  qed (simp_all add: quota_def)
  ultimately show ?thesis using C(3) by simp
qed

text \<open>What the rule gives: the whole capacity or the whole demand, and no request more than it asks.\<close>

lemma hamilton_sum:
  assumes "hamilton rs cap out" "0 \<le> cap"
  shows "length out = length rs" "sum_list out = min cap (sum_list rs)"
proof -
  show len: "length out = length rs" using assms(1) by (auto simp: hamilton_def split: if_splits)
  show "sum_list out = min cap (sum_list rs)"
  proof (cases "sum_list rs \<le> cap")
    case True
    then show ?thesis using assms(1) by (simp add: hamilton_def)
  next
    case False
    then obtain C where C: "C \<subseteq> {..<length rs}" "int (card C) = cap - (\<Sum>i<length rs. quota rs cap i)"
      "out = map (\<lambda>i. quota rs cap i + (if i \<in> C then 1 else 0)) [0..<length rs]"
      using assms(1) by (auto simp: hamilton_def)
    have "sum_list out = (\<Sum>i<length rs. quota rs cap i + (if i \<in> C then 1 else 0))"
      by (simp add: C(3) sum_list_sum_nth atLeast0LessThan)
    also have "\<dots> = (\<Sum>i<length rs. quota rs cap i) + (\<Sum>i<length rs. if i \<in> C then 1 else 0)"
      by (rule sum.distrib)
    also have "(\<Sum>i<length rs. if i \<in> C then 1 else 0) = int (card C)"
      using C(1) by (simp add: sum.If_cases Int_absorb1)
    finally show ?thesis using C(2) False by simp
  qed
qed

lemma quota_bounds:
  assumes "i < length rs" "list_all (\<lambda>r. 0 \<le> r) rs" "0 \<le> cap" "cap < sum_list rs"
  shows "0 \<le> quota rs cap i" "quota rs cap i + (if 0 < remainder rs cap i then 1 else 0) \<le> rs ! i"
proof -
  let ?D = "sum_list rs"
  have r: "0 \<le> rs ! i" using assms(1,2) by (simp add: list_all_length)
  show "0 \<le> quota rs cap i" using r assms(3,4) by (simp add: quota_def pos_imp_zdiv_nonneg_iff)
  have "rs ! i * cap \<le> rs ! i * ?D" using r assms(4) by (intro mult_left_mono) simp_all
  moreover have "rs ! i * cap = quota rs cap i * ?D + remainder rs cap i"
    by (simp add: quota_def remainder_def)
  ultimately have le: "quota rs cap i * ?D + remainder rs cap i \<le> rs ! i * ?D" by simp
  have D: "0 < ?D" using assms(3,4) by simp
  show "quota rs cap i + (if 0 < remainder rs cap i then 1 else 0) \<le> rs ! i"
  proof (cases "0 < remainder rs cap i")
    case True
    then have "quota rs cap i * ?D < rs ! i * ?D" using le by linarith
    then show ?thesis using True D by simp
  next
    case False
    have "0 \<le> remainder rs cap i" using D by (simp add: remainder_def)
    then have "quota rs cap i * ?D \<le> rs ! i * ?D" using le by linarith
    then show ?thesis using False D by simp
  qed
qed

lemma hamilton_bounds:
  assumes "hamilton rs cap out" "list_all (\<lambda>r. 0 \<le> r) rs" "0 \<le> cap" "i < length rs"
  shows "0 \<le> out ! i \<and> out ! i \<le> rs ! i"
proof (cases "sum_list rs \<le> cap")
  case True
  then show ?thesis using assms by (simp add: hamilton_def list_all_length)
next
  case False
  then obtain C where C: "\<forall>i\<in>C. 0 < remainder rs cap i"
    "out = map (\<lambda>i. quota rs cap i + (if i \<in> C then 1 else 0)) [0..<length rs]"
    using assms(1) by (auto simp: hamilton_def)
  then show ?thesis using quota_bounds [OF assms(4,2,3)] False assms(4) by (auto split: if_splits)
qed

subsection \<open>The canonical order\<close>

text \<open>The insertion sort is the library's stable sort.\<close>

definition same_runs :: "auction_order list \<Rightarrow> auction_order list \<Rightarrow> bool" where
  "same_runs xs ys \<longleftrightarrow> (\<forall>a. filter (\<lambda>y. order_key a = order_key y) xs = filter (\<lambda>y. order_key a = order_key y) ys)"

lemma same_runs_refl [simp]: "same_runs xs xs"
  by (simp add: same_runs_def)

lemma same_runs_trans: "same_runs xs ys \<Longrightarrow> same_runs ys zs \<Longrightarrow> same_runs xs zs"
  by (simp add: same_runs_def)

lemma same_runs_append: "same_runs xs ys \<Longrightarrow> same_runs us vs \<Longrightarrow> same_runs (xs @ us) (ys @ vs)"
  by (simp add: same_runs_def)

lemma same_runs_past:
  assumes "\<forall>v\<in>set vs. order_key x < order_key v"
  shows "same_runs (x # vs) (vs @ [x])"
  unfolding same_runs_def
proof (rule allI)
  fix a
  show "filter (\<lambda>y. order_key a = order_key y) (x # vs) = filter (\<lambda>y. order_key a = order_key y) (vs @ [x])"
  proof (cases "order_key a = order_key x")
    case True
    have "filter (\<lambda>y. order_key x = order_key y) vs = []" using assms by (auto simp: filter_empty_conv)
    then show ?thesis by (simp add: True)
  qed simp
qed

lemma same_runs_mset:
  assumes "same_runs xs ys"
  shows "mset xs = mset ys"
proof (rule multiset_eqI)
  fix a
  have same: "count (mset zs) a = count (mset (filter (\<lambda>y. order_key a = order_key y) zs)) a" for zs
    by (induction zs) simp_all
  show "count (mset xs) a = count (mset ys) a"
    using assms unfolding same_runs_def same [of xs] same [of ys] by simp
qed

lemma sift_spec:
  assumes "sorted (map order_key (us @ vs))" "\<forall>v\<in>set vs. order_key x < order_key v"
  shows "\<exists>zs. sift (length us) (us @ x # vs @ ws) = zs @ ws \<and> sorted (map order_key zs) \<and>
     length zs = Suc (length us + length vs) \<and> same_runs zs (us @ vs @ [x])"
  using assms
proof (induction us arbitrary: vs rule: rev_induct)
  case Nil
  then show ?case using same_runs_past [of vs x] by (intro exI [of _ "x # vs"]) (auto simp: less_imp_le)
next
  case (snoc u us)
  let ?at = "(us @ [u]) @ x # vs @ ws"
  have nth: "?at ! length us = u" "?at ! Suc (length us) = x" by (simp_all add: nth_append)
  show ?case
  proof (cases "order_key u \<le> order_key x")
    case True
    have "same_runs (us @ u # x # vs) ((us @ [u]) @ vs @ [x])"
      using same_runs_append [OF same_runs_refl same_runs_past [OF snoc.prems(2)], of "us @ [u]"] by simp
    moreover have "sift (length (us @ [u])) ?at = ?at" using nth True by simp
    moreover have "sorted (map order_key (us @ u # x # vs))"
    proof -
      have "\<forall>y\<in>set us. order_key y \<le> order_key x" using snoc.prems(1) True by (auto simp: sorted_append)
      then show ?thesis using snoc.prems True by (simp add: sorted_append less_imp_le ball_Un)
    qed
    ultimately show ?thesis by (intro exI [of _ "us @ u # x # vs"]) simp
  next
    case False
    have "sift (length (us @ [u])) ?at = sift (length us) (us @ x # (u # vs) @ ws)"
      using nth False by (simp add: list_update_append)
    moreover have "\<forall>v\<in>set (u # vs). order_key x < order_key v" using False snoc.prems(2) by simp
    ultimately show ?thesis using snoc.IH [of "u # vs"] snoc.prems(1) by simp
  qed
qed

lemma sort_orders_prefix:
  "i \<le> length orders \<Longrightarrow> \<exists>zs. fold sift [1..<i] orders = zs @ drop i orders \<and> length zs = i \<and>
     sorted (map order_key zs) \<and> same_runs zs (take i orders)"
proof (induction i)
  case (Suc i)
  then obtain zs where zs: "fold sift [1..<i] orders = zs @ drop i orders" "length zs = i"
      "sorted (map order_key zs)" "same_runs zs (take i orders)"
    by auto
  have "drop i orders = orders ! i # drop (Suc i) orders" using Suc.prems by (simp add: Cons_nth_drop_Suc)
  then obtain ys where ys: "sift i (zs @ drop i orders) = ys @ drop (Suc i) orders" "sorted (map order_key ys)"
      "length ys = Suc i" "same_runs ys (zs @ [orders ! i])"
    using sift_spec [of zs "[]" "orders ! i" "drop (Suc i) orders"] zs(2,3) by auto
  have "same_runs ys (take i orders @ [orders ! i])"
    by (rule same_runs_trans [OF ys(4) same_runs_append [OF zs(4) same_runs_refl]])
  moreover have "fold sift [1..<Suc i] orders = sift i (zs @ drop i orders)"
    using zs(1) by (cases "i = 0") simp_all
  ultimately show ?case using ys Suc.prems by (intro exI [of _ ys]) (simp add: take_Suc_conv_app_nth)
qed simp

lemma sort_orders_sorts: "sort_orders orders = sort_key order_key orders"
proof -
  obtain zs where zs: "sort_orders orders = zs" "sorted (map order_key zs)" "same_runs zs orders"
    using sort_orders_prefix [of "length orders" orders] by (auto simp: sort_orders_def)
  show ?thesis unfolding zs(1)
    using zs(3) by (intro properties_for_sort_key [symmetric] same_runs_mset zs(2)) (simp_all add: same_runs_def)
qed

subsection \<open>Demand by identity\<close>

text \<open>The identities of a book in canonical order, each once, and what the wallets of one ask for.\<close>

definition identities_of :: "auction_order list \<Rightarrow> bytes list" where
  "identities_of orders = remdups_adj (map or_identity orders)"

definition demand_of :: "auction_order list \<Rightarrow> bytes \<Rightarrow> int" where
  "demand_of orders identity = (\<Sum>ord\<leftarrow>filter (\<lambda>ord. or_identity ord = identity) orders. or_requested ord)"

lemma demand_of_append [simp]: "demand_of (xs @ ys) k = demand_of xs k + demand_of ys k"
  by (simp add: demand_of_def)

lemma demand_of_single [simp]: "demand_of [ord] k = (if or_identity ord = k then or_requested ord else 0)"
  by (simp add: demand_of_def)

lemma demand_of_absent: "k \<notin> or_identity ` set orders \<Longrightarrow> demand_of orders k = 0"
  unfolding demand_of_def by (subst filter_False) auto

lemma distinct_remdups_adj_sorted: "sorted xs \<Longrightarrow> distinct (remdups_adj xs)"
  by (induction xs rule: remdups_adj.induct) auto

lemma identities_sorted:
  assumes "sorted (map or_identity orders)"
  shows "sorted (identities_of orders)" "distinct (identities_of orders)"
    "set (identities_of orders) = or_identity ` set orders"
  using assms by (simp_all add: identities_of_def sorted_remdups_adj distinct_remdups_adj_sorted)

lemma identities_snoc:
  "identities_of (orders @ [ord]) =
     (if orders \<noteq> [] \<and> last (identities_of orders) = or_identity ord then identities_of orders
      else identities_of orders @ [or_identity ord])"
  by (cases orders rule: rev_cases) (auto simp: identities_of_def remdups_adj_append_two)

lemma identities_of_Nil_iff [simp]: "identities_of orders = [] \<longleftrightarrow> orders = []"
  by (simp add: identities_of_def)

lemma demand_of_le:
  assumes "\<forall>ord\<in>set orders. 0 \<le> or_requested ord"
  shows "0 \<le> demand_of orders k" "demand_of orders k \<le> (\<Sum>ord\<leftarrow>orders. or_requested ord)"
  using assms by (induction orders) (auto simp: demand_of_def)

lemma last_greatest: "sorted xs \<Longrightarrow> x \<in> set xs \<Longrightarrow> x \<le> last (xs :: 'a :: linorder list)"
  by (induction xs) auto

lemma gather_step:
  assumes "sorted (map or_identity (os @ [ord]))" "i128 (demand_of (os @ [ord]) (or_identity ord))"
  shows "gather (ord # orders) (identities_of os) (map (demand_of os) (identities_of os)) =
     gather orders (identities_of (os @ [ord])) (map (demand_of (os @ [ord])) (identities_of (os @ [ord])))"
proof -
  let ?ids = "identities_of os"
  have sorted: "sorted (map or_identity os)" using assms(1) by (simp add: sorted_append)
  note ids = identities_sorted [OF sorted]
  show ?thesis
  proof (cases "os \<noteq> [] \<and> last ?ids = or_identity ord")
    case True
    define front where "front = butlast ?ids"
    have split: "?ids = front @ [or_identity ord]" using True unfolding front_def
      by (metis append_butlast_last_id identities_of_Nil_iff)
    then have "or_identity ord \<notin> set front" using ids(2) by simp
    then have front: "map (demand_of (os @ [ord])) front = map (demand_of os) front" by auto
    have "identities_of (os @ [ord]) = front @ [or_identity ord]"
      using True split by (simp add: identities_snoc)
    then show ?thesis using assms(2) by (simp add: split front checked_add_def checked_def del: map_eq_conv)
  next
    case False
    have "or_identity ord \<notin> set ?ids"
    proof
      assume mem: "or_identity ord \<in> set ?ids"
      then have ne: "?ids \<noteq> []" by (metis empty_iff empty_set)
      then have "last ?ids \<in> or_identity ` set os" using ids(3) last_in_set by blast
      then have "last ?ids \<le> or_identity ord" using assms(1) by (auto simp: sorted_append)
      moreover have "or_identity ord \<le> last ?ids"
        using ids(1) mem by (rule last_greatest)
      ultimately show False using False ne by auto
    qed
    then have same: "map (demand_of (os @ [ord])) ?ids = map (demand_of os) ?ids"
      and "demand_of os (or_identity ord) = 0" using ids(3) by (auto intro: demand_of_absent)
    then have "map (demand_of (os @ [ord])) (?ids @ [or_identity ord]) = map (demand_of os) ?ids @ [or_requested ord]"
      by simp
    moreover have "identities_of (os @ [ord]) = ?ids @ [or_identity ord]" using False by (simp add: identities_snoc)
    moreover have "\<not> (?ids \<noteq> [] \<and> last ?ids = or_identity ord)" using False by simp
    ultimately show ?thesis by (simp only: gather.simps if_False)
  qed
qed

lemma gather_succeeds:
  assumes "sorted (map or_identity (os @ orders))" "\<forall>ord\<in>set (os @ orders). 0 \<le> or_requested ord"
    and "i128 (\<Sum>ord\<leftarrow>os @ orders. or_requested ord)"
  shows "gather orders (identities_of os) (map (demand_of os) (identities_of os)) =
     Inr (identities_of (os @ orders), map (demand_of (os @ orders)) (identities_of (os @ orders)))"
  using assms
proof (induction orders arbitrary: os)
  case (Cons ord orders)
  have "i128 (demand_of (os @ [ord]) (or_identity ord))"
  proof (rule i128_le [OF Cons.prems(3)])
    have r: "\<forall>ord\<in>set (os @ [ord]). 0 \<le> or_requested ord" using Cons.prems(2) by simp
    show "0 \<le> demand_of (os @ [ord]) (or_identity ord)" by (rule demand_of_le(1) [OF r])
    have "0 \<le> (\<Sum>ord\<leftarrow>orders. or_requested ord)" using Cons.prems(2) by (auto intro!: sum_list_nonneg)
    then show "demand_of (os @ [ord]) (or_identity ord) \<le> (\<Sum>ord\<leftarrow>os @ ord # orders. or_requested ord)"
      using demand_of_le(2) [OF r, of "or_identity ord"] by simp
  qed
  moreover have "sorted (map or_identity (os @ [ord]))" using Cons.prems(1) by (auto simp: sorted_append)
  ultimately show ?case using gather_step [of os ord orders] Cons.IH [of "os @ [ord]"] Cons.prems
    by (simp del: gather.simps demand_of_append)
qed simp

subsection \<open>Allocation to wallets\<close>

definition allot :: "int \<Rightarrow> auction_order \<Rightarrow> int \<Rightarrow> auction_order" where
  "allot face ord a = ord\<lparr>or_allocated := a, or_refunded := (or_requested ord - a) * face\<rparr>"

lemma allot_simps [simp]:
  "or_wallet (allot face ord a) = or_wallet ord" "or_identity (allot face ord a) = or_identity ord"
  "or_requested (allot face ord a) = or_requested ord" "or_allocated (allot face ord a) = a"
  "or_refunded (allot face ord a) = (or_requested ord - a) * face"
  by (simp_all add: allot_def)

definition request_of :: "auction_order \<Rightarrow> address \<times> bytes \<times> int" where
  "request_of ord = (or_wallet ord, or_identity ord, or_requested ord)"

lemma request_of_allot [simp]: "request_of (allot face ord a) = request_of ord"
  by (simp add: request_of_def)

lemma request_of_eq:
  "request_of x = request_of y \<longleftrightarrow>
     or_wallet x = or_wallet y \<and> or_identity x = or_identity y \<and> or_requested x = or_requested y"
  by (simp add: request_of_def)

definition of_identity :: "bytes \<Rightarrow> auction_order list \<Rightarrow> auction_order list" where
  "of_identity k orders = filter (\<lambda>ord. or_identity ord = k) orders"

lemma set_allocations_succeeds:
  assumes "distinct (map fst ps)" "\<forall>(j, a)\<in>set ps. j < length orders \<and>
      i128 (or_requested (orders ! j) - a) \<and> i128 ((or_requested (orders ! j) - a) * face)"
  shows "set_allocations face ps orders = Inr (map (\<lambda>j. case map_of ps j of None \<Rightarrow> orders ! j
      | Some a \<Rightarrow> allot face (orders ! j) a) [0..<length orders])"
  using assms
proof (induction ps arbitrary: orders)
  case Nil
  show ?case by (simp add: map_nth)
next
  case (Cons p ps)
  obtain i a where p: "p = (i, a)" by fastforce
  let ?os = "orders[i := allot face (orders ! i) a]"
  have i: "i < length orders" "i \<notin> fst ` set ps" using Cons.prems by (auto simp: p)
  have "set_allocations face (p # ps) orders = set_allocations face ps ?os"
    using Cons.prems by (simp add: p Let_def strict_def checked_mul_def checked_def allot_def)
  also have "\<dots> = Inr (map (\<lambda>j. case map_of ps j of None \<Rightarrow> ?os ! j
      | Some a \<Rightarrow> allot face (?os ! j) a) [0..<length ?os])"
    using Cons.prems i by (intro Cons.IH) (auto simp: p nth_list_update split: if_splits)
  also have "\<dots> = Inr (map (\<lambda>j. case map_of (p # ps) j of None \<Rightarrow> orders ! j
      | Some a \<Rightarrow> allot face (orders ! j) a) [0..<length orders])"
    using i by (auto simp: p map_of_eq_None_iff [THEN iffD2] nth_list_update split: option.splits)
  finally show ?case .
qed

lemma filter_by_index: "filter P xs = map ((!) xs) (filter (\<lambda>j. P (xs ! j)) [0..<length xs])"
  using filter_map [of P "(!) xs" "[0..<length xs]"] by (simp add: map_nth comp_def)

lemma unfilled_fits:
  assumes "0 \<le> a" "a \<le> r" "r \<le> MAX_SUPPLY" "0 \<le> face" "i128 (r * face)"
  shows "i128 (r - a) \<and> i128 ((r - a) * face)"
proof
  show "i128 ((r - a) * face)" using assms by (intro i128_le [OF assms(5)] mult_right_mono) simp_all
  have "i128 MAX_SUPPLY" by (simp add: i128_def i128_min_def i128_max_def MAX_SUPPLY_def)
  then show "i128 (r - a)" using assms by (auto intro: i128_le)
qed

text \<open>One identity's wallets: the orders of the identity are allotted, the others are untouched.\<close>

lemma allocate_identity_effect:
  assumes "requests_fit (map or_requested (of_identity k orders))" "0 \<le> cap" "cap \<le> MAX_SUPPLY" "0 \<le> face"
    and "\<forall>ord\<in>set orders. i128 (or_requested ord * face)"
  shows "\<exists>amounts orders'. allocate_identity face k cap orders = Inr orders' \<and>
     hamilton (map or_requested (of_identity k orders)) cap amounts \<and>
     of_identity k orders' = map2 (allot face) (of_identity k orders) amounts \<and>
     (\<forall>k'. k' \<noteq> k \<longrightarrow> of_identity k' orders' = of_identity k' orders) \<and>
     map request_of orders' = map request_of orders"
proof -
  define idx where "idx = filter (\<lambda>j. or_identity (orders ! j) = k) [0..<length orders]"
  have mine: "of_identity k orders = map ((!) orders) idx"
    unfolding of_identity_def idx_def by (rule filter_by_index)
  let ?rs = "map or_requested (of_identity k orders)"
  obtain amounts where am: "apportion ?rs cap = Inr amounts" "hamilton ?rs cap amounts"
    using apportion_hamilton [OF assms(1-3)] by blast
  have len: "length amounts = length idx" using hamilton_sum(1) [OF am(2) assms(2)] mine by simp
  let ?ps = "zip idx amounts"
  let ?o = "\<lambda>j. case map_of ?ps j of None \<Rightarrow> orders ! j | Some a \<Rightarrow> allot face (orders ! j) a"
  let ?os = "map ?o [0..<length orders]"
  have at: "\<exists>m < length idx. j = idx ! m \<and> a = amounts ! m" if "(j, a) \<in> set ?ps" for j a
    using that len by (auto simp: set_zip)
  have idx: "distinct idx" "\<And>m. m < length idx \<Longrightarrow> idx ! m < length orders"
  proof -
    show "distinct idx" by (simp add: idx_def)
    show "idx ! m < length orders" if "m < length idx" for m
      using nth_mem [OF that] by (auto simp: idx_def)
  qed
  have ok: "j < length orders \<and> i128 (or_requested (orders ! j) - a) \<and> i128 ((or_requested (orders ! j) - a) * face)"
    if mem: "(j, a) \<in> set ?ps" for j a
  proof -
    obtain m where m: "m < length idx" "j = idx ! m" "a = amounts ! m" using at [OF mem] by blast
    let ?r = "or_requested (orders ! j)"
    have r: "?rs ! m = ?r" "m < length ?rs" using m by (simp_all add: mine)
    then have "0 \<le> ?r" "?r \<le> MAX_SUPPLY"
      using assms(1) nth_mem [OF r(2)] by (auto simp: requests_fit_def list_all_iff)
    moreover have "0 \<le> a \<and> a \<le> ?r"
      using hamilton_bounds [OF am(2) _ assms(2) r(2)] assms(1) r(1) m(3)
      by (auto simp: requests_fit_def list_all_iff)
    moreover have "i128 (?r * face)" using assms(5) idx(2) m by simp
    ultimately show ?thesis using unfilled_fits [of a ?r face] assms(4) idx(2) m by simp
  qed
  have "set_allocations face ?ps orders = Inr ?os"
    using idx(1) ok len by (intro set_allocations_succeeds) auto
  then have "allocate_identity face k cap orders = Inr ?os"
    using am(1) by (simp add: allocate_identity_def Let_def mine comp_def flip: idx_def)
  moreover have same: "request_of (?o j) = request_of (orders ! j)" for j by (simp split: option.split)
  have index: "of_identity k' ?os = map ?o (filter (\<lambda>j. or_identity (orders ! j) = k') [0..<length orders])" for k'
  proof -
    have "or_identity (?o j) = or_identity (orders ! j)" for j using same [of j] by (simp add: request_of_eq)
    then show ?thesis by (simp only: of_identity_def filter_map comp_def)
  qed
  have "of_identity k ?os = map2 (allot face) (of_identity k orders) amounts"
    unfolding index idx_def [symmetric] mine
    by (rule nth_equalityI) (simp_all add: len idx(1) map_of_zip_nth)
  moreover have "of_identity k' ?os = of_identity k' orders" if "k' \<noteq> k" for k'
  proof -
    have "map_of ?ps j = None" if "or_identity (orders ! j) = k'" for j
      using \<open>k' \<noteq> k\<close> that unfolding map_of_zip_is_None [OF len [symmetric]] by (simp add: idx_def)
    moreover have "of_identity k' orders = map ((!) orders) (filter (\<lambda>j. or_identity (orders ! j) = k') [0..<length orders])"
      unfolding of_identity_def by (rule filter_by_index)
    ultimately show ?thesis unfolding index by (auto intro!: map_cong)
  qed
  moreover have "map request_of ?os = map request_of orders"
    by (rule nth_equalityI) (simp_all add: same)
  ultimately show ?thesis using am(2) by (intro exI [of _ amounts] exI [of _ ?os]) simp
qed

lemma requests_same:
  assumes "map request_of orders' = map request_of orders"
  shows "map or_identity orders' = map or_identity orders" "map or_requested orders' = map or_requested orders"
    "map or_wallet orders' = map or_wallet orders"
    "map or_requested (of_identity k orders') = map or_requested (of_identity k orders)"
proof -
  have "list_all2 (\<lambda>x y. request_of x = request_of y) orders' orders"
    using assms by (simp add: list_all2_conv_all_nth list_eq_iff_nth_eq)
  then show "map or_identity orders' = map or_identity orders" "map or_requested orders' = map or_requested orders"
    "map or_wallet orders' = map or_wallet orders"
    "map or_requested (of_identity k orders') = map or_requested (of_identity k orders)"
    by (induction rule: list_all2_induct) (auto simp: request_of_eq of_identity_def)
qed

lemma allocate_all_effect:
  assumes "distinct (map fst ps)" "0 \<le> face" "\<forall>ord\<in>set orders. i128 (or_requested ord * face)"
    and "\<forall>(k, cap)\<in>set ps. 0 \<le> cap \<and> cap \<le> MAX_SUPPLY \<and> requests_fit (map or_requested (of_identity k orders))"
  shows "\<exists>orders'. allocate_all face ps orders = Inr orders' \<and> map request_of orders' = map request_of orders \<and>
     (\<forall>(k, cap)\<in>set ps. \<exists>amounts. hamilton (map or_requested (of_identity k orders)) cap amounts \<and>
         of_identity k orders' = map2 (allot face) (of_identity k orders) amounts) \<and>
     (\<forall>k. k \<notin> fst ` set ps \<longrightarrow> of_identity k orders' = of_identity k orders)"
  using assms
proof (induction ps arbitrary: orders)
  case (Cons p ps)
  obtain k cap where p: "p = (k, cap)" by fastforce
  obtain amounts os where step: "allocate_identity face k cap orders = Inr os"
      "hamilton (map or_requested (of_identity k orders)) cap amounts"
      "of_identity k os = map2 (allot face) (of_identity k orders) amounts"
      "\<forall>k'. k' \<noteq> k \<longrightarrow> of_identity k' os = of_identity k' orders"
      "map request_of os = map request_of orders"
    using allocate_identity_effect [of k orders cap face] Cons.prems by (auto simp: p)
  note same = requests_same [OF step(5)]
  have "\<forall>ord\<in>set os. i128 (or_requested ord * face)"
  proof
    fix ord assume "ord \<in> set os"
    then have "or_requested ord \<in> set (map or_requested orders)" unfolding same(2) [symmetric] by simp
    then show "i128 (or_requested ord * face)" using Cons.prems(3) by auto
  qed
  then obtain os' where rest: "allocate_all face ps os = Inr os'" "map request_of os' = map request_of os"
     "\<forall>(k, cap)\<in>set ps. \<exists>amounts. hamilton (map or_requested (of_identity k os)) cap amounts \<and>
         of_identity k os' = map2 (allot face) (of_identity k os) amounts"
     "\<forall>k. k \<notin> fst ` set ps \<longrightarrow> of_identity k os' = of_identity k os"
    using Cons.IH [of os] Cons.prems same(4) by auto
  have k: "k \<notin> fst ` set ps" using Cons.prems(1) by (simp add: p)
  show ?case
  proof (intro exI [of _ os'] conjI)
    show "allocate_all face (p # ps) orders = Inr os'" using step(1) rest(1) by (simp add: p)
    show "map request_of os' = map request_of orders" using step(5) rest(2) by simp
    show "\<forall>k'. k' \<notin> fst ` set (p # ps) \<longrightarrow> of_identity k' os' = of_identity k' orders"
      using step(4) rest(4) by (simp add: p)
    have "\<exists>amounts. hamilton (map or_requested (of_identity k' orders)) c amounts \<and>
         of_identity k' os' = map2 (allot face) (of_identity k' orders) amounts" if "(k', c) \<in> set ps" for k' c
    proof -
      have "k' \<noteq> k" using that k by force
      then have "of_identity k' os = of_identity k' orders" using step(4) by simp
      then show ?thesis using rest(3) that by fastforce
    qed
    moreover have "of_identity k os' = map2 (allot face) (of_identity k orders) amounts"
      using rest(4) k step(3) by simp
    ultimately show "\<forall>(k, cap)\<in>set (p # ps). \<exists>amounts. hamilton (map or_requested (of_identity k orders)) cap amounts \<and>
         of_identity k os' = map2 (allot face) (of_identity k orders) amounts"
      using step(2) by (auto simp: p)
  qed
qed simp

text \<open>
  The allocation of a settlement: the capacity is apportioned to the identities by
  their demand, and the share of an identity to its wallets by their requests.
\<close>

definition allocation :: "int \<Rightarrow> int \<Rightarrow> auction_order list \<Rightarrow> auction_order list \<Rightarrow> bool" where
  "allocation face capacity orders orders' \<longleftrightarrow>
     map request_of orders' = map request_of orders \<and>
     (\<exists>shares. hamilton (map (demand_of orders) (identities_of orders)) capacity shares \<and>
       (\<forall>(k, share)\<in>set (zip (identities_of orders) shares).
          \<exists>amounts. hamilton (map or_requested (of_identity k orders)) share amounts \<and>
            of_identity k orders' = map2 (allot face) (of_identity k orders) amounts))"

definition book_ok :: "int \<Rightarrow> auction_order list \<Rightarrow> bool" where
  "book_ok face orders \<longleftrightarrow> 0 \<le> face \<and> length orders \<le> MAX_AUCTION_WALLETS \<and>
     (\<forall>ord\<in>set orders. 0 \<le> or_requested ord \<and> i128 (or_requested ord * face)) \<and>
     (\<forall>k. demand_of orders k \<le> MAX_SUPPLY)"

lemma demand_of_requests: "demand_of orders k = sum_list (map or_requested (of_identity k orders))"
  by (simp add: demand_of_def of_identity_def)

lemma demand_of_mset: "mset xs = mset ys \<Longrightarrow> demand_of xs k = demand_of ys k"
proof -
  assume eq: "mset xs = mset ys"
  have "demand_of zs k = sum_mset (image_mset or_requested (filter_mset (\<lambda>ord. or_identity ord = k) (mset zs)))" for zs
    unfolding demand_of_def by (induction zs) simp_all
  then show ?thesis by (simp only: eq)
qed

lemma book_ok_sorted: "book_ok face (sort_orders orders) \<longleftrightarrow> book_ok face orders"
  using demand_of_mset [of "sort_orders orders" orders] by (simp add: book_ok_def sort_orders_sorts)

lemma sort_orders_identities: "sorted (map or_identity (sort_orders orders))"
proof -
  have "sorted (map order_key (sort_orders orders))" by (simp add: sort_orders_sorts)
  then have "sorted_wrt (\<lambda>x y. order_key x \<le> order_key y) (sort_orders orders)" by (simp add: sorted_map)
  then show ?thesis unfolding sorted_map
    by (rule sorted_wrt_mono_rel [rotated]) (auto simp: order_key_def)
qed

lemma book_ok_request:
  assumes "book_ok face orders" "ord \<in> set orders"
  shows "or_requested ord \<le> MAX_SUPPLY"
proof -
  have "or_requested ord \<le> sum_list (map or_requested (of_identity (or_identity ord) orders))"
    using assms by (intro member_le_sum_list) (auto simp: book_ok_def of_identity_def)
  also have "\<dots> = demand_of orders (or_identity ord)" by (simp add: demand_of_requests)
  finally show ?thesis using assms(1) by (auto simp: book_ok_def intro: order_trans)
qed

lemma book_ok_fit:
  assumes "book_ok face orders"
  shows "requests_fit (map or_requested (of_identity k orders))"
    and "requests_fit (map (demand_of orders) (identities_of orders))"
proof -
  have "length (of_identity k orders) \<le> length orders" by (simp add: of_identity_def)
  then show "requests_fit (map or_requested (of_identity k orders))"
    using assms book_ok_request [OF assms]
    by (auto simp: requests_fit_def book_ok_def of_identity_def list_all_iff intro: order_trans [OF length_filter_le])
  have "length (identities_of orders) \<le> length orders"
    by (metis identities_of_def length_map remdups_adj_length)
  then show "requests_fit (map (demand_of orders) (identities_of orders))"
    using assms demand_of_le(1) [of orders] by (auto simp: requests_fit_def book_ok_def list_all_iff)
qed

theorem allocate_orders_effect:
  assumes "book_ok face orders" "0 \<le> capacity" "capacity \<le> MAX_SUPPLY"
  defines "os \<equiv> sort_orders orders"
  shows "\<exists>shares orders'. gather os [] [] = Inr (identities_of os, map (demand_of os) (identities_of os)) \<and>
     apportion (map (demand_of os) (identities_of os)) capacity = Inr shares \<and>
     allocate_all face (zip (identities_of os) shares) os = Inr orders' \<and> allocation face capacity os orders'"
proof -
  have ok: "book_ok face os" using assms(1) by (simp add: os_def book_ok_sorted)
  have sorted: "sorted (map or_identity os)" unfolding os_def by (rule sort_orders_identities)
  let ?ids = "identities_of os" and ?ds = "map (demand_of os) (identities_of os)"
  have "requests_fit (map or_requested os)"
    using ok book_ok_request [OF ok] by (auto simp: requests_fit_def book_ok_def list_all_iff)
  then have gather: "gather os [] [] = Inr (?ids, ?ds)"
    using gather_succeeds [of "[]" os] sorted ok requests_fit_sum(3)
    by (simp add: book_ok_def identities_of_def [of "[]"])
  obtain shares where sh: "apportion ?ds capacity = Inr shares" "hamilton ?ds capacity shares"
    using apportion_hamilton [OF book_ok_fit(2) [OF ok] assms(2,3)] by blast
  note len = hamilton_sum [OF sh(2) assms(2)]
  have "0 \<le> share \<and> share \<le> MAX_SUPPLY" if mem: "(k, share) \<in> set (zip ?ids shares)" for k share
  proof -
    obtain i where i: "i < length ?ids" "k = ?ids ! i" "share = shares ! i"
      using mem len(1) by (auto simp: set_zip)
    have "list_all (\<lambda>r. 0 \<le> r) ?ds" using book_ok_fit(2) [OF ok] by (auto simp: requests_fit_def list_all_iff)
    then have "0 \<le> shares ! i \<and> shares ! i \<le> demand_of os k"
      using hamilton_bounds [OF sh(2) _ assms(2), of i] i by simp
    then show ?thesis using i ok unfolding book_ok_def by (meson order_trans)
  qed
  then have ps: "\<forall>(k, cap)\<in>set (zip ?ids shares). 0 \<le> cap \<and> cap \<le> MAX_SUPPLY \<and>
      requests_fit (map or_requested (of_identity k os))"
    using book_ok_fit(1) [OF ok] by auto
  have "distinct (map fst (zip ?ids shares))" using identities_sorted(2) [OF sorted] len(1) by simp
  then obtain orders' where "allocate_all face (zip ?ids shares) os = Inr orders'"
      "map request_of orders' = map request_of os"
      "\<forall>(k, cap)\<in>set (zip ?ids shares). \<exists>amounts. hamilton (map or_requested (of_identity k os)) cap amounts \<and>
         of_identity k orders' = map2 (allot face) (of_identity k os) amounts"
    using allocate_all_effect [OF _ _ _ ps, of face] ok by (auto simp: book_ok_def)
  then show ?thesis using gather sh by (auto simp: allocation_def)
qed

lemma sum_by_identity:
  assumes "distinct ids" "or_identity ` set orders \<subseteq> set ids"
  shows "(\<Sum>ord\<leftarrow>orders. f ord) = (\<Sum>k\<leftarrow>ids. \<Sum>ord\<leftarrow>of_identity k orders. f ord :: int)"
  using assms(2)
proof (induction orders)
  case (Cons ord orders)
  have "(\<Sum>k\<leftarrow>ids. \<Sum>x\<leftarrow>of_identity k (ord # orders). f x) =
      (\<Sum>k\<leftarrow>ids. (if k = or_identity ord then f ord else 0) + (\<Sum>x\<leftarrow>of_identity k orders. f x))"
    by (intro arg_cong [of _ _ sum_list] map_cong) (auto simp: of_identity_def)
  also have "\<dots> = (\<Sum>k\<leftarrow>ids. if k = or_identity ord then f ord else 0) + (\<Sum>k\<leftarrow>ids. \<Sum>x\<leftarrow>of_identity k orders. f x)"
    by (simp add: sum_list_addf)
  also have "(\<Sum>k\<leftarrow>ids. if k = or_identity ord then f ord else 0) = f ord"
    using assms(1) Cons.prems by (simp add: sum_list_distinct_conv_sum_set)
  finally show ?case using Cons by simp
qed (simp add: of_identity_def)

text \<open>What an identity's wallets get together, and what one of them gets.\<close>

lemma allocation_identity:
  assumes "allocation face capacity orders orders'" "book_ok face orders" "0 \<le> capacity"
    "sorted (map or_identity orders)"
  obtains shares where "hamilton (map (demand_of orders) (identities_of orders)) capacity shares"
    "\<And>i. i < length (identities_of orders) \<Longrightarrow>
       (\<Sum>ord\<leftarrow>of_identity (identities_of orders ! i) orders'. or_allocated ord) = shares ! i"
    "\<And>ord. ord \<in> set orders' \<Longrightarrow> 0 \<le> or_allocated ord \<and> or_allocated ord \<le> or_requested ord \<and>
       or_refunded ord = (or_requested ord - or_allocated ord) * face"
proof -
  let ?ids = "identities_of orders" and ?ds = "map (demand_of orders) (identities_of orders)"
  obtain shares where sh: "hamilton ?ds capacity shares"
    "\<forall>(k, share)\<in>set (zip ?ids shares). \<exists>amounts. hamilton (map or_requested (of_identity k orders)) share amounts \<and>
        of_identity k orders' = map2 (allot face) (of_identity k orders) amounts"
    using assms(1) by (auto simp: allocation_def)
  note len = hamilton_sum(1) [OF sh(1) assms(3)]
  have nonneg: "list_all (\<lambda>r. 0 \<le> r) ?ds" "list_all (\<lambda>r. 0 \<le> r) (map or_requested (of_identity k orders))" for k
    using book_ok_fit [OF assms(2)] by (auto simp: requests_fit_def list_all_iff)
  have part: "\<exists>amounts. hamilton (map or_requested (of_identity (?ids ! i) orders)) (shares ! i) amounts \<and>
        of_identity (?ids ! i) orders' = map2 (allot face) (of_identity (?ids ! i) orders) amounts \<and>
        0 \<le> shares ! i \<and> shares ! i \<le> demand_of orders (?ids ! i)"
    if i: "i < length ?ids" for i
  proof -
    have "(?ids ! i, shares ! i) \<in> set (zip ?ids shares)" using i len by (auto simp: set_zip)
    then show ?thesis using sh(2) hamilton_bounds [OF sh(1) nonneg(1) assms(3), of i] i by auto
  qed
  have sums: "(\<Sum>ord\<leftarrow>of_identity (?ids ! i) orders'. or_allocated ord) = shares ! i" if i: "i < length ?ids" for i
  proof -
    obtain amounts where am: "hamilton (map or_requested (of_identity (?ids ! i) orders)) (shares ! i) amounts"
      "of_identity (?ids ! i) orders' = map2 (allot face) (of_identity (?ids ! i) orders) amounts"
      "0 \<le> shares ! i" "shares ! i \<le> demand_of orders (?ids ! i)"
      using part [OF i] by blast
    note am' = hamilton_sum [OF am(1,3)]
    have "map or_allocated (of_identity (?ids ! i) orders') = amounts"
      unfolding am(2) using am'(1) by (intro nth_equalityI) simp_all
    then show ?thesis using am'(2) am(4) by (simp add: demand_of_requests)
  qed
  have each: "0 \<le> or_allocated ord \<and> or_allocated ord \<le> or_requested ord \<and>
       or_refunded ord = (or_requested ord - or_allocated ord) * face" if ord: "ord \<in> set orders'" for ord
  proof -
    have "map or_identity orders' = map or_identity orders"
      using assms(1) by (intro requests_same) (simp add: allocation_def)
    moreover have "or_identity ord \<in> set (map or_identity orders')" using ord by simp
    ultimately have "or_identity ord \<in> set (map or_identity orders)" by (simp only:)
    then have "or_identity ord \<in> set ?ids" by (simp add: identities_sorted(3) [OF assms(4)])
    then obtain i where i: "i < length ?ids" "?ids ! i = or_identity ord" by (auto simp: in_set_conv_nth)
    let ?mine = "of_identity (or_identity ord) orders"
    obtain amounts where am: "hamilton (map or_requested ?mine) (shares ! i) amounts"
      "of_identity (or_identity ord) orders' = map2 (allot face) ?mine amounts" "0 \<le> shares ! i"
      using part [OF i(1)] unfolding i(2) by blast
    note am' = hamilton_sum(1) [OF am(1,3)]
    have "ord \<in> set (map2 (allot face) ?mine amounts)"
      using ord unfolding am(2) [symmetric] by (simp add: of_identity_def)
    then obtain m where m: "m < length ?mine" "ord = allot face (?mine ! m) (amounts ! m)"
      using am' by (auto simp: set_zip)
    have "0 \<le> amounts ! m \<and> amounts ! m \<le> or_requested (?mine ! m)"
      using hamilton_bounds [OF am(1) nonneg(2) am(3), of m] m(1) by simp
    then show ?thesis by (subst (1 2 3 4 5 6) m(2)) simp
  qed
  show ?thesis by (rule that [OF sh(1) sums each])
qed

lemma allocation_total:
  assumes "allocation face capacity orders orders'" "book_ok face orders" "0 \<le> capacity"
    "sorted (map or_identity orders)"
  shows "(\<Sum>ord\<leftarrow>orders'. or_allocated ord) = min capacity (\<Sum>ord\<leftarrow>orders. or_requested ord)"
proof -
  let ?ids = "identities_of orders" and ?ds = "map (demand_of orders) (identities_of orders)"
  obtain shares where sh: "hamilton ?ds capacity shares"
    "\<And>i. i < length ?ids \<Longrightarrow> (\<Sum>ord\<leftarrow>of_identity (?ids ! i) orders'. or_allocated ord) = shares ! i"
    by (rule allocation_identity [OF assms]) (rule that)
  note ids = identities_sorted [OF assms(4)]
  note len = hamilton_sum [OF sh(1) assms(3)]
  have "map or_identity orders' = map or_identity orders"
    using assms(1) by (intro requests_same) (simp add: allocation_def)
  then have same: "or_identity ` set orders' = or_identity ` set orders" by (metis list.set_map)
  have "(\<Sum>ord\<leftarrow>orders'. or_allocated ord) = (\<Sum>k\<leftarrow>?ids. \<Sum>ord\<leftarrow>of_identity k orders'. or_allocated ord)"
    using ids(2,3) same by (intro sum_by_identity) simp_all
  also have "map (\<lambda>k. \<Sum>ord\<leftarrow>of_identity k orders'. or_allocated ord) ?ids = shares"
    using sh(2) len(1) by (intro nth_equalityI) simp_all
  also have "sum_list shares = min capacity (sum_list ?ds)" by (rule len(2))
  also have "sum_list ?ds = (\<Sum>ord\<leftarrow>orders. or_requested ord)"
    using sum_by_identity [of ?ids orders or_requested] ids(2,3) by (simp add: demand_of_requests [abs_def])
  finally show ?thesis .
qed

end
