(* ===== verification/Bond_Issuer.thy ===== *)
theory Bond_Issuer
  imports Redemption_Queue Subscription_Auction
begin

text \<open>
  The entry points of the bond issuer contract
  (\<open>contracts/bond-issuer/src/lib.rs\<close> and the entry points of
  \<open>subscription_auction.rs\<close>), one definition each: from the environment of the
  invocation and the storage to an error, or the new storage and the result.

  Other contracts are parameters: the record \<open>host\<close> holds the two queries of the
  project registry, the transfer of a settlement token and the host's SHA-256. They
  read and change a state \<open>'w\<close> of the world outside the contract.
\<close>

record 'w host =
  has_approved_project :: "'w \<Rightarrow> address \<Rightarrow> bytes \<Rightarrow> bool option"
  get_project_methodology :: "'w \<Rightarrow> address \<Rightarrow> bytes \<Rightarrow> symbol option"
  token_transfer :: "'w token_move"
  sha256 :: "bytes \<Rightarrow> bytes"

definition SCHEMA_VERSION :: nat where
  "SCHEMA_VERSION = 1"

definition schema_version :: nat where
  "schema_version = SCHEMA_VERSION"

definition empty_storage :: issuer where
  "empty_storage = \<lparr>CommittedRanges = Map.empty, Admin = None, BondConfig = Map.empty, BondState = Map.empty,
     HolderBalance = Map.empty, BalanceVersion = Map.empty, HolderCheckpointCount = Map.empty,
     HolderCheckpoint = Map.empty, SupplyCheckpointCount = Map.empty, SupplyCheckpoint = Map.empty,
     RedemptionPool = Map.empty, BondCount = None, Nonce = Map.empty, ProjectRegistry = None,
     RedemptionBudget = Map.empty, RedemptionCycle = Map.empty, RedemptionHead = Map.empty,
     RedemptionTail = Map.empty, RedemptionRequest = Map.empty, RedemptionId = Map.empty,
     RedemptionReserved = Map.empty, TransferBlocked = Map.empty, PendingAdmin = None,
     PendingAdminExpiry = None, SubscriptionAuctionRequired = Map.empty, SubscriptionAuction = Map.empty,
     SubscriptionIdentity = Map.empty, Events = []\<rparr>"

definition constructor :: "address \<Rightarrow> issuer" where
  "constructor admin = empty_storage\<lparr>Admin := Some admin\<rparr>"

subsection \<open>Administration\<close>

definition set_admin :: "env \<Rightarrow> issuer \<Rightarrow> address \<Rightarrow> address \<Rightarrow> nat \<Rightarrow> issuer bond_result" where
  "set_admin env s current_admin new_admin nonce =
     and_then (require_auth env current_admin) (\<lambda>_.
     and_then (consume_nonce s current_admin nonce) (\<lambda>s.
     and_then (require_admin s current_admin) (\<lambda>_.
     Inr (publish (AdminChanged current_admin new_admin) (s\<lparr>Admin := Some new_admin\<rparr>)))))"

definition get_admin :: "issuer \<Rightarrow> address bond_result" where
  "get_admin s = ok_or (Admin s) NotInitialized"

definition propose_admin :: "env \<Rightarrow> issuer \<Rightarrow> address \<Rightarrow> address \<Rightarrow> nat \<Rightarrow> nat \<Rightarrow> issuer bond_result" where
  "propose_admin env s current_admin proposed nonce ttl_ledgers =
     and_then (require_auth env current_admin) (\<lambda>_.
     and_then (consume_nonce s current_admin nonce) (\<lambda>s.
     and_then (require_admin s current_admin) (\<lambda>_.
     if (case PendingAdminExpiry s of None \<Rightarrow> False | Some ex \<Rightarrow> ledger_sequence env \<le> ex)
     then fail AdminTransferPending else
     let expires_at = saturating_add_u32 (ledger_sequence env) ttl_ledgers in
     Inr (publish (AdminProposed current_admin proposed expires_at)
       (s\<lparr>PendingAdmin := Some proposed, PendingAdminExpiry := Some expires_at\<rparr>)))))"

definition accept_admin :: "env \<Rightarrow> issuer \<Rightarrow> address \<Rightarrow> nat \<Rightarrow> issuer bond_result" where
  "accept_admin env s proposed nonce =
     and_then (require_auth env proposed) (\<lambda>_.
     and_then (consume_nonce s proposed nonce) (\<lambda>s.
     and_then (ok_or (PendingAdmin s) NoAdminTransferPending) (\<lambda>pending.
     and_then (ok_or (PendingAdminExpiry s) NoAdminTransferPending) (\<lambda>expiry.
     if proposed \<noteq> pending then fail Unauthorized else
     if ledger_sequence env > expiry then fail AdminTransferExpired else
     and_then (ok_or (Admin s) NotInitialized) (\<lambda>old_admin.
     Inr (publish (AdminChanged old_admin proposed)
       (s\<lparr>Admin := Some proposed, PendingAdmin := None, PendingAdminExpiry := None\<rparr>)))))))"

definition cancel_admin_proposal :: "env \<Rightarrow> issuer \<Rightarrow> address \<Rightarrow> nat \<Rightarrow> issuer bond_result" where
  "cancel_admin_proposal env s current_admin nonce =
     and_then (require_auth env current_admin) (\<lambda>_.
     and_then (consume_nonce s current_admin nonce) (\<lambda>s.
     and_then (require_admin s current_admin) (\<lambda>_.
     Inr (publish (AdminProposalCancelled current_admin)
       (s\<lparr>PendingAdmin := None, PendingAdminExpiry := None\<rparr>)))))"

definition set_project_registry :: "env \<Rightarrow> issuer \<Rightarrow> address \<Rightarrow> address \<Rightarrow> nat \<Rightarrow> issuer bond_result" where
  "set_project_registry env s caller registry nonce =
     and_then (require_auth env caller) (\<lambda>_.
     and_then (consume_nonce s caller nonce) (\<lambda>s.
     and_then (require_admin s caller) (\<lambda>_.
     Inr (s\<lparr>ProjectRegistry := Some registry\<rparr>))))"

definition set_transfer_blocked :: "env \<Rightarrow> issuer \<Rightarrow> address \<Rightarrow> address \<Rightarrow> bool \<Rightarrow> nat \<Rightarrow> issuer bond_result" where
  "set_transfer_blocked env s caller holder blocked nonce =
     and_then (require_auth env caller) (\<lambda>_.
     and_then (require_admin s caller) (\<lambda>_.
     and_then (consume_nonce s caller nonce) (\<lambda>s.
     Inr (publish (TransferCompliance holder blocked)
       (s\<lparr>TransferBlocked := (TransferBlocked s)(holder \<mapsto> blocked)\<rparr>)))))"

subsection \<open>Issuance\<close>

definition overlaps :: "int \<Rightarrow> int \<Rightarrow> serial_range \<Rightarrow> bool" where
  "overlaps new_start new_end r =
     (let max_start = (if new_start > range_start r then new_start else range_start r);
          min_end = (if new_end < range_end r then new_end else range_end r)
      in max_start \<le> min_end)"

definition check_registry :: "'w host \<Rightarrow> issuer \<Rightarrow> 'w \<Rightarrow> bond_config \<Rightarrow> unit bond_result" where
  "check_registry host s w config =
     (case ProjectRegistry s of
        None \<Rightarrow> Inr ()
      | Some registry \<Rightarrow>
          and_then (unwrap (has_approved_project host w registry (project_id config))) (\<lambda>approved.
          if \<not> approved then fail ProjectNotApproved else
          and_then (unwrap (get_project_methodology host w registry (project_id config))) (\<lambda>methodology.
          if \<not> methodology_compatible methodology (credit_type config)
          then fail IncompatibleMethodologyCreditType else Inr ())))"

definition issue_bond :: "'w host \<Rightarrow> env \<Rightarrow> issuer \<Rightarrow> 'w \<Rightarrow> address \<Rightarrow> bond_config \<Rightarrow> nat
    \<Rightarrow> (issuer \<times> nat) bond_result" where
  "issue_bond host env s w caller config nonce =
     and_then (require_auth env caller) (\<lambda>_.
     and_then (consume_nonce s caller nonce) (\<lambda>s.
     and_then (require_admin s caller) (\<lambda>_.
     if face_value config \<le> 0 then fail ZeroAmount else
     if total_supply config \<le> 0 \<or> total_supply config > MAX_SUPPLY then fail InvalidSupply else
     if maturity_date config \<le> ledger_timestamp env then fail Overflow else
     if coupon_schedule config = [] then fail ZeroAmount else
     if \<exists>d\<in>set (coupon_schedule config). d \<ge> maturity_date config then fail ZeroAmount else
     and_then (check_registry host s w config) (\<lambda>_.
     let count = unwrap_or (BondCount s) 0;
         range_key = (project_id config, credit_vintage config);
         ranges = unwrap_or (CommittedRanges s range_key) [];
         new_start = serial_number_start config;
         new_end = serial_number_end config in
     if new_start > new_end then fail InvalidSupply else
     if \<exists>r\<in>set ranges. overlaps new_start new_end r then fail InvalidSupply else
     let s = s\<lparr>CommittedRanges := (CommittedRanges s)(range_key \<mapsto>
               ranges @ [\<lparr>range_start = new_start, range_end = new_end\<rparr>])\<rparr> in
     and_then (unwrap (checked_add_u64 count 1)) (\<lambda>bond_id.
     let s = s\<lparr>BondCount := Some bond_id,
               BondConfig := (BondConfig s)(bond_id \<mapsto> config),
               BondState := (BondState s)(bond_id \<mapsto> \<lparr>total_subscribed = 0, status = Active,
                 created_at = ledger_timestamp env\<rparr>),
               BalanceVersion := (BalanceVersion s)(bond_id \<mapsto> 0),
               SupplyCheckpoint := (SupplyCheckpoint s)((bond_id, 0) \<mapsto>
                 \<lparr>sp_version = 0, sp_total_subscribed = 0\<rparr>),
               SupplyCheckpointCount := (SupplyCheckpointCount s)(bond_id \<mapsto> 1)\<rparr>
     in Inr (publish (BondIssued bond_id (project_id config)) s, bond_id))))))"

definition mature_bond :: "env \<Rightarrow> issuer \<Rightarrow> address \<Rightarrow> nat \<Rightarrow> nat \<Rightarrow> issuer bond_result" where
  "mature_bond env s caller bond_id nonce =
     and_then (require_auth env caller) (\<lambda>_.
     and_then (consume_nonce s caller nonce) (\<lambda>s.
     and_then (require_admin s caller) (\<lambda>_.
     and_then (ok_or (BondConfig s bond_id) BondNotFound) (\<lambda>config.
     and_then (ok_or (BondState s bond_id) BondNotFound) (\<lambda>state.
     if status state \<noteq> Active then fail BondAlreadyMatured else
     if ledger_timestamp env < maturity_date config then fail Overflow else
     Inr (publish (BondMatured bond_id)
       (s\<lparr>BondState := (BondState s)(bond_id \<mapsto> state\<lparr>status := Matured\<rparr>)\<rparr>)))))))"

subsection \<open>Positions\<close>

definition subscribe :: "env \<Rightarrow> issuer \<Rightarrow> address \<Rightarrow> nat \<Rightarrow> int \<Rightarrow> nat \<Rightarrow> issuer bond_result" where
  "subscribe env s investor bond_id amount nonce =
     (if configured s bond_id then fail AuctionRequired else
      and_then (consume_nonce s investor nonce) (\<lambda>s.
      if amount \<le> 0 then fail ZeroAmount else
      and_then (ok_or (BondConfig s bond_id) BondNotFound) (\<lambda>config.
      and_then (ok_or (BondState s bond_id) BondNotFound) (\<lambda>state.
      if status state \<noteq> Active then fail BondAlreadyMatured else
      if ledger_timestamp env \<ge> maturity_date config then fail BondAlreadyMatured else
      and_then (ok_or (checked_add (total_subscribed state) amount) Overflow) (\<lambda>new_total.
      if new_total > total_supply config then fail InsufficientSupply else
      let current_balance = unwrap_or (HolderBalance s (bond_id, investor)) 0 in
      and_then (ok_or (checked_add current_balance amount) Overflow) (\<lambda>new_balance.
      let s = s\<lparr>HolderBalance := (HolderBalance s)((bond_id, investor) \<mapsto> new_balance)\<rparr>;
          previous_total = total_subscribed state;
          s = s\<lparr>BondState := (BondState s)(bond_id \<mapsto> state\<lparr>total_subscribed := new_total\<rparr>)\<rparr> in
      and_then (advance_balance_version s bond_id) (\<lambda>(s, version).
      and_then (append_holder_checkpoint s bond_id investor version current_balance new_balance) (\<lambda>s.
      and_then (append_supply_checkpoint s bond_id version previous_total new_total) (\<lambda>s.
      Inr (publish (Subscribed bond_id investor amount) s))))))))))"

definition check_transfer :: "env \<Rightarrow> issuer \<Rightarrow> address \<Rightarrow> address \<Rightarrow> nat \<Rightarrow> int \<Rightarrow> unit bond_result" where
  "check_transfer = validate_transfer"

definition transfer :: "env \<Rightarrow> issuer \<Rightarrow> address \<Rightarrow> address \<Rightarrow> nat \<Rightarrow> int \<Rightarrow> nat \<Rightarrow> issuer bond_result" where
  "transfer env s from_addr to_addr bond_id amount nonce =
     and_then (require_auth env from_addr) (\<lambda>_.
     and_then (consume_nonce s from_addr nonce) (\<lambda>s.
     and_then (validate_transfer env s from_addr to_addr bond_id amount) (\<lambda>_.
     let from_balance = unwrap_or (HolderBalance s (bond_id, from_addr)) 0 in
     and_then (ok_or (checked_sub from_balance amount) Overflow) (\<lambda>new_from_balance.
     let s = s\<lparr>HolderBalance := (HolderBalance s)((bond_id, from_addr) \<mapsto> new_from_balance)\<rparr>;
         to_balance = unwrap_or (HolderBalance s (bond_id, to_addr)) 0 in
     and_then (ok_or (checked_add to_balance amount) Overflow) (\<lambda>new_to_balance.
     let s = s\<lparr>HolderBalance := (HolderBalance s)((bond_id, to_addr) \<mapsto> new_to_balance)\<rparr> in
     and_then (advance_balance_version s bond_id) (\<lambda>(s, version).
     and_then (append_holder_checkpoint s bond_id from_addr version from_balance new_from_balance) (\<lambda>s.
     and_then (append_holder_checkpoint s bond_id to_addr version to_balance new_to_balance) (\<lambda>s.
     Inr (publish (Transferred bond_id from_addr to_addr amount) s)))))))))"

subsection \<open>Redemption\<close>

definition get_nonce :: "issuer \<Rightarrow> address \<Rightarrow> nat" where
  "get_nonce s addr = unwrap_or (Nonce s addr) 0"

definition to_be_bytes :: "nat \<Rightarrow> bytes" where
  "to_be_bytes n = map (\<lambda>i. char_of (n div 256 ^ (7 - i) mod 256)) [0..<8]"

definition fund_redemption :: "env \<Rightarrow> issuer \<Rightarrow> address \<Rightarrow> nat \<Rightarrow> int \<Rightarrow> nat \<Rightarrow> issuer bond_result" where
  "fund_redemption env s caller bond_id amount nonce =
     and_then (require_auth env caller) (\<lambda>_.
     and_then (consume_nonce s caller nonce) (\<lambda>s.
     and_then (require_admin s caller) (\<lambda>_.
     if amount \<le> 0 then fail ZeroAmount else
     and_then (ok_or (BondConfig s bond_id) BondNotFound) (\<lambda>_.
     let current = unwrap_or (RedemptionPool s bond_id) 0 in
     and_then (ok_or (checked_add current amount) Overflow) (\<lambda>next.
     Inr (publish (RedemptionFunded bond_id caller amount)
       (s\<lparr>RedemptionPool := (RedemptionPool s)(bond_id \<mapsto> next)\<rparr>)))))))"

definition redeem :: "'w host \<Rightarrow> env \<Rightarrow> issuer \<Rightarrow> address \<Rightarrow> nat \<Rightarrow> int \<Rightarrow> nat \<Rightarrow> issuer bond_result" where
  "redeem host env s holder bond_id amount nonce =
     and_then (require_auth env holder) (\<lambda>_.
     if nonce \<noteq> get_nonce s holder then fail InvalidNonce else
     and_then (ok_or (BondConfig s bond_id) BondNotFound) (\<lambda>config.
     and_then (ok_or (BondState s bond_id) BondNotFound) (\<lambda>state.
     if status state \<noteq> Matured then fail BondAlreadyMatured else
     if amount \<le> 0 then fail ZeroAmount else
     let balance = unwrap_or (HolderBalance s (bond_id, holder)) 0 in
     if amount > balance then fail InsufficientSupply else
     let head = cursor (RedemptionHead s bond_id);
         tail = cursor (RedemptionTail s bond_id) in
     if head \<noteq> 0 \<and> head \<le> tail then fail RedemptionQueueRequired else
     and_then (ok_or (checked_mul amount (face_value config)) Overflow) (\<lambda>payout.
     let pool = unwrap_or (RedemptionPool s bond_id) 0 in
     if pool < payout then fail RedemptionUnderfunded else
     let config_budget = budget s bond_id in
     and_then (cycle env s bond_id config_budget) (\<lambda>usage.
     and_then (strict (principal_per_cycle config_budget - cy_paid usage)) (\<lambda>unused.
     if payout > unused then fail RedemptionQueueRequired else
     let request_key = sha256 host (to_be_bytes nonce) in
     and_then (enqueue env s holder bond_id amount request_key nonce) (\<lambda>(s, rid).
     if rid \<le> tail then fail DuplicateRedemptionRequest else
     and_then (process env s bond_id 1) (\<lambda>(s, completed).
     if completed \<noteq> 1 then fail RedemptionQueueRequired else Inr s))))))))"

definition configure_redemption_budget ::
    "env \<Rightarrow> issuer \<Rightarrow> address \<Rightarrow> nat \<Rightarrow> int \<Rightarrow> nat \<Rightarrow> nat \<Rightarrow> issuer bond_result" where
  "configure_redemption_budget env s caller bond_id per_cycle ledgers nonce =
     and_then (require_auth env caller) (\<lambda>_.
     and_then (require_admin s caller) (\<lambda>_.
     and_then (ok_or (BondConfig s bond_id) BondNotFound) (\<lambda>config.
     if per_cycle < face_value config \<or> ledgers = 0 then fail InvalidRedemptionBudget else
     if cursor (RedemptionTail s bond_id) \<noteq> 0 then fail InvalidRedemptionBudget else
     and_then (consume_nonce s caller nonce) (\<lambda>s.
     let new_budget = \<lparr>principal_per_cycle = per_cycle, ledgers_per_cycle = ledgers\<rparr> in
     Inr (publish (RedemptionBudgetSet bond_id new_budget)
       (s\<lparr>RedemptionBudget := (RedemptionBudget s)(bond_id \<mapsto> new_budget)\<rparr>))))))"

definition request_redemption ::
    "env \<Rightarrow> issuer \<Rightarrow> address \<Rightarrow> nat \<Rightarrow> int \<Rightarrow> bytes \<Rightarrow> nat \<Rightarrow> (issuer \<times> nat) bond_result" where
  "request_redemption env s holder bond_id amount request_key nonce =
     and_then (require_auth env holder) (\<lambda>_.
     enqueue env s holder bond_id amount request_key nonce)"

definition process_redemptions :: "env \<Rightarrow> issuer \<Rightarrow> nat \<Rightarrow> nat \<Rightarrow> (issuer \<times> nat) bond_result" where
  "process_redemptions = process"

subsection \<open>Queries\<close>

definition get_redemption_request :: "issuer \<Rightarrow> nat \<Rightarrow> nat \<Rightarrow> redemption_request bond_result" where
  "get_redemption_request s bond_id rid = ok_or (RedemptionRequest s (bond_id, rid)) RedemptionQueueRequired"

definition get_redemption_budget :: "issuer \<Rightarrow> nat \<Rightarrow> redemption_budget" where
  "get_redemption_budget = budget"

definition get_bond :: "issuer \<Rightarrow> nat \<Rightarrow> bond_config bond_result" where
  "get_bond s bond_id = ok_or (BondConfig s bond_id) BondNotFound"

definition get_bond_state :: "issuer \<Rightarrow> nat \<Rightarrow> bond_state bond_result" where
  "get_bond_state s bond_id = ok_or (BondState s bond_id) BondNotFound"

definition get_holder_balance :: "issuer \<Rightarrow> nat \<Rightarrow> address \<Rightarrow> int" where
  "get_holder_balance s bond_id holder = unwrap_or (HolderBalance s (bond_id, holder)) 0"

definition get_balance_version :: "issuer \<Rightarrow> nat \<Rightarrow> nat bond_result" where
  "get_balance_version s bond_id =
     (if BondState s bond_id = None then fail BondNotFound
      else Inr (unwrap_or (BalanceVersion s bond_id) 0))"

definition get_holder_balance_at_version :: "issuer \<Rightarrow> nat \<Rightarrow> address \<Rightarrow> nat \<Rightarrow> int bond_result" where
  "get_holder_balance_at_version s bond_id holder version =
     and_then (get_balance_version s bond_id) (\<lambda>current_version.
     if version > current_version then fail InvalidBalanceSnapshot
     else holder_balance_at_version s bond_id holder version)"

definition get_redemption_pool :: "issuer \<Rightarrow> nat \<Rightarrow> int" where
  "get_redemption_pool s bond_id = unwrap_or (RedemptionPool s bond_id) 0"

definition holder_redemption_liability :: "issuer \<Rightarrow> nat \<Rightarrow> address \<Rightarrow> int bond_result" where
  "holder_redemption_liability s bond_id holder =
     (let balance = unwrap_or (HolderBalance s (bond_id, holder)) 0 in
      if balance = 0 then Inr 0 else
      and_then (unwrap (BondConfig s bond_id)) (\<lambda>config.
      Inr (saturating_mul balance (face_value config))))"

definition redemption_coverage :: "issuer \<Rightarrow> nat \<Rightarrow> redemption_coverage bond_result" where
  "redemption_coverage s bond_id =
     and_then (ok_or (BondConfig s bond_id) BondNotFound) (\<lambda>config.
     and_then (ok_or (BondState s bond_id) BondNotFound) (\<lambda>state.
     and_then (ok_or (checked_mul (total_subscribed state) (face_value config)) Overflow) (\<lambda>due.
     let funded = unwrap_or (RedemptionPool s bond_id) 0 in
     and_then (if due > funded then strict (due - funded) else Inr 0) (\<lambda>missing.
     let bps = (if due = 0 then 10000
                else as_u64 (min (saturating_mul_u128 (as_u128 funded) 10000 div as_u128 due) 10000))
     in Inr \<lparr>total_principal_due = due, funded_amount = funded, shortfall = missing,
             coverage_fraction_bps = bps\<rparr>))))"

definition total_supply_of :: "issuer \<Rightarrow> nat \<Rightarrow> int bond_result" where
  "total_supply_of s bond_id =
     and_then (ok_or (BondConfig s bond_id) BondNotFound) (\<lambda>config. Inr (total_supply config))"

definition total_subscribed_of :: "issuer \<Rightarrow> nat \<Rightarrow> int bond_result" where
  "total_subscribed_of s bond_id =
     and_then (ok_or (BondState s bond_id) BondNotFound) (\<lambda>state. Inr (total_subscribed state))"

definition get_total_subscribed_at_version :: "issuer \<Rightarrow> nat \<Rightarrow> nat \<Rightarrow> int bond_result" where
  "get_total_subscribed_at_version s bond_id version =
     and_then (get_balance_version s bond_id) (\<lambda>current_version.
     if version > current_version then fail InvalidBalanceSnapshot
     else total_subscribed_at_version s bond_id version)"

definition bond_count :: "issuer \<Rightarrow> nat" where
  "bond_count s = unwrap_or (BondCount s) 0"

record preview_subscription =
  remaining_supply :: int
  requested_amount :: int
  expected_failure :: "nat option"

definition preview_subscribe :: "env \<Rightarrow> issuer \<Rightarrow> nat \<Rightarrow> int \<Rightarrow> preview_subscription bond_result" where
  "preview_subscribe env s bond_id amount =
     and_then (ok_or (BondConfig s bond_id) BondNotFound) (\<lambda>config.
     and_then (ok_or (BondState s bond_id) BondNotFound) (\<lambda>state.
     let failure =
       (if configured s bond_id then Some (error_code AuctionRequired)
        else if amount \<le> 0 then Some (error_code ZeroAmount)
        else if status state \<noteq> Active \<or> ledger_timestamp env \<ge> maturity_date config
          then Some (error_code BondAlreadyMatured)
        else case checked_add (total_subscribed state) amount of
               None \<Rightarrow> Some (error_code Overflow)
             | Some new_total \<Rightarrow> if new_total > total_supply config
                 then Some (error_code InsufficientSupply) else None) in
     and_then (strict (total_supply config - total_subscribed state)) (\<lambda>remaining.
     Inr \<lparr>remaining_supply = remaining, requested_amount = amount, expected_failure = failure\<rparr>)))"

subsection \<open>The subscription auction\<close>

definition issue_auction :: "'w host \<Rightarrow> env \<Rightarrow> issuer \<Rightarrow> 'w \<Rightarrow> address \<Rightarrow> bond_config \<Rightarrow> auction_config \<Rightarrow> nat
    \<Rightarrow> (issuer \<times> nat) bond_result" where
  "issue_auction host env s w caller config auction nonce =
     (if au_open_ledger auction \<le> ledger_sequence env \<or> au_cutoff_ledger auction \<le> au_open_ledger auction \<or>
         au_identity_cap auction \<le> 0 \<or> au_identity_cap auction > MAX_SUPPLY \<or>
         au_treasury auction = current_contract_address env \<or>
         checked_mul (total_supply config) (face_value config) = None
      then fail InvalidAuction else
      and_then (issue_bond host env s w caller config nonce) (\<lambda>(s, bond_id).
      Inr (s\<lparr>SubscriptionAuctionRequired := (SubscriptionAuctionRequired s)(bond_id \<mapsto> True),
             SubscriptionAuction := (SubscriptionAuction s)(bond_id \<mapsto>
               \<lparr>au_config = auction, au_wallets = [], au_orders = [], au_settled = False\<rparr>)\<rparr>, bond_id)))"

definition grant_subscription ::
    "env \<Rightarrow> issuer \<Rightarrow> address \<Rightarrow> nat \<Rightarrow> address \<Rightarrow> bytes \<Rightarrow> nat \<Rightarrow> issuer bond_result" where
  "grant_subscription env s caller bond_id wallet identity nonce =
     and_then (require_auth env caller) (\<lambda>_.
     and_then (require_admin s caller) (\<lambda>_.
     and_then (consume_nonce s caller nonce) (\<lambda>s.
     and_then (load s bond_id) (\<lambda>auction.
     if ledger_sequence env \<ge> au_open_ledger (au_config auction) then fail AuctionClosed else
     if SubscriptionIdentity s (bond_id, wallet) \<noteq> None \<or> length (au_wallets auction) \<ge> MAX_AUCTION_WALLETS \<or>
        identity = replicate 32 (char_of (0 :: nat)) \<or> wallet = current_contract_address env
     then fail InvalidAuction else
     Inr (publish (SubscriptionEntitled bond_id wallet identity)
       (s\<lparr>SubscriptionIdentity := (SubscriptionIdentity s)((bond_id, wallet) \<mapsto> identity),
          SubscriptionAuction := (SubscriptionAuction s)(bond_id \<mapsto>
            auction\<lparr>au_wallets := au_wallets auction @ [wallet]\<rparr>)\<rparr>))))))"

text \<open>The loop over the orders that adds up an identity's demand, and the one that finds the wallet's order.\<close>

fun identity_total :: "bytes \<Rightarrow> auction_order list \<Rightarrow> int \<Rightarrow> int bond_result" where
  "identity_total identity [] acc = Inr acc"
| "identity_total identity (ord # orders) acc =
     (if or_identity ord = identity
      then and_then (ok_or (checked_add acc (or_requested ord)) Overflow) (identity_total identity orders)
      else identity_total identity orders acc)"

fun add_order :: "address \<Rightarrow> bytes \<Rightarrow> int \<Rightarrow> auction_order list \<Rightarrow> auction_order list bond_result" where
  "add_order investor identity amount [] =
     Inr [\<lparr>or_wallet = investor, or_identity = identity, or_requested = amount, or_allocated = 0, or_refunded = 0\<rparr>]"
| "add_order investor identity amount (ord # orders) =
     (if or_wallet ord = investor
      then and_then (ok_or (checked_add (or_requested ord) amount) Overflow) (\<lambda>requested.
           Inr (ord\<lparr>or_requested := requested\<rparr> # orders))
      else and_then (add_order investor identity amount orders) (\<lambda>orders. Inr (ord # orders)))"

definition commit_subscription :: "'w host \<Rightarrow> env \<Rightarrow> issuer \<Rightarrow> 'w \<Rightarrow> address \<Rightarrow> nat \<Rightarrow> int \<Rightarrow> nat
    \<Rightarrow> (issuer \<times> 'w) bond_result" where
  "commit_subscription host env s w investor bond_id amount nonce =
     and_then (require_auth env investor) (\<lambda>_.
     and_then (consume_nonce s investor nonce) (\<lambda>s.
     and_then (load s bond_id) (\<lambda>auction.
     let ledger = ledger_sequence env in
     if au_settled auction \<or> ledger < au_open_ledger (au_config auction) \<or> ledger \<ge> au_cutoff_ledger (au_config auction)
     then fail AuctionClosed else
     and_then (get_bond s bond_id) (\<lambda>config.
     and_then (if ledger_timestamp env \<ge> maturity_date config then Inr True
               else and_then (get_bond_state s bond_id) (\<lambda>state. Inr (status state \<noteq> Active))) (\<lambda>over.
     if over then fail BondAlreadyMatured else
     if amount \<le> 0 \<or> amount > MAX_SUPPLY then fail ZeroAmount else
     and_then (ok_or (SubscriptionIdentity s (bond_id, investor)) SubscriptionIneligible) (\<lambda>identity.
     and_then (identity_total identity (au_orders auction) amount) (\<lambda>demand.
     if demand > au_identity_cap (au_config auction) then fail IdentityCapExceeded else
     and_then (ok_or (checked_mul amount (face_value config)) Overflow) (\<lambda>capital.
     and_then (add_order investor identity amount (au_orders auction)) (\<lambda>orders.
     let s = s\<lparr>SubscriptionAuction := (SubscriptionAuction s)(bond_id \<mapsto> auction\<lparr>au_orders := orders\<rparr>)\<rparr> in
     and_then (unwrap (token_transfer host w (au_token (au_config auction)) investor
                 (current_contract_address env) capital)) (\<lambda>w.
     Inr (publish (SubscriptionCommitted bond_id investor amount) s, w)))))))))))"

text \<open>
  The two halves of a settlement: the allocation of the book to the open capacity,
  and the distribution of the allocated units, the refunds and the proceeds.
\<close>

definition allocate_book :: "env \<Rightarrow> bond_config \<Rightarrow> bond_state \<Rightarrow> auction_order list \<Rightarrow> auction_order list bond_result" where
  "allocate_book env config state orders =
     (let orders = sort_orders orders in
     and_then (gather orders [] []) (\<lambda>(identities, demands).
     and_then (if status state = Active \<and> ledger_timestamp env < maturity_date config
               then strict (total_supply config - total_subscribed state) else Inr 0) (\<lambda>capacity.
     and_then (apportion demands capacity) (\<lambda>identity_allocations.
     allocate_all (face_value config) (zip identities identity_allocations) orders))))"

definition distribute_orders :: "'w host \<Rightarrow> env \<Rightarrow> issuer \<Rightarrow> 'w \<Rightarrow> nat \<Rightarrow> bond_config \<Rightarrow> bond_state \<Rightarrow> auction_state
    \<Rightarrow> (issuer \<times> 'w) bond_result" where
  "distribute_orders host env s w bond_id config state auction =
     (let previous_total = total_subscribed state;
          token = au_token (au_config auction);
          self = current_contract_address env in
     and_then (advance_balance_version s bond_id) (\<lambda>(s, version).
     and_then (credit_orders (token_transfer host) env token bond_id version (au_orders auction) s state w) (\<lambda>(s, state, w).
     and_then (strict (total_subscribed state - previous_total)) (\<lambda>sold.
     and_then (ok_or (checked_mul sold (face_value config)) Overflow) (\<lambda>proceeds.
     and_then (if proceeds > 0
               then unwrap (token_transfer host w token self (au_treasury (au_config auction)) proceeds)
               else Inr w) (\<lambda>w.
     let s = s\<lparr>BondState := (BondState s)(bond_id \<mapsto> state)\<rparr> in
     and_then (append_supply_checkpoint s bond_id version previous_total (total_subscribed state)) (\<lambda>s.
     Inr (s, w))))))))"

definition settle_subscription :: "'w host \<Rightarrow> env \<Rightarrow> issuer \<Rightarrow> 'w \<Rightarrow> nat
    \<Rightarrow> (issuer \<times> 'w \<times> auction_state) bond_result" where
  "settle_subscription host env s w bond_id =
     and_then (load s bond_id) (\<lambda>auction.
     if au_settled auction \<or> ledger_sequence env < au_cutoff_ledger (au_config auction) then fail AuctionClosed else
     and_then (get_bond s bond_id) (\<lambda>config.
     and_then (get_bond_state s bond_id) (\<lambda>state.
     and_then (allocate_book env config state (au_orders auction)) (\<lambda>orders.
     let auction = auction\<lparr>au_orders := orders, au_settled := True\<rparr>;
         s = s\<lparr>SubscriptionAuction := (SubscriptionAuction s)(bond_id \<mapsto> auction)\<rparr> in
     and_then (distribute_orders host env s w bond_id config state auction) (\<lambda>(s, w).
     Inr (publish (SubscriptionSettled bond_id orders) s, w, auction))))))"

definition get_subscription :: "issuer \<Rightarrow> nat \<Rightarrow> auction_state bond_result" where
  "get_subscription = load"

end
