(* ===== verification/Issuer_Operations.thy ===== *)
theory Issuer_Operations
  imports Bond_Issuer
begin

text \<open>
  What each entry point of the bond issuer does to the positions of the holders
  and to the redemption queues: an administrative call keeps the positions, an
  issuance opens a bond, and subscription, transfer and settlement post new
  balances at the next version.
\<close>

lemma balance_of_unwrap: "balance_of s (b, h) = unwrap_or (HolderBalance s (b, h)) 0"
  by (simp add: balance_of_def value_of_def)

subsection \<open>Posting several holders\<close>

text \<open>The holders \<open>H\<close> have their checkpoint of the new version; supply and balances are still open.\<close>

definition posting :: "issuer \<Rightarrow> issuer \<Rightarrow> nat \<Rightarrow> address set \<Rightarrow> bool" where
  "posting s s' b H \<longleftrightarrow>
     BalanceVersion s' = (BalanceVersion s)(b \<mapsto> Suc (version_of s b)) \<and>
     (\<forall>k. k \<notin> {b} \<times> H \<longrightarrow> holder_count s' k = holder_count s k \<and> holder_entry s' k = holder_entry s k) \<and>
     (\<forall>h\<in>H. log_stored (holder_count s' (b, h)) (holder_entry s' (b, h)) \<and>
        holder_log s' (b, h) = log_extend (holder_log s (b, h)) (balance_of s (b, h))
          (Suc (version_of s b)) (balance_of s' (b, h))) \<and>
     supply_count s' = supply_count s \<and> supply_entry s' = supply_entry s \<and> BondConfig s' = BondConfig s"

lemma posting_start:
  assumes "advance_balance_version s1 b = Inr (s2, v)" "version_of s1 b = version_of s b"
    "BalanceVersion s1 = BalanceVersion s" "BondConfig s1 = BondConfig s"
    "holder_count s1 = holder_count s" "holder_entry s1 = holder_entry s"
    "supply_count s1 = supply_count s" "supply_entry s1 = supply_entry s"
  shows "posting s s2 b {}" "v = Suc (version_of s b)"
  using assms by (simp_all add: posting_def advance_balance_version_iff) (simp add: position_views fun_eq_iff)

lemma append_holder_checkpoint_views:
  assumes "append_holder_checkpoint s b h v p x = Inr s'"
  shows "BalanceVersion s' = BalanceVersion s" "HolderBalance s' = HolderBalance s" "BondConfig s' = BondConfig s"
    "BondState s' = BondState s" "supply_count s' = supply_count s" "supply_entry s' = supply_entry s"
    "balance_of s' = balance_of s"
  by (subst append_holder_checkpoint_frame [OF assms], simp add: position_views fun_eq_iff)+

lemma append_supply_checkpoint_views:
  assumes "append_supply_checkpoint s b v p x = Inr s'"
  shows "BalanceVersion s' = BalanceVersion s" "HolderBalance s' = HolderBalance s" "BondConfig s' = BondConfig s"
    "BondState s' = BondState s" "holder_count s' = holder_count s" "holder_entry s' = holder_entry s"
    "balance_of s' = balance_of s" "holder_log s' = holder_log s"
proof -
  show same: "BalanceVersion s' = BalanceVersion s" "HolderBalance s' = HolderBalance s" "BondConfig s' = BondConfig s"
    "BondState s' = BondState s" "holder_count s' = holder_count s" "holder_entry s' = holder_entry s"
    "balance_of s' = balance_of s"
    by (subst append_supply_checkpoint_frame [OF assms], simp add: position_views fun_eq_iff)+
  show "holder_log s' = holder_log s" by (rule ext) (simp add: holder_log_def same)
qed

lemma posting_append:
  assumes ok: "ledger_ok s" and post: "posting s s1 b H" and h: "h \<notin> H"
    and run: "append_holder_checkpoint s1 b h (Suc (version_of s b)) (balance_of s (b, h)) (balance_of s1 (b, h)) = Inr s2"
  shows "posting s s2 b (insert h H)"
proof -
  note frame = append_holder_checkpoint_views [OF run]
  note h1 = hcp.append_log [where k = "(b, h)", simplified, OF run]
    hcp.append_stored [where k = "(b, h)", simplified, OF run]
    hcp.append_other [where k = "(b, h)", simplified, OF run]
  have old: "holder_count s1 (b, h) = holder_count s (b, h)" "holder_entry s1 (b, h) = holder_entry s (b, h)"
    using post h by (auto simp: posting_def)
  have "log_stored (holder_count s (b, h)) (holder_entry s (b, h))"
    using ledger_okD(1) [OF ok] by (simp add: holder_ok_def)
  then have mine: "log_stored (holder_count s2 (b, h)) (holder_entry s2 (b, h))"
    "holder_log s2 (b, h) = log_extend (holder_log s (b, h)) (balance_of s (b, h)) (Suc (version_of s b)) (balance_of s2 (b, h))"
    using h1(1,2) old by (simp_all add: holder_log_def frame)
  have other: "holder_log s2 (b, g) = holder_log s1 (b, g)" if "g \<noteq> h" for g
    using h1(3,4) [of "(b, g)"] that by (simp add: holder_log_def)
  show ?thesis
    unfolding posting_def
  proof (intro conjI allI ballI impI)
    show "BalanceVersion s2 = (BalanceVersion s)(b \<mapsto> Suc (version_of s b))" "supply_count s2 = supply_count s"
      "supply_entry s2 = supply_entry s" "BondConfig s2 = BondConfig s"
      using post by (simp_all add: frame posting_def)
  next
    fix k assume "k \<notin> {b} \<times> insert h H"
    then have "k \<noteq> (b, h)" "k \<notin> {b} \<times> H" by auto
    then show "holder_count s2 k = holder_count s k" "holder_entry s2 k = holder_entry s k"
      using h1(3,4) [of k] post by (cases k; simp add: posting_def)+
  next
    fix g assume "g \<in> insert h H"
    then show "log_stored (holder_count s2 (b, g)) (holder_entry s2 (b, g))"
      "holder_log s2 (b, g) = log_extend (holder_log s (b, g)) (balance_of s (b, g)) (Suc (version_of s b)) (balance_of s2 (b, g))"
      using mine other [of g] h1(3,4) [of "(b, g)"] post by (cases "g = h"; simp add: posting_def frame)+
  qed
qed

lemma posting_balance:
  assumes "posting s s1 b H" "h \<notin> H"
  shows "posting s (s1\<lparr>HolderBalance := (HolderBalance s1)((b, h) \<mapsto> x)\<rparr>) b H"
proof -
  let ?s = "s1\<lparr>HolderBalance := (HolderBalance s1)((b, h) \<mapsto> x)\<rparr>"
  have same: "holder_count ?s = holder_count s1" "holder_entry ?s = holder_entry s1"
    "supply_count ?s = supply_count s1" "supply_entry ?s = supply_entry s1"
    by (rule ext, simp add: position_views fun_eq_iff)+
  moreover have "holder_log ?s = holder_log s1" by (rule ext) (simp add: holder_log_def same)
  moreover have "balance_of ?s (b, g) = balance_of s1 (b, g)" if "g \<in> H" for g
    using that assms(2) by (auto simp: balance_of_def value_of_def)
  ultimately show ?thesis using assms(1) by (simp add: posting_def)
qed

text \<open>The supply checkpoint, when the total changes, ends the posting.\<close>

lemma posting_posted:
  assumes ok: "ledger_ok s" and post: "posting s s1 b H" and st: "BondState s b = Some st"
    and bal: "finite (dom (HolderBalance s1))" "\<And>k. k \<notin> {b} \<times> H \<Longrightarrow> HolderBalance s1 k = HolderBalance s k"
      "\<And>h. h \<in> H \<Longrightarrow> 0 \<le> balance_of s1 (b, h)"
    and t: "row_sum (HolderBalance s1) b = t" "t \<le> total_supply (the (BondConfig s b))"
    and state: "BondState s1 = (BondState s)(b \<mapsto> st\<lparr>total_subscribed := t\<rparr>)"
    and sup: "append_supply_checkpoint s1 b (Suc (version_of s b)) (total_subscribed st) t = Inr s2
      \<or> s2 = s1 \<and> t = total_subscribed st"
  shows "posted s s2 b H"
proof -
  have same: "holder_count s2 = holder_count s1" "holder_entry s2 = holder_entry s1" "holder_log s2 = holder_log s1"
    "balance_of s2 = balance_of s1" "HolderBalance s2 = HolderBalance s1" "BalanceVersion s2 = BalanceVersion s1"
    "BondConfig s2 = BondConfig s1" "BondState s2 = BondState s1"
    using sup append_supply_checkpoint_views [of s1 b _ _ t s2] by auto
  have log: "\<forall>c. c \<noteq> b \<longrightarrow> supply_count s2 c = supply_count s c \<and> supply_entry s2 c = supply_entry s c"
    "log_stored (supply_count s2 b) (supply_entry s2 b)"
    "supply_log s2 b = log_extend (supply_log s b) (total_subscribed st) (Suc (version_of s b)) t
         \<or> t = total_subscribed st \<and> supply_log s2 b = supply_log s b"
  proof -
    have eq: "supply_count s1 = supply_count s" "supply_entry s1 = supply_entry s" using post by (simp_all add: posting_def)
    have stored: "log_stored (supply_count s b) (supply_entry s b)" by (rule ledger_ok_bond(3) [OF ok st])
    show "\<forall>c. c \<noteq> b \<longrightarrow> supply_count s2 c = supply_count s c \<and> supply_entry s2 c = supply_entry s c"
      using sup scp.append_other eq by metis
    show "log_stored (supply_count s2 b) (supply_entry s2 b)"
      using sup scp.append_stored eq stored by metis
    show "supply_log s2 b = log_extend (supply_log s b) (total_subscribed st) (Suc (version_of s b)) t
         \<or> t = total_subscribed st \<and> supply_log s2 b = supply_log s b"
      using sup scp.append_log [of s1 b "Suc (version_of s b)" "total_subscribed st" t s2] eq
      by (auto simp: supply_log_def)
  qed
  show ?thesis
    unfolding posted_def same
  proof (intro conjI)
    show "\<forall>c. c \<noteq> b \<longrightarrow> supply_count s2 c = supply_count s c \<and> supply_entry s2 c = supply_entry s c"
      by (fact log)
    show "\<exists>st st' x. BondState s b = Some st \<and> st' = st\<lparr>total_subscribed := x\<rparr> \<and>
        BondState s1 = (BondState s)(b \<mapsto> st') \<and> x = row_sum (HolderBalance s1) b \<and>
        x \<le> total_supply (the (BondConfig s b)) \<and> log_stored (supply_count s2 b) (supply_entry s2 b) \<and>
        (supply_log s2 b = log_extend (supply_log s b) (total_subscribed st) (Suc (version_of s b)) x
         \<or> x = total_subscribed st \<and> supply_log s2 b = supply_log s b)"
      using st state t log(2,3) by blast
  qed (use post bal t state st in \<open>auto simp: posting_def\<close>)
qed

subsection \<open>Subscription and transfer\<close>

lemma subscribe_effect:
  assumes ok: "ledger_ok s" and run: "subscribe env s h b amount nonce = Inr s'"
  shows "posted s s' b {h}"
    and "\<exists>c st. BondConfig s b = Some c \<and> BondState s b = Some st \<and> status st = Active \<and> 0 < amount \<and>
      total_subscribed st + amount \<le> total_supply c \<and> \<not> configured s b \<and> ledger_timestamp env < maturity_date c \<and>
      BondState s' = (BondState s)(b \<mapsto> st\<lparr>total_subscribed := total_subscribed st + amount\<rparr>)"
    and "HolderBalance s' = (HolderBalance s)((b, h) \<mapsto> balance_of s (b, h) + amount)"
    and "s' = (with_positions s s')\<lparr>Nonce := (Nonce s)(h \<mapsto> Suc nonce), Events := Events s @ [Subscribed b h amount]\<rparr>"
proof -
  let ?x = "balance_of s (b, h) + amount"
  let ?s0 = "s\<lparr>Nonce := (Nonce s)(h \<mapsto> Suc nonce)\<rparr>"
  from run obtain c st s2 v s3 s4 where c: "BondConfig s b = Some c" and st: "BondState s b = Some st" "status st = Active"
    and am: "0 < amount" "total_subscribed st + amount \<le> total_supply c" "\<not> configured s b"
      "ledger_timestamp env < maturity_date c"
    and adv: "advance_balance_version (?s0\<lparr>HolderBalance := (HolderBalance s)((b, h) \<mapsto> ?x),
        BondState := (BondState s)(b \<mapsto> st\<lparr>total_subscribed := total_subscribed st + amount\<rparr>)\<rparr>) b = Inr (s2, v)"
    and hold: "append_holder_checkpoint s2 b h v (balance_of s (b, h)) ?x = Inr s3"
    and sup: "append_supply_checkpoint s3 b v (total_subscribed st) (total_subscribed st + amount) = Inr s4"
    and s': "s' = publish (Subscribed b h amount) s4"
    by (auto simp: subscribe_def contract_simps Let_def balance_of_unwrap not_le not_less
        simp del: advance_balance_version_iff split: prod.splits)
  have le: "total_subscribed st + amount \<le> total_supply (the (BondConfig s b))" using am c by simp
  have "0 \<le> ?x" using ledger_ok_balance [OF ok, of "(b, h)"] am(1) by simp
  then have "posted s s4 b {h}"
    by (intro posted_single [OF ok st(1) _ _ _ adv hold sup _ _ le]) (simp_all add: same_positions_def)
  then show "posted s s' b {h}"
    by (rule same_positions_posted) (simp add: s' publish_def same_positions_def)
  have s2: "s2 = ?s0\<lparr>HolderBalance := (HolderBalance s)((b, h) \<mapsto> ?x),
        BondState := (BondState s)(b \<mapsto> st\<lparr>total_subscribed := total_subscribed st + amount\<rparr>),
        BalanceVersion := (BalanceVersion s)(b \<mapsto> v)\<rparr>"
    using adv by (simp add: advance_balance_version_iff)
  obtain HC HN where s3: "s3 = s2\<lparr>HolderCheckpoint := HC, HolderCheckpointCount := HN\<rparr>"
    using append_holder_checkpoint_frame [OF hold] by blast
  obtain SC SN where s4: "s4 = s3\<lparr>SupplyCheckpoint := SC, SupplyCheckpointCount := SN\<rparr>"
    using append_supply_checkpoint_frame [OF sup] by blast
  show "HolderBalance s' = (HolderBalance s)((b, h) \<mapsto> ?x)"
    "s' = (with_positions s s')\<lparr>Nonce := (Nonce s)(h \<mapsto> Suc nonce), Events := Events s @ [Subscribed b h amount]\<rparr>"
    by (simp_all add: s' s4 s3 s2 publish_def with_positions_def)
  show "\<exists>c st. BondConfig s b = Some c \<and> BondState s b = Some st \<and> status st = Active \<and> 0 < amount \<and>
      total_subscribed st + amount \<le> total_supply c \<and> \<not> configured s b \<and> ledger_timestamp env < maturity_date c \<and>
      BondState s' = (BondState s)(b \<mapsto> st\<lparr>total_subscribed := total_subscribed st + amount\<rparr>)"
    using c st am by (simp add: s' s4 s3 s2 publish_def)
qed

lemma transfer_effect:
  assumes ok: "ledger_ok s" and run: "transfer env s f t b amount nonce = Inr s'"
  shows "posted s s' b {f, t}"
    and "HolderBalance s' = (HolderBalance s)((b, f) \<mapsto> balance_of s (b, f) - amount, (b, t) \<mapsto> balance_of s (b, t) + amount)"
    and "BondState s' = BondState s" "f \<noteq> t" "0 < amount" "amount \<le> balance_of s (b, f)" "f \<in> set (signers env)"
    and "\<exists>st. BondState s b = Some st \<and> status st = Active"
    and "unwrap_or (TransferBlocked s f) False = False" "unwrap_or (TransferBlocked s t) False = False"
    and "s' = (with_positions s s')\<lparr>Nonce := (Nonce s)(f \<mapsto> Suc nonce), Events := Events s @ [Transferred b f t amount]\<rparr>"
proof -
  let ?x = "balance_of s (b, f) - amount" and ?y = "balance_of s (b, t) + amount"
  let ?hb = "(HolderBalance s)((b, f) \<mapsto> ?x, (b, t) \<mapsto> ?y)"
  let ?s1 = "s\<lparr>Nonce := (Nonce s)(f \<mapsto> Suc nonce), HolderBalance := ?hb\<rparr>"
  have valid: "validate_transfer env (s\<lparr>Nonce := (Nonce s)(f \<mapsto> Suc nonce)\<rparr>) f t b amount = Inr ()"
    using run by (auto simp: transfer_def contract_simps)
  then have am: "f \<noteq> t" "0 < amount" "amount \<le> balance_of s (b, f)" "\<exists>st. BondState s b = Some st \<and> status st = Active"
    "unwrap_or (TransferBlocked s f) False = False" "unwrap_or (TransferBlocked s t) False = False"
    by (auto simp: validate_transfer_def contract_simps balance_of_unwrap split: if_splits)
  from run valid am(1) obtain s2 v s3 s4 where sg: "f \<in> set (signers env)"
    and adv: "advance_balance_version ?s1 b = Inr (s2, v)"
    and ap: "append_holder_checkpoint s2 b f v (balance_of s (b, f)) ?x = Inr s3"
      "append_holder_checkpoint s3 b t v (balance_of s (b, t)) ?y = Inr s4"
    and s': "s' = publish (Transferred b f t amount) s4"
    by (auto simp: transfer_def contract_simps Let_def balance_of_unwrap
        simp del: advance_balance_version_iff split: prod.splits)
  have start: "posting s s2 b {}" by (rule posting_start(1) [OF adv]) (simp_all add: position_views fun_eq_iff)
  have v: "v = Suc (version_of s b)" using adv by (simp add: advance_balance_version_iff version_of_def)
  have s2: "s2 = ?s1\<lparr>BalanceVersion := (BalanceVersion s)(b \<mapsto> v)\<rparr>"
    using adv by (simp add: advance_balance_version_iff)
  obtain HC HN where s3: "s3 = s2\<lparr>HolderCheckpoint := HC, HolderCheckpointCount := HN\<rparr>"
    using append_holder_checkpoint_frame [OF ap(1)] by blast
  obtain HC' HN' where s4: "s4 = s3\<lparr>HolderCheckpoint := HC', HolderCheckpointCount := HN'\<rparr>"
    using append_holder_checkpoint_frame [OF ap(2)] by blast
  have bal: "balance_of s2 (b, f) = ?x" "balance_of s3 (b, t) = ?y"
    using am(1) by (simp_all add: s2 s3 balance_of_def)
  have "posting s s3 b {f}"
    using posting_append [OF ok start, of f s3] ap(1) bal(1) v by simp
  then have post: "posting s s4 b {t, f}"
    using posting_append [OF ok, of s3 b "{f}" t s4] ap(2) bal(2) v am(1) by simp
  obtain st where st: "BondState s b = Some st" "status st = Active" using am(4) by blast
  have hb: "HolderBalance s4 = ?hb" "BondState s4 = BondState s" by (simp_all add: s4 s3 s2)
  have fin: "finite (dom (HolderBalance s))" by (rule ledger_okD(3) [OF ok])
  have "row_sum ?hb b = row_sum (HolderBalance s) b"
    using am(1) fin by (simp add: row_sum_upd balance_of_def)
  then have sum: "row_sum (HolderBalance s4) b = total_subscribed st" by (simp add: hb ledger_ok_bond(2) [OF ok st(1)])
  have "posted s s4 b {t, f}"
  proof (rule posting_posted [OF ok post st(1) _ _ _ sum])
    show "total_subscribed st \<le> total_supply (the (BondConfig s b))" using ledger_ok_bond(1) [OF ok st(1)] by auto
  qed (use fin st am ledger_ok_balance [OF ok] in \<open>auto simp: hb balance_of_def\<close>)
  then have "posted s s' b {t, f}"
    by (rule same_positions_posted) (simp add: s' publish_def same_positions_def)
  then show "posted s s' b {f, t}" by (simp add: insert_commute)
  show "HolderBalance s' = ?hb" "BondState s' = BondState s"
    "s' = (with_positions s s')\<lparr>Nonce := (Nonce s)(f \<mapsto> Suc nonce), Events := Events s @ [Transferred b f t amount]\<rparr>"
    by (simp_all add: s' s4 s3 s2 publish_def with_positions_def)
  show "f \<noteq> t" "0 < amount" "amount \<le> balance_of s (b, f)" "f \<in> set (signers env)"
    "\<exists>st. BondState s b = Some st \<and> status st = Active"
    "unwrap_or (TransferBlocked s f) False = False" "unwrap_or (TransferBlocked s t) False = False"
    by (fact am sg)+
qed

subsection \<open>Issuance and maturity\<close>

text \<open>The issued bonds are numbered from one.\<close>

definition ids_ok :: "issuer \<Rightarrow> bool" where
  "ids_ok s \<longleftrightarrow> (\<forall>b. BondState s b \<noteq> None \<longleftrightarrow> 0 < b \<and> b \<le> bond_count s)"

text \<open>
  The committed ranges of a project and vintage are those of its bonds, in the order
  of issuance, and they are disjoint.
\<close>

definition disjoint_ranges :: "serial_range list \<Rightarrow> bool" where
  "disjoint_ranges rs \<longleftrightarrow> (\<forall>r\<in>set rs. range_start r \<le> range_end r) \<and>
     sorted_wrt (\<lambda>r q. range_end r < range_start q \<or> range_end q < range_start r) rs"

definition bond_range :: "bond_config \<Rightarrow> serial_range" where
  "bond_range c = \<lparr>range_start = serial_number_start c, range_end = serial_number_end c\<rparr>"

definition bonds_of :: "issuer \<Rightarrow> bytes \<times> nat \<Rightarrow> nat list" where
  "bonds_of s k = filter (\<lambda>b. map_option (\<lambda>c. (project_id c, credit_vintage c)) (BondConfig s b) = Some k)
     [1..<Suc (bond_count s)]"

definition ranges_ok :: "issuer \<Rightarrow> bool" where
  "ranges_ok s \<longleftrightarrow> (\<forall>k. disjoint_ranges (unwrap_or (CommittedRanges s k) []) \<and>
     unwrap_or (CommittedRanges s k) [] = map (\<lambda>b. bond_range (the (BondConfig s b))) (bonds_of s k))"

lemma ranges_ok_cong:
  assumes "CommittedRanges s' = CommittedRanges s" "BondCount s' = BondCount s" "BondConfig s' = BondConfig s"
  shows "ranges_ok s' = ranges_ok s"
  by (simp add: ranges_ok_def bonds_of_def bond_count_def assms)

lemma overlaps_iff:
  "a \<le> b \<Longrightarrow> range_start r \<le> range_end r \<Longrightarrow>
     overlaps a b r \<longleftrightarrow> \<not> (range_end r < a \<or> b < range_start r)"
  by (auto simp: overlaps_def Let_def)

lemma issue_bond_effect:
  assumes "issue_bond host env s w caller config nonce = Inr (s', b)"
  shows "b = Suc (bond_count s)" "config_ok config" "caller \<in> set (signers env)" "Admin s = Some caller"
    "serial_number_start config \<le> serial_number_end config"
    "\<forall>r\<in>set (unwrap_or (CommittedRanges s (project_id config, credit_vintage config)) []).
       \<not> overlaps (serial_number_start config) (serial_number_end config) r"
    "s' = publish (BondIssued b (project_id config)) (s\<lparr>Nonce := (Nonce s)(caller \<mapsto> Suc nonce),
       CommittedRanges := (CommittedRanges s)((project_id config, credit_vintage config) \<mapsto>
         unwrap_or (CommittedRanges s (project_id config, credit_vintage config)) [] @
         [\<lparr>range_start = serial_number_start config, range_end = serial_number_end config\<rparr>]),
       BondCount := Some b, BondConfig := (BondConfig s)(b \<mapsto> config),
       BondState := (BondState s)(b \<mapsto> \<lparr>total_subscribed = 0, status = Active, created_at = ledger_timestamp env\<rparr>),
       BalanceVersion := (BalanceVersion s)(b \<mapsto> 0),
       SupplyCheckpoint := (SupplyCheckpoint s)((b, 0) \<mapsto> \<lparr>sp_version = 0, sp_total_subscribed = 0\<rparr>),
       SupplyCheckpointCount := (SupplyCheckpointCount s)(b \<mapsto> 1)\<rparr>)"
  using assms
  by (auto simp: issue_bond_def contract_simps Let_def require_admin_def bond_count_def config_ok_def not_le not_less
      split: if_splits)

lemma issue_bond_ranges_ok:
  assumes "issue_bond host env s w caller config nonce = Inr (s', b)" "ranges_ok s"
  shows "ranges_ok s'"
  unfolding ranges_ok_def
proof
  fix k
  note eff = issue_bond_effect [OF assms(1)]
  let ?k = "(project_id config, credit_vintage config)"
  have old: "disjoint_ranges (unwrap_or (CommittedRanges s j) [])"
    "unwrap_or (CommittedRanges s j) [] = map (\<lambda>b. bond_range (the (BondConfig s b))) (bonds_of s j)" for j
    using assms(2) unfolding ranges_ok_def by blast+
  have ranges: "unwrap_or (CommittedRanges s' k) [] =
      unwrap_or (CommittedRanges s k) [] @ (if k = ?k then [bond_range config] else [])"
    by (simp add: eff(7) publish_def bond_range_def)
  have "bonds_of s' k = bonds_of s k @ (if k = ?k then [b] else [])"
    unfolding bonds_of_def using eff(1) by (auto simp: eff(7) publish_def bond_count_def intro!: filter_cong)
  then have "map (\<lambda>b. bond_range (the (BondConfig s' b))) (bonds_of s' k) =
      map (\<lambda>b. bond_range (the (BondConfig s b))) (bonds_of s k) @ (if k = ?k then [bond_range config] else [])"
    using eff(1) by (auto simp: eff(7) publish_def bonds_of_def)
  moreover have "disjoint_ranges (unwrap_or (CommittedRanges s' k) [])"
    using old(1) [of k] eff(5,6) overlaps_iff [OF eff(5)] unfolding ranges
    by (auto simp: disjoint_ranges_def sorted_wrt_append bond_range_def)
  ultimately show "disjoint_ranges (unwrap_or (CommittedRanges s' k) []) \<and>
     unwrap_or (CommittedRanges s' k) [] = map (\<lambda>b. bond_range (the (BondConfig s' b))) (bonds_of s' k)"
    using old(2) [of k] ranges by simp
qed

lemma issue_bond_ids_ok:
  assumes "issue_bond host env s w caller config nonce = Inr (s', b)" "ids_ok s"
  shows "ids_ok s'" "BondState s b = None"
proof -
  note eff = issue_bond_effect(1,7) [OF assms(1)]
  have old: "BondState s c \<noteq> None \<longleftrightarrow> 0 < c \<and> c \<le> bond_count s" for c using assms(2) by (simp add: ids_ok_def)
  show "BondState s b = None" using old [of b] eff(1) by auto
  have "bond_count s' = b" "BondState s' c \<noteq> None \<longleftrightarrow> c = b \<or> BondState s c \<noteq> None" for c
    by (auto simp: eff(2) publish_def bond_count_def)
  then show "ids_ok s'" using old eff(1) by (auto simp: ids_ok_def le_Suc_eq)
qed

lemma issue_bond_ledger_ok:
  assumes run: "issue_bond host env s w caller config nonce = Inr (s', b)" and ok: "ledger_ok s" "BondState s b = None"
  shows "ledger_ok s'" "extends s s'" "HolderBalance s' = HolderBalance s"
proof -
  note eff = issue_bond_effect [OF run]
  have fresh: "HolderBalance s (b, h) = None" "holder_count s (b, h) = 0" for h
    using ledger_okD(2) [OF ok(1), of b] ok(2) by (auto simp: bond_ok_def)
  show hb: "HolderBalance s' = HolderBalance s" by (simp add: eff(7) publish_def)
  have views: "holder_count s' = holder_count s" "holder_entry s' = holder_entry s" "balance_of s' = balance_of s"
    by (rule ext, simp add: eff(7) publish_def position_views fun_eq_iff)+
  have hlog: "holder_log s' = holder_log s" by (rule ext) (simp add: holder_log_def views)
  have other: "supply_count s' c = supply_count s c" "supply_entry s' c = supply_entry s c"
    "version_of s' c = version_of s c" "BondState s' c = BondState s c" "BondConfig s' c = BondConfig s c" if "c \<noteq> b" for c
    using that by (simp_all add: eff(7) publish_def position_views fun_eq_iff)
  have slog: "supply_log s' c = supply_log s c" if "c \<noteq> b" for c using other [OF that] by (simp add: supply_log_def)
  have new: "supply_count s' b = 1" "supply_entry s' b 0 = Some (0, 0)" "version_of s' b = 0"
    "BondConfig s' b = Some config" "\<exists>st. BondState s' b = Some st \<and> total_subscribed st = 0"
    by (simp_all add: eff(7) publish_def position_views)
  have "holder_ok s' k" for k
  proof (cases "fst k = b")
    case True
    then obtain h where k: "k = (b, h)" by (cases k) auto
    then show ?thesis using fresh [of h]
      by (simp add: holder_ok_def views hlog holder_log_def log_of_def log_ok_def log_stored_def balance_of_def value_of_def hb)
  next
    case False
    then show ?thesis using ledger_okD(1) [OF ok(1), of k] other(3) [OF False] by (simp add: holder_ok_def views hlog)
  qed
  moreover have "bond_ok s' c" for c
  proof (cases "c = b")
    case True
    have "row_sum (HolderBalance s) b = 0" using fresh(1) by (rule row_sum_fresh)
    then show ?thesis using new eff(2) True
      by (auto simp: bond_ok_def hb config_ok_def supply_log_def log_of_def log_ok_def log_stored_def)
  next
    case False
    have "bond_ok s' c = bond_ok s c"
      unfolding bond_ok_def by (simp only: other [OF False] slog [OF False] hb views)
    then show ?thesis using ledger_okD(2) [OF ok(1)] by simp
  qed
  ultimately show "ledger_ok s'" using ledger_okD(3) [OF ok(1)] by (simp add: ledger_ok_def hb)
  show "extends s s'"
    unfolding extends_def
  proof (intro allI impI)
    fix c assume c: "BondState s c \<noteq> None"
    then have "c \<noteq> b" using ok(2) by auto
    then show "BondState s' c \<noteq> None \<and> version_of s c \<le> version_of s' c \<and>
      (\<forall>v\<le>version_of s c. (\<forall>h. history s' c v h = history s c v h) \<and> supply_history s' c v = supply_history s c v)"
      using c other [of c] slog [of c] by (simp add: history_def supply_history_def views hlog)
  qed
qed

lemma mature_bond_effect:
  assumes "mature_bond env s caller b nonce = Inr s'"
  obtains c st where "BondConfig s b = Some c" "BondState s b = Some st" "status st = Active"
    "maturity_date c \<le> ledger_timestamp env" "Admin s = Some caller" "caller \<in> set (signers env)"
    "s' = publish (BondMatured b) (s\<lparr>Nonce := (Nonce s)(caller \<mapsto> Suc nonce),
       BondState := (BondState s)(b \<mapsto> st\<lparr>status := Matured\<rparr>)\<rparr>)"
  using assms by (auto simp: mature_bond_def contract_simps require_admin_def not_less split: if_splits)

lemma status_ledger_ok:
  assumes "ledger_ok s" "BondState s b = Some st" "same_positions (s\<lparr>BondState := (BondState s)(b \<mapsto> st\<lparr>status := x\<rparr>)\<rparr>) s'"
  shows "ledger_ok s'" "extends s s'"
proof -
  define s1 where "s1 = s\<lparr>BondState := (BondState s)(b \<mapsto> st\<lparr>status := x\<rparr>)\<rparr>"
  have views: "holder_count s1 = holder_count s" "holder_entry s1 = holder_entry s" "balance_of s1 = balance_of s"
    "supply_count s1 = supply_count s" "supply_entry s1 = supply_entry s" "version_of s1 = version_of s"
    by (rule ext, simp add: s1_def position_views fun_eq_iff)+
  have logs: "holder_log s1 = holder_log s" "supply_log s1 = supply_log s"
    by (rule ext, simp add: views holder_log_def supply_log_def)+
  have fields: "BondState s1 = (BondState s)(b \<mapsto> st\<lparr>status := x\<rparr>)" "BondConfig s1 = BondConfig s"
    "HolderBalance s1 = HolderBalance s" by (simp_all add: s1_def)
  have "bond_ok s1 c" for c
    using ledger_okD(2) [OF assms(1), of c] assms(2)
    by (cases "c = b"; cases "BondState s c") (simp_all add: bond_ok_def views logs fields)
  moreover have "holder_ok s1 k" for k
    using ledger_okD(1) [OF assms(1), of k] by (simp add: holder_ok_def views logs)
  ultimately have "ledger_ok s1" using ledger_okD(3) [OF assms(1)] by (simp add: ledger_ok_def fields)
  then show "ledger_ok s'" using assms(3) unfolding s1_def by (rule same_positions_ledger_ok [rotated])
  have "extends s s1"
    using assms(2) by (auto simp: extends_def views history_def supply_history_def logs fields)
  then show "extends s s'" using assms(3) unfolding s1_def by (blast intro: extends_trans same_positions_extends)
qed

subsection \<open>What the queue leaves alone\<close>

definition same_book :: "issuer \<Rightarrow> issuer \<Rightarrow> bool" where
  "same_book s s' \<longleftrightarrow> CommittedRanges s' = CommittedRanges s \<and> BondCount s' = BondCount s \<and>
     SubscriptionAuctionRequired s' = SubscriptionAuctionRequired s \<and> SubscriptionAuction s' = SubscriptionAuction s \<and>
     SubscriptionIdentity s' = SubscriptionIdentity s \<and> Admin s' = Admin s"

lemma same_book_refl: "same_book s s"
  by (simp add: same_book_def)

lemma same_book_trans: "same_book s s' \<Longrightarrow> same_book s' s'' \<Longrightarrow> same_book s s''"
  by (simp add: same_book_def)

lemma settle_redemption_book:
  assumes "settle_redemption s h b amount = Inr s'"
  shows "same_book s s'"
proof -
  from assms obtain s1 s2 v s3 s4 p x y where run: "append_holder_checkpoint s2 b h v p x = Inr s3"
      "append_supply_checkpoint s3 b v y (y - amount) = Inr s4"
    and eq: "same_book s s2" "same_book s4 s'"
    by (auto simp: settle_redemption_def contract_simps Let_def same_book_def publish_def)
  have "same_book s2 s3" "same_book s3 s4"
    by (subst append_holder_checkpoint_frame [OF run(1)], simp add: same_book_def)
       (subst append_supply_checkpoint_frame [OF run(2)], simp add: same_book_def)
  with eq show ?thesis by (blast intro: same_book_trans)
qed

lemma process_loop_book:
  "process_loop n b c bd tail u hp k s = Inr out \<Longrightarrow> same_book s (fst out)"
proof (induction n arbitrary: u hp k s)
  case 0
  then show ?case by (auto simp: same_book_refl)
next
  case (Suc n)
  show ?case
  proof (cases "out = (s, u, hp, k)")
    case False
    then have live: "\<not> (hp = 0 \<or> hp > tail)" using Suc.prems by (cases "hp = 0 \<or> hp > tail") auto
    then obtain r where r: "RedemptionRequest s (b, hp) = Some r"
      using Suc.prems by (cases "RedemptionRequest s (b, hp)") (auto simp: Let_def contract_simps)
    define amount where "amount =
      min (rq_remaining r) (min (unwrap_or (RedemptionPool s b) 0) (principal_per_cycle bd - cy_paid u) sdiv face_value c)"
    have pos: "\<not> amount \<le> 0"
    proof
      assume "amount \<le> 0"
      then show False using Suc.prems False live r by (auto simp: Let_def contract_simps amount_def [symmetric])
    qed
    obtain s1 where step: "settle_redemption s (rq_holder r) b amount = Inr s1"
      "(let u' = u\<lparr>cy_paid := cy_paid u + amount * face_value c\<rparr>; s' = after_payment b c hp r amount s1 in
        if rq_remaining r - amount \<noteq> 0 then out = (s', u', hp, k)
        else process_loop n b c bd tail u' (Suc hp) (Suc k) s' = Inr out)"
      using Suc.prems live r pos
      by (auto simp: contract_simps Let_def after_payment_def amount_def [symmetric] split: if_splits)
    have "same_book s1 (after_payment b c hp r amount s1)"
      by (simp add: same_book_def after_payment_def publish_def)
    moreover have "same_book (after_payment b c hp r amount s1) (fst out)"
      using step(2) Suc.IH same_book_refl by (auto simp: Let_def split: if_splits)
    ultimately show ?thesis using settle_redemption_book [OF step(1)] by (blast intro: same_book_trans)
  qed (simp add: same_book_refl)
qed

lemma process_book:
  assumes "process env s b limit = Inr (s', k)"
  shows "same_book s s'"
  using assms
  by (auto simp: process_def contract_simps Let_def same_book_def dest!: process_loop_book)

lemma enqueue_book:
  assumes "enqueue env s h b amount key nonce = Inr (s', i)"
  shows "same_book s s'"
proof (cases "RedemptionId s (b, h, key)")
  case None
  then show ?thesis using enqueue_new(6) [OF assms None] by (simp add: same_book_def publish_def)
qed (use assms in \<open>auto simp: enqueue_def same_book_def split: if_splits prod.splits\<close>)

end
