(* ===== verification/Issuer_Escrow.thy ===== *)
theory Issuer_Escrow
  imports Issuer_Operations
begin

text \<open>
  The subscription auction as an escrow: the laws of a settlement token, the
  invariant of an auction's book, and what a commitment and a settlement do to the
  book, to the positions and to the token balances.
\<close>

subsection \<open>Settlement tokens\<close>

text \<open>
  A token moves exactly the amount of a transfer from one balance to another, and a
  balance is an \<open>i128\<close>. An open token refuses a transfer only for lack of funds or of room.
\<close>

locale token_contract =
  fixes move :: "'w token_move" and balance :: "'w \<Rightarrow> address \<Rightarrow> address \<Rightarrow> int"
  assumes move_balance: "move w t a b x = Some w' \<Longrightarrow>
      balance w' u c = balance w u c + (if u = t \<and> c = b then x else 0) - (if u = t \<and> c = a then x else 0)"
    and move_fits: "move w t a b x = Some w' \<Longrightarrow> i128 (balance w' t b)"
begin

lemma move_out:
  assumes "move w t self a x = Some w'" "a \<noteq> self"
  shows "balance w' t self = balance w t self - x" "u \<noteq> t \<Longrightarrow> balance w' u c = balance w u c"
    "c \<noteq> self \<Longrightarrow> balance w' t c = balance w t c + (if c = a then x else 0)"
  using move_balance [OF assms(1)] assms(2) by simp_all

text \<open>What the refunds of a settlement move.\<close>

lemma credit_orders_balance:
  assumes "credit_orders move env t b v orders s st w = Inr (s', st', w')"
    and "current_contract_address env \<notin> or_wallet ` set orders" "\<forall>ord\<in>set orders. 0 \<le> or_refunded ord"
  shows "balance w' t (current_contract_address env) =
        balance w t (current_contract_address env) - (\<Sum>ord\<leftarrow>orders. or_refunded ord)"
    and "c \<noteq> current_contract_address env \<Longrightarrow> balance w' t c =
        balance w t c + (\<Sum>ord\<leftarrow>filter (\<lambda>ord. or_wallet ord = c) orders. or_refunded ord)"
    and "u \<noteq> t \<Longrightarrow> balance w' u c = balance w u c"
proof -
  let ?self = "current_contract_address env"
  have "balance w' t ?self = balance w t ?self - (\<Sum>ord\<leftarrow>orders. or_refunded ord) \<and>
    (c \<noteq> ?self \<longrightarrow> balance w' t c =
        balance w t c + (\<Sum>ord\<leftarrow>filter (\<lambda>ord. or_wallet ord = c) orders. or_refunded ord)) \<and>
    (u \<noteq> t \<longrightarrow> balance w' u c = balance w u c)"
    using assms
  proof (induction orders arbitrary: s st w)
    case (Cons ord orders)
    obtain s1 st1 w1 where step: "if or_refunded ord > 0 then move w t ?self (or_wallet ord) (or_refunded ord) = Some w1 else w1 = w"
        "credit_orders move env t b v orders s1 st1 w1 = Inr (s', st', w')"
      using Cons.prems(1) by (auto simp: contract_simps split: if_splits)
    have ord: "or_wallet ord \<noteq> ?self" "0 \<le> or_refunded ord" using Cons.prems(2,3) by auto
    have "balance w1 t ?self = balance w t ?self - or_refunded ord \<and>
      (c \<noteq> ?self \<longrightarrow> balance w1 t c = balance w t c + (if or_wallet ord = c then or_refunded ord else 0)) \<and>
      (u \<noteq> t \<longrightarrow> balance w1 u c = balance w u c)"
      using step(1) ord move_out [of w t ?self "or_wallet ord" "or_refunded ord" w1] by (auto split: if_splits)
    moreover note Cons.IH [OF step(2)]
    ultimately show ?case using Cons.prems(2,3) by auto
  qed simp
  then show "balance w' t ?self = balance w t ?self - (\<Sum>ord\<leftarrow>orders. or_refunded ord)"
    "c \<noteq> ?self \<Longrightarrow> balance w' t c =
        balance w t c + (\<Sum>ord\<leftarrow>filter (\<lambda>ord. or_wallet ord = c) orders. or_refunded ord)"
    "u \<noteq> t \<Longrightarrow> balance w' u c = balance w u c" by auto
qed

end

locale open_token = token_contract +
  assumes move_pays: "0 \<le> x \<Longrightarrow> x \<le> balance w t a \<Longrightarrow> i128 (balance w t b + x) \<Longrightarrow>
      \<exists>w'. move w t a b x = Some w'"

text \<open>A ledger of coins is such a token.\<close>

definition coin_balance :: "(address \<times> address \<Rightarrow> int) \<Rightarrow> address \<Rightarrow> address \<Rightarrow> int" where
  "coin_balance w t a = w (t, a)"

definition coin_move :: "(address \<times> address \<Rightarrow> int) token_move" where
  "coin_move w t a b x =
     (if 0 \<le> x \<and> x \<le> w (t, a) \<and> i128 (w (t, b) + x) then
        let w = w((t, a) := w (t, a) - x) in Some (w((t, b) := w (t, b) + x))
      else None)"

interpretation coin: open_token coin_move coin_balance
proof
  show "coin_balance w' u c = coin_balance w u c + (if u = t \<and> c = b then x else 0) - (if u = t \<and> c = a then x else 0)"
    if "coin_move w t a b x = Some w'" for w t a b x w' u c
    using that by (auto simp: coin_move_def coin_balance_def Let_def split: if_splits)
  show "i128 (coin_balance w' t b)" if "coin_move w t a b x = Some w'" for w t a b x w'
    using that by (auto simp: coin_move_def coin_balance_def Let_def i128_def i128_min_def split: if_splits)
  show "\<exists>w'. coin_move w t a b x = Some w'"
    if "0 \<le> x" "x \<le> coin_balance w t a" "i128 (coin_balance w t b + x)" for x w t a b
    using that by (simp add: coin_move_def coin_balance_def)
qed

subsection \<open>Crediting the orders\<close>

definition credited :: "auction_order list \<Rightarrow> address set" where
  "credited orders = or_wallet ` {ord \<in> set orders. 0 < or_allocated ord}"

lemma credited_simps [simp]:
  "credited [] = {}"
  "credited (ord # orders) = (if 0 < or_allocated ord then insert (or_wallet ord) (credited orders) else credited orders)"
  by (auto simp: credited_def)

lemma credited_wallet: "h \<in> credited orders \<Longrightarrow> h \<in> or_wallet ` set orders"
  by (auto simp: credited_def)

text \<open>One order: its holder is posted, or nothing changes.\<close>

lemma credit_order_posting:
  assumes ok: "ledger_ok s0" and post: "posting s0 s b H" and h: "h \<notin> H" "HolderBalance s (b, h) = HolderBalance s0 (b, h)"
    and run: "append_holder_checkpoint (s\<lparr>HolderBalance := (HolderBalance s)((b, h) \<mapsto> balance_of s (b, h) + x)\<rparr>)
      b h (Suc (version_of s0 b)) (balance_of s (b, h)) (balance_of s (b, h) + x) = Inr s1"
  shows "posting s0 s1 b (insert h H)"
    "HolderBalance s1 = (HolderBalance s)((b, h) \<mapsto> balance_of s (b, h) + x)"
    "\<exists>B C N. s1 = s\<lparr>HolderBalance := B, HolderCheckpoint := C, HolderCheckpointCount := N\<rparr>"
proof -
  let ?s = "s\<lparr>HolderBalance := (HolderBalance s)((b, h) \<mapsto> balance_of s (b, h) + x)\<rparr>"
  have same: "balance_of s (b, h) = balance_of s0 (b, h)" using h(2) by (simp add: balance_of_def value_of_def)
  have "balance_of ?s (b, h) = balance_of s (b, h) + x" by (simp add: balance_of_def)
  then show "posting s0 s1 b (insert h H)"
    using posting_append [OF ok posting_balance [OF post h(1), of "balance_of s (b, h) + x"] h(1), of s1] run same by simp
  obtain C N where s1: "s1 = ?s\<lparr>HolderCheckpoint := C, HolderCheckpointCount := N\<rparr>"
    using append_holder_checkpoint_frame [OF run] by blast
  show "HolderBalance s1 = (HolderBalance s)((b, h) \<mapsto> balance_of s (b, h) + x)" by (simp add: s1)
  show "\<exists>B C N. s1 = s\<lparr>HolderBalance := B, HolderCheckpoint := C, HolderCheckpointCount := N\<rparr>"
    unfolding s1 by blast
qed

lemma credit_orders_Cons:
  assumes "credit_orders tr env t b v (ord # orders) s st w = Inr (s', st', w')"
  obtains s1 st1 w1 where "credit_orders tr env t b v orders s1 st1 w1 = Inr (s', st', w')"
    "if 0 < or_allocated ord then
       append_holder_checkpoint (s\<lparr>HolderBalance := (HolderBalance s)((b, or_wallet ord) \<mapsto> balance_of s (b, or_wallet ord) + or_allocated ord)\<rparr>)
         b (or_wallet ord) v (balance_of s (b, or_wallet ord)) (balance_of s (b, or_wallet ord) + or_allocated ord) = Inr s1 \<and>
       st1 = st\<lparr>total_subscribed := total_subscribed st + or_allocated ord\<rparr>
     else s1 = s \<and> st1 = st"
    "if 0 < or_refunded ord then tr w t (current_contract_address env) (or_wallet ord) (or_refunded ord) = Some w1 else w1 = w"
  using assms by (auto simp: contract_simps Let_def balance_of_unwrap split: if_splits)

lemma credit_orders_posting:
  assumes ok: "ledger_ok s0" and run: "credit_orders tr env t b (Suc (version_of s0 b)) orders s st w = Inr (s', st', w')"
    and post: "posting s0 s b H" and wal: "distinct (map or_wallet orders)" "or_wallet ` set orders \<inter> H = {}"
    and bal: "\<forall>h. h \<notin> H \<longrightarrow> HolderBalance s (b, h) = HolderBalance s0 (b, h)"
    and nn: "\<forall>ord\<in>set orders. 0 \<le> or_allocated ord"
  shows "posting s0 s' b (H \<union> credited orders) \<and>
     (\<forall>k. k \<notin> {b} \<times> credited orders \<longrightarrow> HolderBalance s' k = HolderBalance s k) \<and>
     (\<forall>ord\<in>set orders. balance_of s' (b, or_wallet ord) = balance_of s (b, or_wallet ord) + or_allocated ord) \<and>
     (finite (dom (HolderBalance s)) \<longrightarrow> finite (dom (HolderBalance s')) \<and>
        row_sum (HolderBalance s') b = row_sum (HolderBalance s) b + (\<Sum>ord\<leftarrow>orders. or_allocated ord)) \<and>
     st' = st\<lparr>total_subscribed := total_subscribed st + (\<Sum>ord\<leftarrow>orders. or_allocated ord)\<rparr> \<and>
     (\<exists>B C N. s' = s\<lparr>HolderBalance := B, HolderCheckpoint := C, HolderCheckpointCount := N\<rparr>)"
  using run post wal bal nn
proof (induction orders arbitrary: s st w H)
  case Nil
  then show ?case by (auto intro!: exI [of _ "HolderBalance s"] exI [of _ "HolderCheckpoint s"] exI [of _ "HolderCheckpointCount s"])
next
  case (Cons ord orders)
  let ?h = "or_wallet ord" and ?x = "or_allocated ord"
  obtain s1 st1 w1 where rest: "credit_orders tr env t b (Suc (version_of s0 b)) orders s1 st1 w1 = Inr (s', st', w')"
    and step: "if 0 < ?x then
       append_holder_checkpoint (s\<lparr>HolderBalance := (HolderBalance s)((b, ?h) \<mapsto> balance_of s (b, ?h) + ?x)\<rparr>)
         b ?h (Suc (version_of s0 b)) (balance_of s (b, ?h)) (balance_of s (b, ?h) + ?x) = Inr s1 \<and>
       st1 = st\<lparr>total_subscribed := total_subscribed st + ?x\<rparr>
     else s1 = s \<and> st1 = st"
    by (rule credit_orders_Cons [OF Cons.prems(1)]) (rule that)
  have h: "?h \<notin> H" "?h \<notin> or_wallet ` set orders" using Cons.prems(3,4) by auto
  then have fresh: "?h \<notin> credited orders" using credited_wallet by blast
  define H1 where "H1 = (if 0 < ?x then insert ?h H else H)"
  have s1: "posting s0 s1 b H1" "HolderBalance s1 = (if 0 < ?x then (HolderBalance s)((b, ?h) \<mapsto> balance_of s (b, ?h) + ?x) else HolderBalance s)"
    "\<exists>B C N. s1 = s\<lparr>HolderBalance := B, HolderCheckpoint := C, HolderCheckpointCount := N\<rparr>"
    "st1 = st\<lparr>total_subscribed := total_subscribed st + ?x\<rparr>"
  proof -
    have hb: "HolderBalance s (b, ?h) = HolderBalance s0 (b, ?h)" using Cons.prems(5) h(1) by simp
    have "?x = 0" if "\<not> 0 < ?x" using that Cons.prems(6) by force
    moreover have "\<exists>B C N. s = s\<lparr>HolderBalance := B, HolderCheckpoint := C, HolderCheckpointCount := N\<rparr>"
      by (intro exI [of _ "HolderBalance s"] exI [of _ "HolderCheckpoint s"] exI [of _ "HolderCheckpointCount s"]) simp
    ultimately show "posting s0 s1 b H1"
      "HolderBalance s1 = (if 0 < ?x then (HolderBalance s)((b, ?h) \<mapsto> balance_of s (b, ?h) + ?x) else HolderBalance s)"
      "\<exists>B C N. s1 = s\<lparr>HolderBalance := B, HolderCheckpoint := C, HolderCheckpointCount := N\<rparr>"
      "st1 = st\<lparr>total_subscribed := total_subscribed st + ?x\<rparr>"
      using step Cons.prems(2) credit_order_posting [OF ok Cons.prems(2) h(1) hb, of ?x s1]
      by (auto simp: H1_def split: if_splits)
  qed
  have bal1: "balance_of s1 (b, g) = balance_of s (b, g) + (if g = ?h then ?x else 0)" for g
    using s1(2) Cons.prems(6) by (auto simp: balance_of_def value_of_def split: if_splits)
  have "or_wallet ` set orders \<inter> H1 = {}" using h(2) Cons.prems(4) by (auto simp: H1_def)
  moreover have "\<forall>g. g \<notin> H1 \<longrightarrow> HolderBalance s1 (b, g) = HolderBalance s0 (b, g)"
    using Cons.prems(5) s1(2) by (auto simp: H1_def split: if_splits)
  ultimately have IH: "posting s0 s' b (H1 \<union> credited orders)"
     "\<forall>k. k \<notin> {b} \<times> credited orders \<longrightarrow> HolderBalance s' k = HolderBalance s1 k"
     "\<forall>ord\<in>set orders. balance_of s' (b, or_wallet ord) = balance_of s1 (b, or_wallet ord) + or_allocated ord"
     "finite (dom (HolderBalance s1)) \<longrightarrow> finite (dom (HolderBalance s')) \<and>
        row_sum (HolderBalance s') b = row_sum (HolderBalance s1) b + (\<Sum>ord\<leftarrow>orders. or_allocated ord)"
     "st' = st1\<lparr>total_subscribed := total_subscribed st1 + (\<Sum>ord\<leftarrow>orders. or_allocated ord)\<rparr>"
     "\<exists>B C N. s' = s1\<lparr>HolderBalance := B, HolderCheckpoint := C, HolderCheckpointCount := N\<rparr>"
    using Cons.IH [OF rest s1(1)] Cons.prems(3,6) by auto
  show ?case
  proof (intro conjI)
    show "posting s0 s' b (H \<union> credited (ord # orders))" using IH(1) by (simp add: H1_def split: if_splits)
    show "\<forall>k. k \<notin> {b} \<times> credited (ord # orders) \<longrightarrow> HolderBalance s' k = HolderBalance s k"
      using IH(2) s1(2) by (auto split: if_splits)
    have "HolderBalance s' (b, ?h) = HolderBalance s1 (b, ?h)" using IH(2) fresh by simp
    then have "balance_of s' (b, ?h) = balance_of s1 (b, ?h)" by (simp add: balance_of_def value_of_def)
    moreover have "or_wallet o' \<noteq> ?h" if "o' \<in> set orders" for o' using h(2) that by (metis imageI)
    ultimately show "\<forall>o'\<in>set (ord # orders). balance_of s' (b, or_wallet o') = balance_of s (b, or_wallet o') + or_allocated o'"
      using IH(3) bal1 by simp
    show "finite (dom (HolderBalance s)) \<longrightarrow> finite (dom (HolderBalance s')) \<and>
        row_sum (HolderBalance s') b = row_sum (HolderBalance s) b + (\<Sum>ord\<leftarrow>ord # orders. or_allocated ord)"
      using IH(4) s1(2) Cons.prems(6) by (auto simp: row_sum_upd balance_of_def split: if_splits)
    show "st' = st\<lparr>total_subscribed := total_subscribed st + (\<Sum>ord\<leftarrow>ord # orders. or_allocated ord)\<rparr>"
      using IH(5) s1(4) by (simp add: add.assoc)
    show "\<exists>B C N. s' = s\<lparr>HolderBalance := B, HolderCheckpoint := C, HolderCheckpointCount := N\<rparr>"
    proof -
      obtain B C N where e1: "s1 = s\<lparr>HolderBalance := B, HolderCheckpoint := C, HolderCheckpointCount := N\<rparr>"
        using s1(3) by blast
      obtain B' C' N' where e2: "s' = s1\<lparr>HolderBalance := B', HolderCheckpoint := C', HolderCheckpointCount := N'\<rparr>"
        using IH(6) by blast
      have "s' = s\<lparr>HolderBalance := B', HolderCheckpoint := C', HolderCheckpointCount := N'\<rparr>" by (simp add: e1 e2)
      then show ?thesis by blast
    qed
  qed
qed

subsection \<open>The book of an auction\<close>

text \<open>
  The invariant of an auction that is still open, for the contract at address
  \<open>self\<close>: at most 32 admitted wallets, one order for a wallet with the identity it
  was admitted under, no identity above the cap, and a committed capital that is an
  amount of the token.
\<close>

definition order_ok :: "issuer \<Rightarrow> nat \<Rightarrow> auction_order \<Rightarrow> bool" where
  "order_ok s b ord \<longleftrightarrow> SubscriptionIdentity s (b, or_wallet ord) = Some (or_identity ord) \<and> 0 < or_requested ord"

definition committed_units :: "auction_state \<Rightarrow> int" where
  "committed_units a = (\<Sum>ord\<leftarrow>au_orders a. or_requested ord)"

definition auction_open :: "issuer \<Rightarrow> nat \<Rightarrow> auction_state \<Rightarrow> bool" where
  "auction_open s b a \<longleftrightarrow> distinct (map or_wallet (au_orders a)) \<and> (\<forall>ord\<in>set (au_orders a). order_ok s b ord) \<and>
     (\<forall>k. demand_of (au_orders a) k \<le> au_identity_cap (au_config a)) \<and>
     i128 (committed_units a * face_value (the (BondConfig s b)))"

definition auction_ok :: "address \<Rightarrow> issuer \<Rightarrow> nat \<Rightarrow> bool" where
  "auction_ok self s b \<longleftrightarrow> (case SubscriptionAuction s b of
       None \<Rightarrow> \<forall>h. SubscriptionIdentity s (b, h) = None
     | Some a \<Rightarrow> configured s b \<and> BondState s b \<noteq> None \<and> au_treasury (au_config a) \<noteq> self \<and>
         au_identity_cap (au_config a) \<le> MAX_SUPPLY \<and> length (au_wallets a) \<le> MAX_AUCTION_WALLETS \<and>
         self \<notin> set (au_wallets a) \<and> (\<forall>h. SubscriptionIdentity s (b, h) \<noteq> None \<longrightarrow> h \<in> set (au_wallets a)) \<and>
         (\<not> au_settled a \<longrightarrow> auction_open s b a))"

text \<open>The capital an auction holds in the contract's token balance.\<close>

definition committed :: "issuer \<Rightarrow> nat \<Rightarrow> int" where
  "committed s b = (case SubscriptionAuction s b of
       None \<Rightarrow> 0
     | Some a \<Rightarrow> if au_settled a then 0 else committed_units a * face_value (the (BondConfig s b)))"

lemma auction_okD:
  assumes "auction_ok self s b" "SubscriptionAuction s b = Some a"
  shows "configured s b" "BondState s b \<noteq> None" "au_treasury (au_config a) \<noteq> self"
    "au_identity_cap (au_config a) \<le> MAX_SUPPLY" "length (au_wallets a) \<le> MAX_AUCTION_WALLETS" "self \<notin> set (au_wallets a)"
    "SubscriptionIdentity s (b, h) \<noteq> None \<Longrightarrow> h \<in> set (au_wallets a)"
    "\<not> au_settled a \<Longrightarrow> auction_open s b a"
  using assms by (auto simp: auction_ok_def)

lemma auction_book:
  assumes "auction_ok self s b" "SubscriptionAuction s b = Some a" "\<not> au_settled a"
    and "BondConfig s b = Some c" "config_ok c"
  shows "book_ok (face_value c) (au_orders a)" "self \<notin> or_wallet ` set (au_orders a)"
    "0 \<le> committed_units a" "i128 (committed_units a * face_value c)"
proof -
  note ok = auction_okD [OF assms(1,2)]
  have op: "auction_open s b a" using ok(8) assms(3) .
  then have ord: "or_wallet ord \<in> set (au_wallets a) \<and> 0 < or_requested ord" if "ord \<in> set (au_orders a)" for ord
    using ok(7) that by (auto simp: auction_open_def order_ok_def)
  then have sub: "or_wallet ` set (au_orders a) \<subseteq> set (au_wallets a)" by blast
  then show "self \<notin> or_wallet ` set (au_orders a)" using ok(6) by blast
  show nn: "0 \<le> committed_units a" unfolding committed_units_def
    using ord by (auto intro!: sum_list_nonneg simp: less_imp_le)
  show fits: "i128 (committed_units a * face_value c)" using op assms(4) by (simp add: auction_open_def)
  have "length (au_orders a) = card (set (map or_wallet (au_orders a)))"
    using op by (metis auction_open_def distinct_card length_map)
  also have "\<dots> \<le> length (au_wallets a)"
    using sub by (metis List.finite_set card_length card_mono image_set le_trans)
  finally have len: "length (au_orders a) \<le> MAX_AUCTION_WALLETS" using ok(5) by simp
  have "i128 (or_requested ord * face_value c)" if "ord \<in> set (au_orders a)" for ord
  proof (rule i128_le [OF fits])
    have "or_requested ord \<le> committed_units a" unfolding committed_units_def
      using that ord by (intro member_le_sum_list) (auto simp: less_imp_le)
    then show "or_requested ord * face_value c \<le> committed_units a * face_value c"
      using assms(5) by (intro mult_right_mono) (auto simp: config_ok_def)
    show "0 \<le> or_requested ord * face_value c" using ord [OF that] assms(5) by (simp add: config_ok_def)
  qed
  moreover have "demand_of (au_orders a) k \<le> MAX_SUPPLY" for k
    using op ok(4) by (meson auction_open_def order_trans)
  ultimately show "book_ok (face_value c) (au_orders a)"
    using len ord assms(5) by (auto simp: book_ok_def config_ok_def less_imp_le)
qed

subsection \<open>Settlement\<close>

definition open_capacity :: "env \<Rightarrow> bond_config \<Rightarrow> bond_state \<Rightarrow> int" where
  "open_capacity env c st =
     (if status st = Active \<and> ledger_timestamp env < maturity_date c then total_supply c - total_subscribed st else 0)"

lemma allocate_book_effect:
  assumes "book_ok (face_value c) orders" "config_ok c" "0 \<le> total_subscribed st" "total_subscribed st \<le> total_supply c"
  shows "\<exists>orders'. allocate_book env c st orders = Inr orders' \<and>
     allocation (face_value c) (open_capacity env c st) (sort_orders orders) orders'"
proof -
  have cap: "0 \<le> open_capacity env c st" "open_capacity env c st \<le> MAX_SUPPLY"
    using assms(2-4) by (auto simp: open_capacity_def config_ok_def MAX_SUPPLY_def)
  have "i128 (total_supply c - total_subscribed st)"
    using assms(2-4) by (auto simp: config_ok_def MAX_SUPPLY_def i128_def i128_min_def i128_max_def)
  then have strict: "(if status st = Active \<and> ledger_timestamp env < maturity_date c
      then strict (total_supply c - total_subscribed st) else Inr 0) = Inr (open_capacity env c st)"
    by (simp add: open_capacity_def strict_def checked_def)
  show ?thesis using allocate_orders_effect [OF assms(1) cap] unfolding allocate_book_def Let_def strict by auto
qed

lemma distribute_orders_run:
  assumes "distribute_orders host env s w b c st a = Inr (s', w')"
  obtains s2 v s3 st3 w3 where "advance_balance_version s b = Inr (s2, v)"
    "credit_orders (token_transfer host) env (au_token (au_config a)) b v (au_orders a) s2 st w = Inr (s3, st3, w3)"
    "let proceeds = (total_subscribed st3 - total_subscribed st) * face_value c in
       if 0 < proceeds then token_transfer host w3 (au_token (au_config a)) (current_contract_address env)
         (au_treasury (au_config a)) proceeds = Some w' else w' = w3"
    "append_supply_checkpoint (s3\<lparr>BondState := (BondState s3)(b \<mapsto> st3)\<rparr>) b v (total_subscribed st) (total_subscribed st3) = Inr s'"
  using assms unfolding distribute_orders_def
  by (auto simp: contract_simps Let_def simp del: advance_balance_version_iff split: if_splits)

text \<open>
  The distribution posts the allocations to the holders at the next version. What
  it moves in the token is \<open>paid\<close>: the refunds, then the proceeds.
\<close>

definition paid :: "'w host \<Rightarrow> env \<Rightarrow> nat \<Rightarrow> auction_state \<Rightarrow> bond_config \<Rightarrow> 'w \<Rightarrow> 'w \<Rightarrow> bool" where
  "paid host env b a c w w' \<longleftrightarrow> (\<exists>v s st s' st' w1.
     credit_orders (token_transfer host) env (au_token (au_config a)) b v (au_orders a) s st w = Inr (s', st', w1) \<and>
     (let proceeds = (\<Sum>ord\<leftarrow>au_orders a. or_allocated ord) * face_value c in
      if 0 < proceeds then token_transfer host w1 (au_token (au_config a)) (current_contract_address env)
        (au_treasury (au_config a)) proceeds = Some w' else w' = w1))"

lemma posting_state:
  assumes "posting s s1 b H"
  shows "posting s (s1\<lparr>BondState := X\<rparr>) b H"
proof -
  have "holder_count (s1\<lparr>BondState := X\<rparr>) = holder_count s1" "holder_entry (s1\<lparr>BondState := X\<rparr>) = holder_entry s1"
    "supply_count (s1\<lparr>BondState := X\<rparr>) = supply_count s1" "supply_entry (s1\<lparr>BondState := X\<rparr>) = supply_entry s1"
    "balance_of (s1\<lparr>BondState := X\<rparr>) = balance_of s1"
    by (rule ext, simp add: position_views fun_eq_iff)+
  moreover from this have "holder_log (s1\<lparr>BondState := X\<rparr>) = holder_log s1" by (intro ext) (simp add: holder_log_def)
  ultimately show ?thesis using assms by (simp add: posting_def)
qed

lemma distribute_orders_effect:
  assumes ok: "ledger_ok s0" and same: "same_positions s0 s"
    and run: "distribute_orders host env s w b c st a = Inr (s', w')"
    and c: "BondConfig s0 b = Some c" and st: "BondState s0 b = Some st"
    and wal: "distinct (map or_wallet (au_orders a))" and nn: "\<forall>ord\<in>set (au_orders a). 0 \<le> or_allocated ord"
    and le: "total_subscribed st + (\<Sum>ord\<leftarrow>au_orders a. or_allocated ord) \<le> total_supply c"
  shows "posted s0 s' b (credited (au_orders a))"
    "\<forall>ord\<in>set (au_orders a). balance_of s' (b, or_wallet ord) = balance_of s0 (b, or_wallet ord) + or_allocated ord"
    "\<forall>k. k \<notin> {b} \<times> credited (au_orders a) \<longrightarrow> HolderBalance s' k = HolderBalance s0 k"
    "BondState s' = (BondState s0)(b \<mapsto> st\<lparr>total_subscribed := total_subscribed st + (\<Sum>ord\<leftarrow>au_orders a. or_allocated ord)\<rparr>)"
    "s' = with_positions s s'" "paid host env b a c w w'"
proof -
  let ?H = "credited (au_orders a)" and ?sold = "\<Sum>ord\<leftarrow>au_orders a. or_allocated ord"
  obtain s2 v s3 st3 w3 where adv: "advance_balance_version s b = Inr (s2, v)"
    and cr: "credit_orders (token_transfer host) env (au_token (au_config a)) b v (au_orders a) s2 st w = Inr (s3, st3, w3)"
    and pay: "let proceeds = (total_subscribed st3 - total_subscribed st) * face_value c in
       if 0 < proceeds then token_transfer host w3 (au_token (au_config a)) (current_contract_address env)
         (au_treasury (au_config a)) proceeds = Some w' else w' = w3"
    and sup: "append_supply_checkpoint (s3\<lparr>BondState := (BondState s3)(b \<mapsto> st3)\<rparr>) b v (total_subscribed st) (total_subscribed st3) = Inr s'"
    by (rule distribute_orders_run [OF run]) (rule that)
  note pos = same [unfolded same_positions_def] same_positions_views [OF same]
  have post: "posting s0 s2 b {}" using pos by (intro posting_start(1) [OF adv]) auto
  have v: "v = Suc (version_of s0 b)" using adv pos by (simp add: advance_balance_version_iff)
  have s2: "s2 = s\<lparr>BalanceVersion := (BalanceVersion s)(b \<mapsto> v)\<rparr>" using adv by (simp add: advance_balance_version_iff)
  have hb2: "HolderBalance s2 = HolderBalance s0" "BondState s2 = BondState s0" using pos by (simp_all add: s2)
  then have bal2: "balance_of s2 = balance_of s0" by (simp add: balance_of_def)
  have credit: "posting s0 s3 b ?H"
     "\<forall>k. k \<notin> {b} \<times> ?H \<longrightarrow> HolderBalance s3 k = HolderBalance s0 k"
     "\<forall>ord\<in>set (au_orders a). balance_of s3 (b, or_wallet ord) = balance_of s0 (b, or_wallet ord) + or_allocated ord"
     "finite (dom (HolderBalance s3))" "row_sum (HolderBalance s3) b = row_sum (HolderBalance s0) b + ?sold"
     "st3 = st\<lparr>total_subscribed := total_subscribed st + ?sold\<rparr>"
     "\<exists>B C N. s3 = s2\<lparr>HolderBalance := B, HolderCheckpoint := C, HolderCheckpointCount := N\<rparr>"
    using credit_orders_posting [OF ok cr [unfolded v] post wal _ _ nn] hb2 bal2 ledger_okD(3) [OF ok] by auto
  have "let proceeds = ?sold * face_value c in
       if 0 < proceeds then token_transfer host w3 (au_token (au_config a)) (current_contract_address env)
         (au_treasury (au_config a)) proceeds = Some w' else w' = w3"
    using pay credit(6) by simp
  then show "paid host env b a c w w'" using cr unfolding paid_def by blast
  obtain B C N where s3: "s3 = s2\<lparr>HolderBalance := B, HolderCheckpoint := C, HolderCheckpointCount := N\<rparr>"
    using credit(7) by blast
  obtain SC SN where s': "s' = s3\<lparr>BondState := (BondState s3)(b \<mapsto> st3), SupplyCheckpoint := SC, SupplyCheckpointCount := SN\<rparr>"
    using append_supply_checkpoint_frame [OF sup] by auto
  show "s' = with_positions s s'" by (simp add: s' s3 s2 with_positions_def)
  show "BondState s' = (BondState s0)(b \<mapsto> st\<lparr>total_subscribed := total_subscribed st + ?sold\<rparr>)"
    using hb2(2) by (simp add: s' s3 credit(6))
  have hb: "HolderBalance s' = HolderBalance s3" by (simp add: s')
  then show "\<forall>k. k \<notin> {b} \<times> ?H \<longrightarrow> HolderBalance s' k = HolderBalance s0 k" using credit(2) by simp
  show "\<forall>ord\<in>set (au_orders a). balance_of s' (b, or_wallet ord) = balance_of s0 (b, or_wallet ord) + or_allocated ord"
    using credit(3) hb by (simp add: balance_of_def)
  show "posted s0 s' b ?H"
  proof (rule posting_posted [OF ok posting_state [OF credit(1), of "(BondState s3)(b \<mapsto> st3)"] st])
    show "row_sum (HolderBalance (s3\<lparr>BondState := (BondState s3)(b \<mapsto> st3)\<rparr>)) b = total_subscribed st + ?sold"
      using credit(5) ledger_ok_bond(2) [OF ok st] by simp
    show "BondState (s3\<lparr>BondState := (BondState s3)(b \<mapsto> st3)\<rparr>) = (BondState s0)(b \<mapsto> st\<lparr>total_subscribed := total_subscribed st + ?sold\<rparr>)"
      using hb2(2) by (simp add: s3 credit(6))
    show "0 \<le> balance_of (s3\<lparr>BondState := (BondState s3)(b \<mapsto> st3)\<rparr>) (b, h)" if h: "h \<in> ?H" for h
    proof -
      obtain ord where "ord \<in> set (au_orders a)" "h = or_wallet ord" using h by (auto simp: credited_def)
      then have "0 \<le> balance_of s3 (b, h)" using credit(3) nn ledger_ok_balance [OF ok, of "(b, h)"] by simp
      then show ?thesis by (simp add: balance_of_def)
    qed
  qed (use credit(2,4,6) le c sup v in auto)
qed

lemma ledger_ok_total:
  assumes "ledger_ok s" "BondState s b = Some st"
  shows "0 \<le> total_subscribed st"
proof -
  have "0 \<le> row_sum (HolderBalance s) b" unfolding row_sum_def
    using ledger_ok_balance [OF assms(1)] by (intro sum_nonneg) (simp add: balance_of_def)
  then show ?thesis by (simp add: ledger_ok_bond(2) [OF assms])
qed

text \<open>
  The effect of a settlement on the contract: the book is allocated to the open
  capacity, and the allocation is distributed.
\<close>

lemma settle_subscription_effect:
  assumes ok: "ledger_ok s" "auction_ok (current_contract_address env) s b"
    and run: "settle_subscription host env s w b = Inr (s', w', a')"
  obtains a c st where
    "SubscriptionAuction s b = Some a" "\<not> au_settled a" "au_cutoff_ledger (au_config a) \<le> ledger_sequence env"
    "BondConfig s b = Some c" "BondState s b = Some st" "a' = a\<lparr>au_orders := au_orders a', au_settled := True\<rparr>"
    "allocation (face_value c) (open_capacity env c st) (sort_orders (au_orders a)) (au_orders a')"
    "posted s s' b (credited (au_orders a'))"
    "\<forall>ord\<in>set (au_orders a'). balance_of s' (b, or_wallet ord) = balance_of s (b, or_wallet ord) + or_allocated ord"
    "\<forall>k. k \<notin> {b} \<times> credited (au_orders a') \<longrightarrow> HolderBalance s' k = HolderBalance s k"
    "BondState s' = (BondState s)(b \<mapsto> st\<lparr>total_subscribed := total_subscribed st + (\<Sum>ord\<leftarrow>au_orders a'. or_allocated ord)\<rparr>)"
    "s' = (with_positions s s')\<lparr>SubscriptionAuction := (SubscriptionAuction s)(b \<mapsto> a'),
        Events := Events s @ [SubscriptionSettled b (au_orders a')]\<rparr>"
    "paid host env b a' c w w'"
proof -
  from run obtain a c st orders s1 where a: "SubscriptionAuction s b = Some a" "\<not> au_settled a"
      "au_cutoff_ledger (au_config a) \<le> ledger_sequence env"
    and c: "BondConfig s b = Some c" and st: "BondState s b = Some st"
    and al: "allocate_book env c st (au_orders a) = Inr orders" and a': "a' = a\<lparr>au_orders := orders, au_settled := True\<rparr>"
    and dis: "distribute_orders host env (s\<lparr>SubscriptionAuction := (SubscriptionAuction s)(b \<mapsto> a')\<rparr>) w b c st a' = Inr (s1, w')"
    and s': "s' = publish (SubscriptionSettled b orders) s1"
    by (auto simp: settle_subscription_def load_def get_bond_def get_bond_state_def contract_simps Let_def not_less)
  have cok: "config_ok c" "0 \<le> total_subscribed st" "total_subscribed st \<le> total_supply c"
    using ledger_ok_bond(1) [OF ok(1) st] c ledger_ok_total [OF ok(1) st] by auto
  note book = auction_book [OF ok(2) a(1,2) c cok(1)]
  have alloc: "allocation (face_value c) (open_capacity env c st) (sort_orders (au_orders a)) orders"
    using allocate_book_effect [OF book(1) cok, of env] al by auto
  let ?os = "sort_orders (au_orders a)"
  have sorted: "sorted (map or_identity ?os)" by (rule sort_orders_identities)
  have bk: "book_ok (face_value c) ?os" using book(1) by (simp add: book_ok_sorted)
  have cap: "0 \<le> open_capacity env c st" using cok by (simp add: open_capacity_def)
  have nn: "\<forall>ord\<in>set orders. 0 \<le> or_allocated ord"
    using allocation_identity [OF alloc bk cap sorted] by metis
  have tot: "(\<Sum>ord\<leftarrow>orders. or_allocated ord) \<le> open_capacity env c st"
    using allocation_total [OF alloc bk cap sorted] by simp
  have "map or_wallet orders = map or_wallet ?os" using alloc by (intro requests_same(3)) (simp add: allocation_def)
  moreover have "mset (map or_wallet ?os) = mset (map or_wallet (au_orders a))" by (simp add: sort_orders_sorts)
  moreover have "distinct (map or_wallet (au_orders a))"
    using auction_okD(8) [OF ok(2) a(1) a(2)] by (simp add: auction_open_def)
  ultimately have wal: "distinct (map or_wallet orders)" by (metis mset_eq_imp_distinct_iff)
  have le: "total_subscribed st + (\<Sum>ord\<leftarrow>orders. or_allocated ord) \<le> total_supply c"
    using tot cok(3) by (auto simp: open_capacity_def split: if_splits)
  have os: "au_orders a' = orders" by (simp add: a')
  have same: "same_positions s (s\<lparr>SubscriptionAuction := (SubscriptionAuction s)(b \<mapsto> a')\<rparr>)" by (simp add: same_positions_def)
  note eff = distribute_orders_effect [OF ok(1) same dis c st, unfolded os, OF wal nn le]
  have s1: "same_positions s1 s'" "HolderBalance s' = HolderBalance s1" "BondState s' = BondState s1" "balance_of s' = balance_of s1"
    by (simp_all add: s' publish_def same_positions_def balance_of_def)
  show thesis
  proof (rule that [OF a c st _ _ same_positions_posted [OF eff(1) s1(1), folded os], unfolded os s1])
    show "a' = a\<lparr>au_orders := orders, au_settled := True\<rparr>" by (rule a')
    show "s' = (with_positions s s')\<lparr>SubscriptionAuction := (SubscriptionAuction s)(b \<mapsto> a'),
        Events := Events s @ [SubscriptionSettled b orders]\<rparr>"
      by (subst (1) s', subst eff(5)) (simp add: publish_def with_positions_def s')
  qed (use eff alloc os in simp_all)
qed

lemma refund_sum:
  "\<forall>ord\<in>set orders. or_refunded ord = (or_requested ord - or_allocated ord) * face \<Longrightarrow>
     (\<Sum>ord\<leftarrow>orders. or_refunded ord) + (\<Sum>ord\<leftarrow>orders. or_allocated ord) * face = (\<Sum>ord\<leftarrow>orders. or_requested ord) * face"
  by (induction orders) (auto simp: algebra_simps)

context token_contract
begin

lemma paid_balance:
  assumes "token_transfer host = move" "paid host env b a c w w'"
    and "current_contract_address env \<notin> or_wallet ` set (au_orders a)"
    and "au_treasury (au_config a) \<noteq> current_contract_address env" "0 \<le> face_value c"
    and os: "\<forall>ord\<in>set (au_orders a). 0 \<le> or_allocated ord \<and> or_allocated ord \<le> or_requested ord \<and>
      or_refunded ord = (or_requested ord - or_allocated ord) * face_value c"
  defines "self \<equiv> current_contract_address env" and "t \<equiv> au_token (au_config a)"
  shows "balance w' t self = balance w t self - (\<Sum>ord\<leftarrow>au_orders a. or_requested ord) * face_value c"
    and "x \<noteq> self \<Longrightarrow> balance w' t x = balance w t x +
      (\<Sum>ord\<leftarrow>filter (\<lambda>ord. or_wallet ord = x) (au_orders a). or_refunded ord) +
      (if x = au_treasury (au_config a) then (\<Sum>ord\<leftarrow>au_orders a. or_allocated ord) * face_value c else 0)"
    and "u \<noteq> t \<Longrightarrow> balance w' u x = balance w u x"
proof -
  let ?sold = "\<Sum>ord\<leftarrow>au_orders a. or_allocated ord"
  obtain v s st s' st' w1 where cr: "credit_orders move env t b v (au_orders a) s st w = Inr (s', st', w1)"
    and pr: "let proceeds = ?sold * face_value c in if 0 < proceeds
      then move w1 t self (au_treasury (au_config a)) proceeds = Some w' else w' = w1"
    using assms(1,2) unfolding paid_def self_def t_def by auto
  have ref: "\<forall>ord\<in>set (au_orders a). 0 \<le> or_refunded ord" using os assms(5) by simp
  note refunds = credit_orders_balance [OF cr assms(3) ref, folded self_def]
  have sold: "0 \<le> ?sold * face_value c" using os assms(5) by (auto intro!: mult_nonneg_nonneg sum_list_nonneg)
  have last: "balance w' t self = balance w1 t self - ?sold * face_value c"
    "x \<noteq> self \<Longrightarrow> balance w' t x = balance w1 t x + (if x = au_treasury (au_config a) then ?sold * face_value c else 0)"
    "u \<noteq> t \<Longrightarrow> balance w' u x = balance w1 u x" for u x
    using pr sold move_out [of w1 t self "au_treasury (au_config a)" "?sold * face_value c" w'] assms(4)
    by (auto simp: Let_def self_def split: if_splits)
  show "balance w' t self = balance w t self - (\<Sum>ord\<leftarrow>au_orders a. or_requested ord) * face_value c"
    using last(1) refunds(1) refund_sum [of "au_orders a" "face_value c"] os by simp
  show "x \<noteq> self \<Longrightarrow> balance w' t x = balance w t x +
      (\<Sum>ord\<leftarrow>filter (\<lambda>ord. or_wallet ord = x) (au_orders a). or_refunded ord) +
      (if x = au_treasury (au_config a) then ?sold * face_value c else 0)"
    using last(2) refunds(2) by simp
  show "u \<noteq> t \<Longrightarrow> balance w' u x = balance w u x" using last(3) refunds(3) by simp
qed

end

subsection \<open>Commitments\<close>

lemma identity_total_result:
  "identity_total k orders acc = Inr d \<Longrightarrow> d = acc + demand_of orders k"
proof (induction orders arbitrary: acc)
  case (Cons ord orders)
  show ?case using Cons.prems Cons.IH [of "acc + or_requested ord"] Cons.IH [of acc]
    by (cases "or_identity ord = k") (auto simp: contract_simps demand_of_def)
qed (simp add: demand_of_def)

lemma add_order_cases:
  assumes "add_order h k x orders = Inr orders'"
  obtains (found) us ord vs where "orders = us @ ord # vs" "or_wallet ord = h"
      "orders' = us @ ord\<lparr>or_requested := or_requested ord + x\<rparr> # vs"
    | (new) "h \<notin> or_wallet ` set orders"
      "orders' = orders @ [\<lparr>or_wallet = h, or_identity = k, or_requested = x, or_allocated = 0, or_refunded = 0\<rparr>]"
  using assms
proof (induction orders arbitrary: orders' thesis)
  case (Cons ord orders)
  show ?case
  proof (cases "or_wallet ord = h")
    case True
    then show ?thesis using Cons.prems(3) by (intro Cons.prems(1) [of "[]" ord orders]) (auto simp: contract_simps)
  next
    case False
    then obtain os where os: "add_order h k x orders = Inr os" "orders' = ord # os"
      using Cons.prems(3) by (auto simp: contract_simps)
    show ?thesis
    proof (rule Cons.IH [OF _ _ os(1)])
      show thesis if "orders = us @ o' # vs" "or_wallet o' = h" "os = us @ o'\<lparr>or_requested := or_requested o' + x\<rparr> # vs" for us o' vs
        using that os(2) by (intro Cons.prems(1) [of "ord # us" o' vs]) simp_all
      show thesis if "h \<notin> or_wallet ` set orders"
        "os = orders @ [\<lparr>or_wallet = h, or_identity = k, or_requested = x, or_allocated = 0, or_refunded = 0\<rparr>]"
        using that os(2) False by (intro Cons.prems(2)) auto
    qed
  qed
qed simp

lemma add_order_result:
  assumes run: "add_order h k x orders = Inr orders'"
    and id: "\<forall>ord\<in>set orders. or_wallet ord = h \<longrightarrow> or_identity ord = k" and pos: "0 < x" "\<forall>ord\<in>set orders. 0 < or_requested ord"
  shows "(\<Sum>ord\<leftarrow>orders'. or_requested ord) = (\<Sum>ord\<leftarrow>orders. or_requested ord) + x"
    and "demand_of orders' k' = demand_of orders k' + (if k' = k then x else 0)"
    and "distinct (map or_wallet orders) \<Longrightarrow> distinct (map or_wallet orders')"
    and "ord' \<in> set orders' \<Longrightarrow> 0 < or_requested ord' \<and>
      (or_wallet ord' = h \<and> or_identity ord' = k \<or>
       (\<exists>ord\<in>set orders. or_wallet ord = or_wallet ord' \<and> or_identity ord = or_identity ord'))"
proof -
  have "(\<Sum>ord\<leftarrow>orders'. or_requested ord) = (\<Sum>ord\<leftarrow>orders. or_requested ord) + x \<and>
    demand_of orders' k' = demand_of orders k' + (if k' = k then x else 0) \<and>
    (distinct (map or_wallet orders) \<longrightarrow> distinct (map or_wallet orders')) \<and>
    (ord' \<in> set orders' \<longrightarrow> 0 < or_requested ord' \<and>
      (or_wallet ord' = h \<and> or_identity ord' = k \<or>
       (\<exists>ord\<in>set orders. or_wallet ord = or_wallet ord' \<and> or_identity ord = or_identity ord')))"
    using run
  proof (cases rule: add_order_cases)
    case (found us ord vs)
    then have "or_identity ord = k" "0 < or_requested ord" using id pos(2) by auto
    then show ?thesis using found id pos by (auto simp: demand_of_def)
  next
    case new
    then show ?thesis using id pos by (auto simp: demand_of_def)
  qed
  then show "(\<Sum>ord\<leftarrow>orders'. or_requested ord) = (\<Sum>ord\<leftarrow>orders. or_requested ord) + x"
    "demand_of orders' k' = demand_of orders k' + (if k' = k then x else 0)"
    "distinct (map or_wallet orders) \<Longrightarrow> distinct (map or_wallet orders')"
    "ord' \<in> set orders' \<Longrightarrow> 0 < or_requested ord' \<and>
      (or_wallet ord' = h \<and> or_identity ord' = k \<or>
       (\<exists>ord\<in>set orders. or_wallet ord = or_wallet ord' \<and> or_identity ord = or_identity ord'))" by blast+
qed

lemma ids_ok_range:
  assumes "ids_ok s" "BondState s b = Some st"
  shows "b \<in> {1..bond_count s}"
proof -
  have "0 < b \<and> b \<le> bond_count s" using assms unfolding ids_ok_def by (metis option.distinct(1))
  then show ?thesis by auto
qed

lemma commit_subscription_effect:
  assumes "commit_subscription host env s w h b amount nonce = Inr (s', w')"
  obtains a c k orders where "SubscriptionAuction s b = Some a" "\<not> au_settled a"
    "au_open_ledger (au_config a) \<le> ledger_sequence env" "ledger_sequence env < au_cutoff_ledger (au_config a)"
    "BondConfig s b = Some c" "h \<in> set (signers env)" "0 < amount" "amount \<le> MAX_SUPPLY"
    "SubscriptionIdentity s (b, h) = Some k" "amount + demand_of (au_orders a) k \<le> au_identity_cap (au_config a)"
    "add_order h k amount (au_orders a) = Inr orders"
    "token_transfer host w (au_token (au_config a)) h (current_contract_address env) (amount * face_value c) = Some w'"
    "s' = publish (SubscriptionCommitted b h amount) (s\<lparr>Nonce := (Nonce s)(h \<mapsto> Suc nonce),
       SubscriptionAuction := (SubscriptionAuction s)(b \<mapsto> a\<lparr>au_orders := orders\<rparr>)\<rparr>)"
  using assms
  by (auto simp: commit_subscription_def load_def get_bond_def contract_simps Let_def not_less not_le
      dest!: identity_total_result)

subsection \<open>The escrow\<close>

definition token_of :: "issuer \<Rightarrow> nat \<Rightarrow> address" where
  "token_of s b = au_token (au_config (the (SubscriptionAuction s b)))"

definition locked :: "issuer \<Rightarrow> address \<Rightarrow> int" where
  "locked s t = (\<Sum>b\<in>{1..bond_count s}. if token_of s b = t then committed s b else 0)"

text \<open>What the auctions hold in a token is covered by the contract's balance of it.\<close>

definition escrow_ok :: "('w \<Rightarrow> address \<Rightarrow> address \<Rightarrow> int) \<Rightarrow> address \<Rightarrow> issuer \<Rightarrow> 'w \<Rightarrow> bool" where
  "escrow_ok balance self s w \<longleftrightarrow> (\<forall>b. auction_ok self s b) \<and> (\<forall>t. locked s t \<le> balance w t self)"

lemma committed_cong:
  assumes "SubscriptionAuction s' b = SubscriptionAuction s b" "BondConfig s' b = BondConfig s b"
  shows "committed s' b = committed s b" "token_of s' b = token_of s b"
  using assms by (cases "SubscriptionAuction s b"; simp add: committed_def token_of_def)+

lemma locked_upd:
  assumes "bond_count s' = bond_count s" "b \<in> {1..bond_count s}" "token_of s' b = token_of s b"
    and "\<And>c. c \<noteq> b \<Longrightarrow> token_of s' c = token_of s c" "\<And>c. c \<noteq> b \<Longrightarrow> committed s' c = committed s c"
  shows "locked s' t = locked s t + (if token_of s b = t then committed s' b - committed s b else 0)"
proof -
  have split: "(\<Sum>c\<in>{1..bond_count s}. f c) = f b + (\<Sum>c\<in>{1..bond_count s} - {b}. f c)" for f :: "nat \<Rightarrow> int"
    using assms(2) by (intro sum.remove) auto
  have "(\<Sum>c\<in>{1..bond_count s} - {b}. if token_of s' c = t then committed s' c else 0) =
      (\<Sum>c\<in>{1..bond_count s} - {b}. if token_of s c = t then committed s c else 0)"
    by (intro sum.cong) (auto simp: assms(4,5))
  then show ?thesis unfolding locked_def assms(1) by (subst (1 2) split) (simp add: assms(3))
qed

lemma locked_cong:
  assumes "bond_count s' = bond_count s" "\<And>c. committed s' c = committed s c" "\<And>c. token_of s' c = token_of s c"
  shows "locked s' t = locked s t"
  unfolding locked_def assms ..

lemma committed_nonneg:
  assumes "auction_ok self s b" "ledger_ok s"
  shows "0 \<le> committed s b"
proof (cases "SubscriptionAuction s b")
  case (Some a)
  then obtain st where st: "BondState s b = Some st" using auction_okD(2) [OF assms(1)] by blast
  obtain c where c: "BondConfig s b = Some c" "config_ok c" using ledger_ok_bond(1) [OF assms(2) st] by blast
  show ?thesis using auction_book(3) [OF assms(1) Some _ c] c Some by (auto simp: committed_def config_ok_def)
qed (simp add: committed_def)

lemma committed_locked:
  assumes "\<forall>b. auction_ok self s b" "ledger_ok s" "b \<in> {1..bond_count s}"
  shows "committed s b \<le> locked s (token_of s b)"
proof -
  have "(if token_of s b = token_of s b then committed s b else 0) \<le> locked s (token_of s b)"
    unfolding locked_def using assms(3) committed_nonneg [OF spec [OF assms(1)] assms(2)]
    by (intro member_le_sum) auto
  then show ?thesis by simp
qed

text \<open>Operations that leave the auctions alone.\<close>

definition same_auctions :: "issuer \<Rightarrow> issuer \<Rightarrow> bool" where
  "same_auctions s s' \<longleftrightarrow> BondCount s' = BondCount s \<and> SubscriptionAuctionRequired s' = SubscriptionAuctionRequired s \<and>
     SubscriptionAuction s' = SubscriptionAuction s \<and> SubscriptionIdentity s' = SubscriptionIdentity s \<and>
     BondConfig s' = BondConfig s \<and> (\<forall>b. BondState s b \<noteq> None \<longrightarrow> BondState s' b \<noteq> None)"

lemma same_auctions_escrow:
  assumes "same_auctions s s'" "escrow_ok balance self s w"
  shows "escrow_ok balance self s' w"
proof -
  have f: "SubscriptionAuctionRequired s' = SubscriptionAuctionRequired s" "SubscriptionAuction s' = SubscriptionAuction s"
    "SubscriptionIdentity s' = SubscriptionIdentity s" "BondConfig s' = BondConfig s" "bond_count s' = bond_count s"
    "\<And>b. BondState s b \<noteq> None \<Longrightarrow> BondState s' b \<noteq> None"
    using assms(1) by (auto simp: same_auctions_def bond_count_def)
  have op: "auction_open s' b a = auction_open s b a" for b a by (simp add: auction_open_def order_ok_def f)
  have "auction_ok self s' b" if "auction_ok self s b" for b
    using that f(6) [of b] by (auto simp: auction_ok_def configured_def f(1-5) op split: option.splits)
  moreover have "committed s' b = committed s b" "token_of s' b = token_of s b" for b
    by (rule committed_cong; simp add: f)+
  then have "locked s' t = locked s t" for t by (intro locked_cong f(5))
  ultimately show ?thesis using assms(2) by (simp add: escrow_ok_def)
qed

lemma auction_ok_other:
  assumes "auction_ok self s b" "SubscriptionAuction s' b = SubscriptionAuction s b"
    "SubscriptionAuctionRequired s' b = SubscriptionAuctionRequired s b" "BondConfig s' b = BondConfig s b"
    "\<And>h. SubscriptionIdentity s' (b, h) = SubscriptionIdentity s (b, h)" "BondState s b \<noteq> None \<Longrightarrow> BondState s' b \<noteq> None"
  shows "auction_ok self s' b"
proof -
  have "auction_open s' b a = auction_open s b a" for a by (simp add: auction_open_def order_ok_def assms(4,5))
  then show ?thesis
    using assms by (cases "SubscriptionAuction s b") (simp_all add: auction_ok_def configured_def)
qed

lemma grant_subscription_effect:
  assumes "grant_subscription env s caller b h k nonce = Inr s'"
  obtains a where "SubscriptionAuction s b = Some a" "Admin s = Some caller" "caller \<in> set (signers env)"
    "ledger_sequence env < au_open_ledger (au_config a)" "SubscriptionIdentity s (b, h) = None"
    "length (au_wallets a) < MAX_AUCTION_WALLETS" "h \<noteq> current_contract_address env"
    "s' = publish (SubscriptionEntitled b h k) (s\<lparr>Nonce := (Nonce s)(caller \<mapsto> Suc nonce),
       SubscriptionIdentity := (SubscriptionIdentity s)((b, h) \<mapsto> k),
       SubscriptionAuction := (SubscriptionAuction s)(b \<mapsto> a\<lparr>au_wallets := au_wallets a @ [h]\<rparr>)\<rparr>)"
  using assms
  by (auto simp: grant_subscription_def load_def require_admin_def contract_simps not_le not_less split: if_splits)

lemma grant_subscription_escrow:
  assumes run: "grant_subscription env s caller b h k nonce = Inr s'"
    and ok: "escrow_ok balance (current_contract_address env) s w"
  shows "escrow_ok balance (current_contract_address env) s' w"
proof -
  let ?self = "current_contract_address env"
  from run obtain a where a: "SubscriptionAuction s b = Some a" "SubscriptionIdentity s (b, h) = None"
    "length (au_wallets a) < MAX_AUCTION_WALLETS" "h \<noteq> ?self"
    and s': "s' = publish (SubscriptionEntitled b h k) (s\<lparr>Nonce := (Nonce s)(caller \<mapsto> Suc nonce),
       SubscriptionIdentity := (SubscriptionIdentity s)((b, h) \<mapsto> k),
       SubscriptionAuction := (SubscriptionAuction s)(b \<mapsto> a\<lparr>au_wallets := au_wallets a @ [h]\<rparr>)\<rparr>)"
    by (rule grant_subscription_effect)
  have old: "auction_ok ?self s c" for c using ok by (simp add: escrow_ok_def)
  note mine = auction_okD [OF old a(1)]
  have "auction_open s' b (a\<lparr>au_wallets := au_wallets a @ [h]\<rparr>)" if "\<not> au_settled a"
    using mine(8) [OF that] a(2) by (auto simp: auction_open_def order_ok_def s' publish_def committed_units_def)
  then have new: "auction_ok ?self s' b"
    using mine a(3,4) by (auto simp: auction_ok_def s' publish_def configured_def MAX_AUCTION_WALLETS_def split: if_splits)
  have "auction_ok ?self s' c" for c
  proof (cases "c = b")
    case False
    then show ?thesis by (intro auction_ok_other [OF old]) (auto simp: s' publish_def)
  qed (simp add: new)
  moreover have same: "committed s' c = committed s c" "token_of s' c = token_of s c" for c
    using committed_cong [of s' c s] a(1)
    by (cases "c = b"; simp add: s' publish_def committed_def [of _ b] token_of_def [of _ b] committed_units_def)+
  have "locked s' t = locked s t" for t
    by (rule locked_cong [OF _ same]) (simp add: s' publish_def bond_count_def)
  ultimately show ?thesis using ok by (simp add: escrow_ok_def)
qed

lemma issue_bond_escrow:
  assumes run: "issue_bond host env s w0 caller config nonce = Inr (s', b)" and ids: "ids_ok s"
    and ok: "escrow_ok balance self s w"
    and s'': "s'' = s' \<or> s'' = s'\<lparr>SubscriptionAuctionRequired := (SubscriptionAuctionRequired s')(b \<mapsto> True),
        SubscriptionAuction := (SubscriptionAuction s')(b \<mapsto> \<lparr>au_config = auction, au_wallets = [], au_orders = [], au_settled = False\<rparr>)\<rparr>
      \<and> au_treasury auction \<noteq> self \<and> 0 \<le> au_identity_cap auction \<and> au_identity_cap auction \<le> MAX_SUPPLY"
  shows "escrow_ok balance self s'' w"
proof -
  note eff = issue_bond_effect [OF run]
  have old: "auction_ok self s c" for c using ok by (simp add: escrow_ok_def)
  have fresh: "BondState s b = None" by (rule issue_bond_ids_ok(2) [OF run ids])
  then have none: "SubscriptionAuction s b = None" using auction_okD(2) [OF old] by force
  have idn: "SubscriptionIdentity s (b, h) = None" for h using old [of b] none by (simp add: auction_ok_def)
  have fields: "SubscriptionAuction s'' c = SubscriptionAuction s c" "SubscriptionAuctionRequired s'' c = SubscriptionAuctionRequired s c"
    "BondConfig s'' c = BondConfig s c" "BondState s'' c = BondState s c" if "c \<noteq> b" for c
    using that s'' by (auto simp: eff(7) publish_def)
  have ident: "SubscriptionIdentity s'' = SubscriptionIdentity s" "bond_count s'' = Suc (bond_count s)" "BondState s'' b \<noteq> None"
    using s'' eff(1) by (auto simp: eff(7) publish_def bond_count_def)
  have auc: "SubscriptionAuction s'' b = None \<or> configured s'' b \<and> SubscriptionAuction s'' b =
      Some \<lparr>au_config = auction, au_wallets = [], au_orders = [], au_settled = False\<rparr> \<and>
      au_treasury auction \<noteq> self \<and> 0 \<le> au_identity_cap auction \<and> au_identity_cap auction \<le> MAX_SUPPLY"
    using s'' none by (auto simp: eff(7) publish_def configured_def)
  have "auction_ok self s'' b"
    using auc
  proof
    assume "SubscriptionAuction s'' b = None"
    then show ?thesis by (simp add: auction_ok_def ident(1) idn)
  next
    assume "configured s'' b \<and> SubscriptionAuction s'' b =
      Some \<lparr>au_config = auction, au_wallets = [], au_orders = [], au_settled = False\<rparr> \<and>
      au_treasury auction \<noteq> self \<and> 0 \<le> au_identity_cap auction \<and> au_identity_cap auction \<le> MAX_SUPPLY"
    then show ?thesis using ident idn
      by (simp add: auction_ok_def auction_open_def committed_units_def demand_of_def i128_def i128_min_def i128_max_def)
  qed
  moreover have "auction_ok self s'' c" if "c \<noteq> b" for c
    by (intro auction_ok_other [OF old]) (simp_all add: fields [OF that] ident(1))
  ultimately have all: "auction_ok self s'' c" for c by (cases "c = b") auto
  have com: "committed s'' b = 0" using auc by (auto simp: committed_def committed_units_def)
  have same: "committed s'' c = committed s c" "token_of s'' c = token_of s c" if "c \<noteq> b" for c
    using fields [OF that] by (intro committed_cong; simp)+
  have "locked s'' t = locked s t" for t
  proof -
    have "{1..bond_count s''} = insert b {1..bond_count s}" using ident(2) eff(1) by auto
    moreover have "b \<notin> {1..bond_count s}" using eff(1) by simp
    ultimately have "locked s'' t = (\<Sum>c\<in>{1..bond_count s}. if token_of s'' c = t then committed s'' c else 0)"
      unfolding locked_def by (simp add: com)
    also have "\<dots> = locked s t" unfolding locked_def using eff(1) by (intro sum.cong) (auto simp: same)
    finally show ?thesis .
  qed
  then show ?thesis using all ok by (simp add: escrow_ok_def)
qed

context token_contract
begin

lemma commit_subscription_escrow:
  assumes host: "token_transfer host = move" and run: "commit_subscription host env s w h b amount nonce = Inr (s', w')"
    and ok: "ledger_ok s" "ids_ok s" "escrow_ok balance (current_contract_address env) s w"
  shows "escrow_ok balance (current_contract_address env) s' w'"
proof -
  let ?self = "current_contract_address env"
  obtain a c k orders where a: "SubscriptionAuction s b = Some a" "\<not> au_settled a" and c: "BondConfig s b = Some c"
    and am: "0 < amount" and k: "SubscriptionIdentity s (b, h) = Some k"
    "amount + demand_of (au_orders a) k \<le> au_identity_cap (au_config a)"
    and os: "add_order h k amount (au_orders a) = Inr orders"
    and mv: "move w (au_token (au_config a)) h ?self (amount * face_value c) = Some w'"
    and s': "s' = publish (SubscriptionCommitted b h amount) (s\<lparr>Nonce := (Nonce s)(h \<mapsto> Suc nonce),
       SubscriptionAuction := (SubscriptionAuction s)(b \<mapsto> a\<lparr>au_orders := orders\<rparr>)\<rparr>)"
    using run unfolding host [symmetric] by (rule commit_subscription_effect)
  let ?t = "au_token (au_config a)" and ?x = "amount * face_value c" and ?a = "a\<lparr>au_orders := orders\<rparr>"
  have old: "auction_ok ?self s d" for d using ok(3) by (simp add: escrow_ok_def)
  note mine = auction_okD [OF old a(1)]
  obtain st where st: "BondState s b = Some st" using mine(2) by blast
  have cok: "config_ok c" using ledger_ok_bond(1) [OF ok(1) st] c by auto
  have b: "b \<in> {1..bond_count s}" by (rule ids_ok_range [OF ok(2) st])
  have op: "auction_open s b a" using mine(8) a(2) .
  have h: "h \<noteq> ?self" using mine(6,7) k(1) by auto
  have "\<forall>ord\<in>set (au_orders a). or_wallet ord = h \<longrightarrow> or_identity ord = k" "\<forall>ord\<in>set (au_orders a). 0 < or_requested ord"
    using op k(1) by (auto simp: auction_open_def order_ok_def)
  note new = add_order_result [OF os this(1) am this(2)]
  have units: "committed_units ?a = committed_units a + amount" by (simp add: committed_units_def new(1))
  have com: "committed s' b = committed s b + ?x" "token_of s' b = token_of s b"
    using a c by (simp_all add: committed_def token_of_def s' publish_def units algebra_simps)
  have other: "committed s' d = committed s d" "token_of s' d = token_of s d" if "d \<noteq> b" for d
    using that by (intro committed_cong; simp add: s' publish_def)+
  have lock: "locked s' t = locked s t + (if token_of s b = t then ?x else 0)" for t
    using locked_upd [OF _ b com(2) other(2,1)] com(1) by (simp add: s' publish_def bond_count_def)
  have bal: "balance w' t ?self = balance w t ?self + (if t = ?t then ?x else 0)" for t
    using move_balance [OF mv, of t ?self] h by simp
  have tok: "token_of s b = ?t" by (simp add: token_of_def a(1))
  have fits: "i128 (committed_units ?a * face_value c)"
  proof (rule i128_le [OF move_fits [OF mv]])
    have "committed s b \<le> locked s ?t" using committed_locked [OF _ ok(1) b, of ?self] old tok by simp
    also have "\<dots> \<le> balance w ?t ?self" using ok(3) by (simp add: escrow_ok_def)
    finally show "committed_units ?a * face_value c \<le> balance w' ?t ?self"
      using bal [of ?t] a c by (simp add: committed_def units algebra_simps)
    show "0 \<le> committed_units ?a * face_value c"
      using auction_book(3) [OF old a c cok] am cok by (simp add: units config_ok_def)
  qed
  have "order_ok s' b ord" if "ord \<in> set orders" for ord
    using new(4) [OF that] k(1) op by (auto simp: order_ok_def auction_open_def s' publish_def)
  moreover have "demand_of orders j \<le> au_identity_cap (au_config a)" for j
    using new(2) [of j] op k(2) by (auto simp: auction_open_def)
  ultimately have "auction_open s' b ?a"
    using new(3) op fits c by (simp add: auction_open_def s' publish_def)
  then have "auction_ok ?self s' b"
    using mine by (auto simp: auction_ok_def s' publish_def configured_def)
  moreover have "auction_ok ?self s' d" if "d \<noteq> b" for d
    using that by (intro auction_ok_other [OF old]) (simp_all add: s' publish_def)
  ultimately have "auction_ok ?self s' d" for d by (cases "d = b") auto
  moreover have "locked s' t \<le> balance w' t ?self" for t
    using lock [of t] bal [of t] tok ok(3) by (auto simp: escrow_ok_def)
  ultimately show ?thesis by (simp add: escrow_ok_def)
qed

text \<open>
  A settlement pays out exactly what the auction holds: every wallet its refund, the
  treasury the price of what was sold.
\<close>

lemma settle_subscription_pays:
  assumes host: "token_transfer host = move" and run: "settle_subscription host env s w b = Inr (s', w', a')"
    and ok: "ledger_ok s" "auction_ok (current_contract_address env) s b"
  defines "self \<equiv> current_contract_address env"
  shows "balance w' (token_of s b) self = balance w (token_of s b) self - committed s b"
    and "t \<noteq> token_of s b \<Longrightarrow> balance w' t x = balance w t x"
    and "x \<noteq> self \<Longrightarrow> balance w' (token_of s b) x = balance w (token_of s b) x +
      (\<Sum>ord\<leftarrow>filter (\<lambda>ord. or_wallet ord = x) (au_orders a'). (or_requested ord - or_allocated ord) * face_value (the (BondConfig s b))) +
      (if x = au_treasury (au_config a') then (\<Sum>ord\<leftarrow>au_orders a'. or_allocated ord) * face_value (the (BondConfig s b)) else 0)"
proof -
  obtain a c st where a: "SubscriptionAuction s b = Some a" "\<not> au_settled a"
    and c: "BondConfig s b = Some c" and st: "BondState s b = Some st"
    and a': "a' = a\<lparr>au_orders := au_orders a', au_settled := True\<rparr>"
    and al: "allocation (face_value c) (open_capacity env c st) (sort_orders (au_orders a)) (au_orders a')"
    and pay: "paid host env b a' c w w'"
    by (rule settle_subscription_effect [OF ok run]) (rule that)
  have cok: "config_ok c" "0 \<le> total_subscribed st" "total_subscribed st \<le> total_supply c"
    using ledger_ok_bond(1) [OF ok(1) st] c ledger_ok_total [OF ok(1) st] by auto
  note book = auction_book [OF ok(2) a c cok(1)]
  let ?os = "sort_orders (au_orders a)"
  have cap: "0 \<le> open_capacity env c st" using cok by (simp add: open_capacity_def)
  have each: "\<forall>ord\<in>set (au_orders a'). 0 \<le> or_allocated ord \<and> or_allocated ord \<le> or_requested ord \<and>
      or_refunded ord = (or_requested ord - or_allocated ord) * face_value c"
    using allocation_identity [OF al _ cap sort_orders_identities] book(1) by (metis book_ok_sorted)
  have req: "map request_of (au_orders a') = map request_of ?os" using al by (simp add: allocation_def)
  have "mset (map or_wallet (au_orders a')) = mset (map or_wallet (au_orders a))"
    unfolding requests_same(3) [OF req] by (simp add: sort_orders_sorts)
  then have wal: "current_contract_address env \<notin> or_wallet ` set (au_orders a')"
    using book(2) by (metis image_set set_mset_mset)
  have "mset (map or_requested (au_orders a')) = mset (map or_requested (au_orders a))"
    unfolding requests_same(2) [OF req] by (simp add: sort_orders_sorts)
  then have sum: "(\<Sum>ord\<leftarrow>au_orders a'. or_requested ord) = committed_units a"
    unfolding committed_units_def by (metis sum_mset_sum_list)
  have cfg: "au_config a' = au_config a" by (subst a') simp
  have tok: "token_of s b = au_token (au_config a')" using a(1) cfg by (simp add: token_of_def)
  have "au_treasury (au_config a') \<noteq> current_contract_address env"
    using auction_okD(3) [OF ok(2) a(1)] cfg by simp
  note bal = paid_balance [OF host pay wal this _ each, folded self_def tok]
  have face: "0 \<le> face_value c" using cok(1) by (simp add: config_ok_def)
  show "balance w' (token_of s b) self = balance w (token_of s b) self - committed s b"
    using bal(1) [OF face] sum a c by (simp add: committed_def)
  show "t \<noteq> token_of s b \<Longrightarrow> balance w' t x = balance w t x" using bal(3) [OF face] .
  have "(\<Sum>ord\<leftarrow>filter (\<lambda>ord. or_wallet ord = x) (au_orders a'). or_refunded ord) =
      (\<Sum>ord\<leftarrow>filter (\<lambda>ord. or_wallet ord = x) (au_orders a'). (or_requested ord - or_allocated ord) * face_value c)"
    using each by (intro arg_cong [of _ _ sum_list] map_cong) auto
  then show "x \<noteq> self \<Longrightarrow> balance w' (token_of s b) x = balance w (token_of s b) x +
      (\<Sum>ord\<leftarrow>filter (\<lambda>ord. or_wallet ord = x) (au_orders a'). (or_requested ord - or_allocated ord) * face_value (the (BondConfig s b))) +
      (if x = au_treasury (au_config a') then (\<Sum>ord\<leftarrow>au_orders a'. or_allocated ord) * face_value (the (BondConfig s b)) else 0)"
    using bal(2) [OF face, of x] c by simp
qed

lemma settle_subscription_escrow:
  assumes host: "token_transfer host = move" and run: "settle_subscription host env s w b = Inr (s', w', a')"
    and ok: "ledger_ok s" "ids_ok s" "escrow_ok balance (current_contract_address env) s w"
  shows "escrow_ok balance (current_contract_address env) s' w'"
proof -
  let ?self = "current_contract_address env"
  have old: "auction_ok ?self s d" for d using ok(3) by (simp add: escrow_ok_def)
  obtain a c st where a: "SubscriptionAuction s b = Some a" "\<not> au_settled a"
    and st: "BondState s b = Some st" and a': "a' = a\<lparr>au_orders := au_orders a', au_settled := True\<rparr>"
    and state: "BondState s' = (BondState s)(b \<mapsto> st\<lparr>total_subscribed := total_subscribed st + (\<Sum>ord\<leftarrow>au_orders a'. or_allocated ord)\<rparr>)"
    and s': "s' = (with_positions s s')\<lparr>SubscriptionAuction := (SubscriptionAuction s)(b \<mapsto> a'),
        Events := Events s @ [SubscriptionSettled b (au_orders a')]\<rparr>"
    by (rule settle_subscription_effect [OF ok(1) old run]) (rule that)
  have f: "SubscriptionAuction s' = (SubscriptionAuction s)(b \<mapsto> a')" "BondConfig s' = BondConfig s"
    "SubscriptionAuctionRequired s' = SubscriptionAuctionRequired s" "SubscriptionIdentity s' = SubscriptionIdentity s"
    "BondCount s' = BondCount s"
    by (subst s', simp add: with_positions_def)+
  have fa: "au_settled a'" "au_config a' = au_config a" "au_wallets a' = au_wallets a" by (subst a', simp)+
  have b: "b \<in> {1..bond_count s}" by (rule ids_ok_range [OF ok(2) st])
  have com: "committed s' b = 0" "token_of s' b = token_of s b"
    using a(1) fa by (simp_all add: committed_def token_of_def f)
  have other: "committed s' d = committed s d" "token_of s' d = token_of s d" if "d \<noteq> b" for d
    using that by (intro committed_cong; simp add: f)+
  have lock: "locked s' t = locked s t - (if token_of s b = t then committed s b else 0)" for t
    using locked_upd [OF _ b com(2) other(2,1)] com(1) by (simp add: f bond_count_def)
  note pays = settle_subscription_pays [OF host run ok(1) old]
  have "locked s' t \<le> balance w' t ?self" for t
    using lock [of t] pays(1) pays(2) [of t ?self] ok(3) by (auto simp: escrow_ok_def)
  moreover have "auction_ok ?self s' b"
    using auction_okD [OF old a(1)] state fa by (auto simp: auction_ok_def f configured_def)
  moreover have "auction_ok ?self s' d" if "d \<noteq> b" for d
    using that state by (intro auction_ok_other [OF old]) (simp_all add: f)
  ultimately show ?thesis unfolding escrow_ok_def by (metis (full_types))
qed

end

end
