(* ===== verification/Spec2Isabelle.thy ===== *)
theory Spec2Isabelle
  imports Bond_State_Machine Event_Ledger Fee_Calculation Record_Lifecycle Authorization Invitation Impersonation Bonds_Service Idempotency Order_State Nonce Job_Queue Issuer_Escrow
begin

text \<open>
  Verification of the off-chain core of the Verdant Bond Protocol API.
\<close>

end
